(* ===== verification/Prelude.thy ===== *)
theory Prelude
  imports "HOL-Library.Word" "HOL-Library.Monad_Syntax"
begin

text \<open>
  Shared vocabulary of the development: the machine integer types of the
  kernel's C code, the page constants of \<^verbatim>\<open>include/mm/pmm.h\<close>, counting loops
  whose body may not return, and the generic facts about words, bits and lists
  that the component theories use.
\<close>

unbundle bit_operations_syntax

named_theorems nat_word
  \<comment> \<open>rewrites that move a fact about machine words to the natural numbers\<close>

named_theorems kernel_inv
  \<comment> \<open>preservation of the component invariants by the operations\<close>


section \<open>Machine integers\<close>

type_synonym u8 = "8 word"
type_synonym u16 = "16 word"
type_synonym u32 = "32 word"
type_synonym u64 = "64 word"

text \<open>Byte strings: the bytes of a C string without its terminating NUL.\<close>

type_synonym cstring = "u8 list"

text \<open>The bytes of a string literal of the source.\<close>

definition cstr :: "string \<Rightarrow> cstring" where
  "cstr s = map of_char s"

lemma cstr_simps [simp]:
  "cstr [] = []" "cstr (c # s) = of_char c # cstr s"
  by (simp_all add: cstr_def)

lemma length_cstr [simp]: "length (cstr s) = length s"
  by (simp add: cstr_def)

abbreviation PAGE_SIZE :: u64 where
  "PAGE_SIZE \<equiv> 0x1000"

abbreviation PHYS_MEM_OFFSET :: u64 where
  "PHYS_MEM_OFFSET \<equiv> 0xffff800000000000"


section \<open>Counting loops\<close>

text \<open>
  A \<^verbatim>\<open>for\<close> loop over a known range of values, whose body passes the state on and
  may fail to return (\<^const>\<open>None\<close>).
\<close>

fun foldM :: "('a \<Rightarrow> 's \<Rightarrow> 's option) \<Rightarrow> 'a list \<Rightarrow> 's \<Rightarrow> 's option" where
  "foldM f [] s = Some s"
| "foldM f (x # xs) s = (case f x s of None \<Rightarrow> None | Some s' \<Rightarrow> foldM f xs s')"

lemma foldM_append:
  "foldM f (xs @ ys) s = (case foldM f xs s of None \<Rightarrow> None | Some s' \<Rightarrow> foldM f ys s')"
  by (induction xs arbitrary: s) (auto split: option.splits)

lemma foldM_inv:
  assumes "foldM f xs s = Some s'" and "P s"
    and "\<And>x s s'. x \<in> set xs \<Longrightarrow> P s \<Longrightarrow> f x s = Some s' \<Longrightarrow> P s'"
  shows "P s'"
  using assms
proof (induction xs arbitrary: s)
  case Nil
  then show ?case by simp
next
  case (Cons x xs)
  then show ?case
    by (auto split: option.splits intro: Cons.IH)
qed

lemma foldM_total:
  assumes "P s" and "\<And>x s. x \<in> set xs \<Longrightarrow> P s \<Longrightarrow> \<exists>s'. f x s = Some s' \<and> P s'"
  shows "\<exists>s'. foldM f xs s = Some s' \<and> P s'"
  using assms
proof (induction xs arbitrary: s)
  case Nil
  then show ?case by simp
next
  case (Cons x xs)
  then obtain s1 where "f x s = Some s1" "P s1"
    by fastforce
  then show ?case
    using Cons.IH [of s1] Cons.prems(2) by auto
qed

lemma foldM_Some:
  assumes "\<And>x s. x \<in> set xs \<Longrightarrow> f x s = Some (g x s)"
  shows "foldM f xs s = Some (fold g xs s)"
  using assms by (induction xs arbitrary: s) auto


section \<open>Words and natural numbers\<close>

lemma unat_of_nat_id [nat_word]:
  "n < 2 ^ LENGTH('a::len) \<Longrightarrow> unat (of_nat n :: 'a word) = n"
  by (simp add: unat_of_nat take_bit_eq_mod)

lemma of_nat_eq_iff_small:
  assumes "m < 2 ^ LENGTH('a::len)" and "n < 2 ^ LENGTH('a)"
  shows "(of_nat m :: 'a word) = of_nat n \<longleftrightarrow> m = n"
  using assms by (metis unat_of_nat_id)

lemma unat_add_small [nat_word]:
  "unat x + unat y < 2 ^ LENGTH('a::len) \<Longrightarrow> unat (x + y :: 'a word) = unat x + unat y"
  by (simp add: unat_word_ariths)

lemma unat_mult_small [nat_word]:
  "unat x * unat y < 2 ^ LENGTH('a::len) \<Longrightarrow> unat (x * y :: 'a word) = unat x * unat y"
  by (simp add: unat_word_ariths)

lemma unat_sub_small [nat_word]:
  "unat y \<le> unat x \<Longrightarrow> unat (x - y :: 'a::len word) = unat x - unat y"
  by (simp add: unat_sub word_le_nat_alt)

lemma unat_lt64 [simp]: "unat (x :: u64) < 18446744073709551616"
  using unsigned_less [of x, where ?'a = nat] by simp

lemma unat_lt32 [simp]: "unat (x :: u32) < 4294967296"
  using unsigned_less [of x, where ?'a = nat] by simp

lemma unat_lt16 [simp]: "unat (x :: u16) < 65536"
  using unsigned_less [of x, where ?'a = nat] by simp

lemma unat_lt8 [simp]: "unat (x :: u8) < 256"
  using unsigned_less [of x, where ?'a = nat] by simp

lemma word_of_nat_cases:
  fixes x :: "'a::len word"
  obtains n where "x = of_nat n" "n < 2 ^ LENGTH('a)"
  using word_nat_cases by metis

lemma word_div_mod_eq_iff:
  fixes x y d :: "'a::len word"
  shows "x div d = y div d \<and> x mod d = y mod d \<longleftrightarrow> x = y"
  by (metis div_mult_mod_eq)

end
