(* ===== verification/Lock.thy ===== *)
theory Lock
  imports Prelude
begin

text \<open>
  The spin lock of \<^verbatim>\<open>src/src/kernel/include/lock.h\<close>. First the lock word and the
  macros as they run on one processor with nobody else touching the lock
  (\<^const>\<open>None\<close> stands for spinning forever); then the same instruction sequence
  interleaved over any number of processors, as a step relation whose reachable
  states satisfy mutual exclusion.
\<close>

section \<open>The lock word and its macros\<close>

record lock_t =
  waiting_refcount :: u32
  lock_bits :: u32

definition lock_init :: lock_t where
  "lock_init = \<lparr>waiting_refcount = 0, lock_bits = 0\<rparr>"

text \<open>\<^verbatim>\<open>lock incl\<close> and \<^verbatim>\<open>lock decl\<close> also report whether the result is non-zero.\<close>

definition LOCKED_INC :: "u32 \<Rightarrow> bool \<times> u32" where
  "LOCKED_INC v = (v + 1 \<noteq> 0, v + 1)"

definition LOCKED_DEC :: "u32 \<Rightarrow> bool \<times> u32" where
  "LOCKED_DEC v = (v - 1 \<noteq> 0, v - 1)"

text \<open>\<^verbatim>\<open>lock btsl $0\<close>: the carry flag is the old bit 0, then the bit is set.\<close>

definition btsl0 :: "u32 \<Rightarrow> bool \<times> u32" where
  "btsl0 b = (bit b 0, b OR 1)"

text \<open>\<^verbatim>\<open>lock btrl $0\<close>: bit 0 is cleared.\<close>

definition btrl0 :: "u32 \<Rightarrow> u32" where
  "btrl0 b = b AND NOT 1"

text \<open>
  The loop of \<^verbatim>\<open>LOCK\<close>: leave with carry clear when bit 0 was clear, leave with
  carry set when bit 1 is set, try again otherwise.
\<close>

partial_function (option) lock_spin :: "u32 \<Rightarrow> (bool \<times> u32) option" where
  "lock_spin b =
     (case btsl0 b of
        (cf, b') \<Rightarrow>
          if \<not> cf then Some (False, b')
          else if bit b' 1 then Some (True, b')
          else lock_spin b')"

definition LOCK :: "lock_t \<Rightarrow> (bool \<times> lock_t) option" where
  "LOCK l =
     (let l1 = l\<lparr>waiting_refcount := snd (LOCKED_INC (waiting_refcount l))\<rparr> in
      case lock_spin (lock_bits l1) of
        None \<Rightarrow> None
      | Some (ret, b) \<Rightarrow>
          let l2 = l1\<lparr>lock_bits := b\<rparr>;
              l3 = l2\<lparr>waiting_refcount := snd (LOCKED_DEC (waiting_refcount l2))\<rparr>
          in Some (\<not> ret, l3))"

definition LOCK_ACQUIRE :: "lock_t \<Rightarrow> bool \<times> lock_t" where
  "LOCK_ACQUIRE l = (case btsl0 (lock_bits l) of (cf, b) \<Rightarrow> (\<not> cf, l\<lparr>lock_bits := b\<rparr>))"

definition UNLOCK :: "lock_t \<Rightarrow> lock_t" where
  "UNLOCK l = l\<lparr>lock_bits := btrl0 (lock_bits l)\<rparr>"

definition lock_free :: "lock_t \<Rightarrow> bool" where
  "lock_free l \<longleftrightarrow> \<not> bit (lock_bits l) 0"

definition lock_held :: "lock_t \<Rightarrow> lock_t" where
  "lock_held l = l\<lparr>lock_bits := lock_bits l OR 1\<rparr>"

lemma or_1_word_simps:
  "bit (b OR 1 :: u32) 0" "bit (b OR 1 :: u32) (Suc 0) = bit b (Suc 0)"
  by (simp_all add: bit_simps)

lemma LOCK_free [simp]: "lock_free l \<Longrightarrow> LOCK l = Some (True, lock_held l)"
  by (subst LOCK_def, subst lock_spin.simps)
     (simp add: lock_free_def lock_held_def btsl0_def LOCKED_INC_def LOCKED_DEC_def)

lemma lock_spin_abort:
  "bit b 0 \<Longrightarrow> bit b 1 \<Longrightarrow> lock_spin b = Some (True, b OR 1)"
  by (subst lock_spin.simps) (simp add: btsl0_def or_1_word_simps)

lemma lock_spin_returns:
  assumes "lock_spin b = Some r"
  shows "\<not> bit b 0 \<or> bit b 1"
proof (rule lock_spin.raw_induct [where P = "\<lambda>b r. \<not> bit b 0 \<or> bit b 1", OF _ assms])
  fix f b r
  assume IH: "\<And>b r. f b = Some r \<Longrightarrow> \<not> bit b 0 \<or> bit b 1"
    and eq: "(case btsl0 b of (cf, b') \<Rightarrow>
       if \<not> cf then Some (False, b') else if bit b' 1 then Some (True, b') else f b') = Some r"
  show "\<not> bit b 0 \<or> bit b 1"
    using eq IH [of "b OR 1" r] or_1_word_simps [of b]
    by (auto simp: btsl0_def split: if_splits)
qed

text \<open>With the lock held and no abort bit, the sequential \<^verbatim>\<open>LOCK\<close> spins forever.\<close>

lemma LOCK_busy [simp]:
  "bit (lock_bits l) 0 \<Longrightarrow> \<not> bit (lock_bits l) 1 \<Longrightarrow> LOCK l = None"
  using lock_spin_returns [of "lock_bits l"] by (auto simp: LOCK_def Let_def split: option.splits)

lemma UNLOCK_held [simp]: "lock_free l \<Longrightarrow> UNLOCK (lock_held l) = l"
proof -
  assume "lock_free l"
  then have "(lock_bits l OR 1) AND NOT 1 = lock_bits l"
    by (intro bit_word_eqI) (auto simp: lock_free_def bit_simps intro!: gr0I)
  then show ?thesis
    by (simp add: UNLOCK_def lock_held_def btrl0_def)
qed

lemma lock_free_UNLOCK [simp]: "lock_free (UNLOCK l)"
  by (simp add: UNLOCK_def lock_free_def btrl0_def bit_simps)

lemma lock_free_init [simp]: "lock_free lock_init"
  by (simp add: lock_free_def lock_init_def)

lemma not_lock_free_held [simp]: "\<not> lock_free (lock_held l)"
  by (simp add: lock_free_def lock_held_def bit_simps)


section \<open>Any number of processors\<close>

text \<open>
  Where a processor stands with respect to one lock: outside; at the \<^verbatim>\<open>btsl\<close> of
  the loop; at the \<^verbatim>\<open>btl $1\<close> after a failed \<^verbatim>\<open>btsl\<close>; out of the loop with the
  carry flag in hand but before the \<^verbatim>\<open>decl\<close>; past \<^verbatim>\<open>LOCK\<close>, holding its result.
\<close>

datatype lock_pc = Out | Spin | Test | Leaving bool | Inside bool

record lock_sys =
  the_lock :: lock_t
  pcs :: "nat \<Rightarrow> lock_pc"

inductive lock_step :: "lock_sys \<Rightarrow> lock_sys \<Rightarrow> bool" where
  inc: "pcs s i = Out \<Longrightarrow>
    lock_step s (s\<lparr>pcs := (pcs s)(i := Spin),
      the_lock := (the_lock s)\<lparr>waiting_refcount := snd (LOCKED_INC (waiting_refcount (the_lock s)))\<rparr>\<rparr>)"
| bts: "pcs s i = Spin \<Longrightarrow> btsl0 (lock_bits (the_lock s)) = (cf, b) \<Longrightarrow>
    lock_step s (s\<lparr>pcs := (pcs s)(i := (if cf then Test else Leaving False)),
      the_lock := (the_lock s)\<lparr>lock_bits := b\<rparr>\<rparr>)"
| bt1: "pcs s i = Test \<Longrightarrow>
    lock_step s (s\<lparr>pcs := (pcs s)(i := (if bit (lock_bits (the_lock s)) 1 then Leaving True else Spin))\<rparr>)"
| dec: "pcs s i = Leaving ret \<Longrightarrow>
    lock_step s (s\<lparr>pcs := (pcs s)(i := Inside (\<not> ret)),
      the_lock := (the_lock s)\<lparr>waiting_refcount := snd (LOCKED_DEC (waiting_refcount (the_lock s)))\<rparr>\<rparr>)"
| tryacq: "pcs s i = Out \<Longrightarrow> LOCK_ACQUIRE (the_lock s) = (got, l) \<Longrightarrow>
    lock_step s (s\<lparr>pcs := (pcs s)(i := (if got then Inside True else Out)), the_lock := l\<rparr>)"
| unlock: "pcs s i = Inside r \<Longrightarrow>
    lock_step s (s\<lparr>pcs := (pcs s)(i := Out), the_lock := UNLOCK (the_lock s)\<rparr>)"

inductive lock_reachable :: "lock_sys \<Rightarrow> bool" where
  start: "lock_reachable \<lparr>the_lock = lock_init, pcs = \<lambda>_. Out\<rparr>"
| step: "lock_reachable s \<Longrightarrow> lock_step s t \<Longrightarrow> lock_reachable t"

text \<open>A processor owns the lock from the \<^verbatim>\<open>btsl\<close> that found bit 0 clear to its \<^verbatim>\<open>UNLOCK\<close>.\<close>

fun owns :: "lock_pc \<Rightarrow> bool" where
  "owns (Leaving ret) = (\<not> ret)"
| "owns (Inside r) = r"
| "owns _ = False"

text \<open>A processor is counted in \<^verbatim>\<open>waiting_refcount\<close> between the \<^verbatim>\<open>incl\<close> and the \<^verbatim>\<open>decl\<close>.\<close>

fun waiting :: "lock_pc \<Rightarrow> bool" where
  "waiting Spin = True"
| "waiting Test = True"
| "waiting (Leaving _) = True"
| "waiting _ = False"

text \<open>
  The invariant: nobody ever sees the abort bit, so no processor is past \<^verbatim>\<open>LOCK\<close>
  without owning the lock; bit 0 is set exactly when some processor owns it, and
  then only one does; the reference count is the number of waiting processors.
\<close>

definition waiters :: "(nat \<Rightarrow> lock_pc) \<Rightarrow> nat set" where
  "waiters p = {i. waiting (p i)}"

definition lock_safe :: "lock_sys \<Rightarrow> bool" where
  "lock_safe s \<longleftrightarrow>
     \<not> bit (lock_bits (the_lock s)) 1 \<and>
     (\<forall>i. pcs s i \<noteq> Leaving True \<and> pcs s i \<noteq> Inside False) \<and>
     (\<forall>i j. owns (pcs s i) \<longrightarrow> owns (pcs s j) \<longrightarrow> i = j) \<and>
     (bit (lock_bits (the_lock s)) 0 \<longleftrightarrow> (\<exists>i. owns (pcs s i)))"

definition lock_count :: "lock_sys \<Rightarrow> bool" where
  "lock_count s \<longleftrightarrow>
     finite (waiters (pcs s)) \<and>
     waiting_refcount (the_lock s) = of_nat (card (waiters (pcs s)))"

lemma waiters_upd:
  "waiters (p(i := x)) = (if waiting x then insert i (waiters p) else waiters p - {i})"
  by (auto simp: waiters_def)

lemma finite_waiters_upd [simp]: "finite (waiters (p(i := x))) = finite (waiters p)"
  by (simp add: waiters_upd)

lemma card_waiters_upd:
  assumes "finite (waiters p)"
  shows "card (waiters (p(i := x))) + of_bool (waiting (p i)) = card (waiters p) + of_bool (waiting x)"
proof (cases "waiting (p i)")
  case True
  then have "i \<in> waiters p" by (simp add: waiters_def)
  then show ?thesis
    using assms True card_Suc_Diff1 [of "waiters p" i] by (auto simp: waiters_upd insert_absorb)
next
  case False
  then have "i \<notin> waiters p" by (simp add: waiters_def)
  then show ?thesis
    using assms False by (simp add: waiters_upd)
qed

lemma refcount_upd:
  assumes "finite (waiters p)"
  shows "(of_nat (card (waiters (p(i := x)))) :: u32) =
     of_nat (card (waiters p)) + of_bool (waiting x) - of_bool (waiting (p i))"
proof -
  have "(of_nat (card (waiters (p(i := x))) + of_bool (waiting (p i))) :: u32) =
     of_nat (card (waiters p) + of_bool (waiting x))"
    by (simp only: card_waiters_upd [OF assms])
  then show ?thesis
    by (auto simp: algebra_simps of_bool_def)
qed

lemma lock_step_count:
  "lock_step s t \<Longrightarrow> lock_count s \<Longrightarrow> lock_count t"
  by (induction rule: lock_step.induct)
     (auto simp: lock_count_def refcount_upd LOCKED_INC_def LOCKED_DEC_def LOCK_ACQUIRE_def
       btsl0_def UNLOCK_def)

lemma lock_step_safe:
  assumes "lock_step s t" and "lock_safe s"
  shows "lock_safe t"
  using assms
proof (induction rule: lock_step.induct)
  case (inc s i)
  then show ?case
    by (simp add: lock_safe_def) (metis owns.simps(3,5))
next
  case (bts s i cf b)
  then have b: "cf = bit (lock_bits (the_lock s)) 0" "b = lock_bits (the_lock s) OR 1"
    by (auto simp: btsl0_def)
  from bts.prems bts.hyps(1) show ?case
    by (auto simp: lock_safe_def b or_1_word_simps) (metis owns.simps(3,4))
next
  case (bt1 s i)
  then show ?case
    by (simp add: lock_safe_def) (metis owns.simps(4,5))
next
  case (dec s i ret)
  then show ?case
    by (simp add: lock_safe_def) (metis owns.simps(1,2))
next
  case (tryacq s i got l)
  then have b: "got = (\<not> bit (lock_bits (the_lock s)) 0)"
    "l = (the_lock s)\<lparr>lock_bits := lock_bits (the_lock s) OR 1\<rparr>"
    by (auto simp: LOCK_ACQUIRE_def btsl0_def)
  from tryacq.prems tryacq.hyps(1) show ?case
    by (auto simp: lock_safe_def b or_1_word_simps) (metis owns.simps(3,4))
next
  case (unlock s i r)
  then have "owns (pcs s i)"
    by (cases r) (auto simp: lock_safe_def)
  with unlock show ?case
    by (auto simp: lock_safe_def UNLOCK_def btrl0_def bit_simps)
qed

definition lock_inv :: "lock_sys \<Rightarrow> bool" where
  "lock_inv s \<longleftrightarrow> lock_safe s \<and> lock_count s"

lemma lock_step_inv [kernel_inv]: "lock_step s t \<Longrightarrow> lock_inv s \<Longrightarrow> lock_inv t"
  by (auto simp: lock_inv_def intro: lock_step_safe lock_step_count)

lemma lock_reachable_inv: "lock_reachable s \<Longrightarrow> lock_inv s"
proof (induction rule: lock_reachable.induct)
  case start
  show ?case
    by (simp add: lock_inv_def lock_safe_def lock_count_def lock_init_def waiters_def)
next
  case (step s t)
  then show ?case by (blast intro: lock_step_inv)
qed

lemma reachable_owner_unique:
  assumes "lock_reachable s" and "pcs s i = Inside r" and "pcs s j = Inside r'"
  shows "i = j"
proof -
  have "lock_safe s"
    using assms(1) lock_reachable_inv by (simp add: lock_inv_def)
  then have "owns (pcs s i)" "owns (pcs s j)" and "\<forall>i j. owns (pcs s i) \<longrightarrow> owns (pcs s j) \<longrightarrow> i = j"
    using assms(2,3) by (cases r; cases r'; auto simp: lock_safe_def)+
  then show ?thesis by blast
qed

text \<open>
  C1: mutual exclusion of \<^verbatim>\<open>LOCK\<close>, \<^verbatim>\<open>LOCK_ACQUIRE\<close> and \<^verbatim>\<open>UNLOCK\<close>. In every state
  reachable from a zeroed lock word, under any interleaving of the instructions of any
  number of processors, at most one processor is between the end of its \<^verbatim>\<open>LOCK\<close> and its
  \<^verbatim>\<open>UNLOCK\<close>; bit 0 of the lock word says whether one owns the lock; and
  \<^verbatim>\<open>waiting_refcount\<close> is the number of processors inside \<^verbatim>\<open>LOCK\<close>.
\<close>

theorem lock_mutual_exclusion:
  assumes "lock_reachable s"
  shows "(\<forall>i j r r'. pcs s i = Inside r \<longrightarrow> pcs s j = Inside r' \<longrightarrow> i = j) \<and>
    (bit (lock_bits (the_lock s)) 0 \<longleftrightarrow> (\<exists>i. owns (pcs s i))) \<and>
    waiting_refcount (the_lock s) = of_nat (card (waiters (pcs s)))"
  using reachable_owner_unique [OF assms] lock_reachable_inv [OF assms]
  unfolding lock_inv_def lock_safe_def lock_count_def by blast

definition lock_demo :: lock_sys where
  "lock_demo = \<lparr>the_lock = \<lparr>waiting_refcount = 1, lock_bits = 1\<rparr>,
     pcs = (\<lambda>_. Out)(0 := Inside True, 1 := Spin)\<rparr>"

lemma lock_demo_reachable: "lock_reachable lock_demo"
proof -
  let ?s0 = "\<lparr>the_lock = lock_init, pcs = \<lambda>_. Out\<rparr>"
  let ?s1 = "\<lparr>the_lock = \<lparr>waiting_refcount = 0, lock_bits = 1\<rparr>, pcs = (\<lambda>_. Out)(0 := Inside True)\<rparr>"
  have "lock_step ?s0 ?s1"
    using lock_step.tryacq [of ?s0 0 True "\<lparr>waiting_refcount = 0, lock_bits = 1\<rparr>"]
    by (simp add: LOCK_ACQUIRE_def btsl0_def lock_init_def)
  moreover have "lock_step ?s1 lock_demo"
    using lock_step.inc [of ?s1 1] by (simp add: lock_demo_def LOCKED_INC_def fun_upd_def)
  ultimately show ?thesis
    by (blast intro: lock_reachable.intros)
qed

theorem lock_mutual_exclusion_witness:
  "lock_reachable lock_demo \<and> {j. \<exists>r. pcs lock_demo j = Inside r} = {0} \<and>
    card (waiters (pcs lock_demo)) = 1"
proof -
  have "waiters (pcs lock_demo) = {1}"
    by (auto simp: waiters_def lock_demo_def)
  moreover have "pcs lock_demo 0 = Inside True"
    by (simp add: lock_demo_def)
  ultimately show ?thesis
    using lock_mutual_exclusion [OF lock_demo_reachable] lock_demo_reachable by auto
qed

end
