(* ===== verification/Memory.thy ===== *)
theory Memory
  imports Prelude
begin

text \<open>
  The memory the kernel's C code works on: one byte per 64-bit address, no
  bounds and wrap-around address arithmetic, as on the machine. The block
  operations of \<^verbatim>\<open>src/src/kernel/string/memf.asm\<close> are the string instructions they
  consist of (\<^verbatim>\<open>rep stosb\<close>, \<^verbatim>\<open>rep movsb\<close> with the direction flag clear); the lemmas
  give their effect as one update of a range of bytes.
\<close>

type_synonym mem = "u64 \<Rightarrow> u8"

section \<open>Ranges of bytes\<close>

fun put_bytes :: "mem \<Rightarrow> u64 \<Rightarrow> u8 list \<Rightarrow> mem" where
  "put_bytes m p [] = m"
| "put_bytes m p (b # bs) = put_bytes (m(p := b)) (p + 1) bs"

fun get_bytes :: "mem \<Rightarrow> u64 \<Rightarrow> nat \<Rightarrow> u8 list" where
  "get_bytes m p 0 = []"
| "get_bytes m p (Suc n) = m p # get_bytes m (p + 1) n"

lemma length_get_bytes [simp]: "length (get_bytes m p n) = n"
  by (induction n arbitrary: p) auto

lemma nth_get_bytes [simp]: "i < n \<Longrightarrow> get_bytes m p n ! i = m (p + of_nat i)"
  by (induction n arbitrary: p i) (auto simp: nth_Cons' algebra_simps of_nat_diff)

lemma get_bytes_cong:
  "(\<And>i. i < n \<Longrightarrow> m (p + of_nat i) = m' (q + of_nat i)) \<Longrightarrow> get_bytes m p n = get_bytes m' q n"
  by (rule nth_equalityI) auto

text \<open>The distance from one address to another, going up.\<close>

lemma word_dist_Suc:
  fixes a p :: u64
  assumes "a \<noteq> p"
  shows "unat (a - p) = Suc (unat (a - (p + 1)))"
proof -
  have "a - p \<noteq> 0" using assms by simp
  then have "unat (a - p) \<noteq> 0" by (simp add: unat_eq_zero)
  moreover have "unat ((a - p) - 1) = unat (a - p) - 1"
    using \<open>a - p \<noteq> 0\<close> by (simp add: unat_minus_one)
  moreover have "(a - p) - 1 = a - (p + 1)" by simp
  ultimately show ?thesis by simp
qed

lemma put_bytes_apply:
  assumes "length bs \<le> 2 ^ 64"
  shows "put_bytes m p bs a =
    (if unat (a - p) < length bs then bs ! unat (a - p) else m a)"
  using assms
proof (induction bs arbitrary: m p)
  case Nil
  then show ?case by simp
next
  case (Cons b bs)
  show ?case
  proof (cases "a = p")
    case True
    have "unat (a - (p + 1)) = 2 ^ 64 - 1"
      using True by (simp add: unsigned_minus_1_eq_mask mask_eq_exp_minus_1)
    with Cons True show ?thesis by auto
  next
    case False
    with Cons word_dist_Suc [OF False] show ?thesis by auto
  qed
qed

lemma put_bytes_append:
  "put_bytes m p (xs @ ys) = put_bytes (put_bytes m p xs) (p + of_nat (length xs)) ys"
  by (induction xs arbitrary: m p) (auto simp: algebra_simps)

lemma put_bytes_inside:
  assumes "i < length bs" and "length bs \<le> 2 ^ 64"
  shows "put_bytes m p bs (p + of_nat i) = bs ! i"
proof -
  have "unat (of_nat i :: u64) = i"
    using assms by (intro unat_of_nat_id) simp
  then show ?thesis
    using assms by (simp add: put_bytes_apply)
qed

lemma get_put_bytes [simp]:
  "length bs \<le> 2 ^ 64 \<Longrightarrow> get_bytes (put_bytes m p bs) p (length bs) = bs"
  by (rule nth_equalityI) (auto simp: put_bytes_inside)

text \<open>Two ranges of \<open>n\<close> bytes with no byte in common.\<close>

definition ranges_disjoint :: "u64 \<Rightarrow> nat \<Rightarrow> u64 \<Rightarrow> nat \<Rightarrow> bool" where
  "ranges_disjoint p n q k \<longleftrightarrow> (\<forall>i<n. \<forall>j<k. p + of_nat i \<noteq> q + of_nat j)"

lemma ranges_disjointD:
  "ranges_disjoint p n q k \<Longrightarrow> i < n \<Longrightarrow> j < k \<Longrightarrow> p + of_nat i \<noteq> q + of_nat j"
  by (simp add: ranges_disjoint_def)

lemma ranges_disjoint_sym: "ranges_disjoint p n q k \<Longrightarrow> ranges_disjoint q k p n"
  by (auto simp: ranges_disjoint_def dest: sym)

lemma ranges_disjoint_Suc_left:
  "ranges_disjoint p (Suc n) q k \<Longrightarrow> ranges_disjoint (p + 1) n q k"
  using ranges_disjointD [of p "Suc n" q k "Suc _"] by (simp add: ranges_disjoint_def add.assoc)

lemma ranges_disjoint_Suc_right:
  "ranges_disjoint p n q (Suc k) \<Longrightarrow> ranges_disjoint p n (q + 1) k"
  using ranges_disjointD [of p n q "Suc k" _ "Suc _"] by (simp add: ranges_disjoint_def add.assoc)

lemma ranges_disjoint_first:
  "ranges_disjoint p (Suc n) q k \<Longrightarrow> j < k \<Longrightarrow> p \<noteq> q + of_nat j"
  using ranges_disjointD [of p "Suc n" q k 0 j] by simp

lemma unat_add_of_nat:
  fixes s :: u64
  shows "unat s + k < 2 ^ 64 \<Longrightarrow> unat (s + of_nat k) = unat s + k"
  by (simp add: unat_add_small unat_of_nat_id)

lemma ranges_disjoint_below:
  assumes "unat p + n \<le> unat q" and "unat q + k \<le> 2 ^ 64"
  shows "ranges_disjoint p n q k"
  unfolding ranges_disjoint_def
proof (intro allI impI)
  fix i j assume "i < n" "j < k"
  then have "unat (p + of_nat i) = unat p + i" "unat (q + of_nat j) = unat q + j"
    using assms by (auto intro!: unat_add_of_nat)
  then show "p + of_nat i \<noteq> q + of_nat j"
    using assms \<open>i < n\<close> by auto
qed

lemma put_bytes_outside:
  assumes "ranges_disjoint p (length bs) q k" and "i < k"
  shows "put_bytes m p bs (q + of_nat i) = m (q + of_nat i)"
  using assms(1)
proof (induction bs arbitrary: m p)
  case Nil
  then show ?case by simp
next
  case (Cons b bs)
  have "ranges_disjoint (p + 1) (length bs) q k"
    using Cons.prems by (simp add: ranges_disjoint_Suc_left)
  moreover have "q + of_nat i \<noteq> p"
    using ranges_disjoint_first [of p "length bs" q k i] Cons.prems assms(2) by auto
  ultimately show ?case
    using Cons.IH by simp
qed


section \<open>The block operations of memf.asm\<close>

fun rep_stosb :: "mem \<Rightarrow> u64 \<Rightarrow> u8 \<Rightarrow> nat \<Rightarrow> mem" where
  "rep_stosb m rdi al 0 = m"
| "rep_stosb m rdi al (Suc rcx) = rep_stosb (m(rdi := al)) (rdi + 1) al rcx"

fun rep_movsb :: "mem \<Rightarrow> u64 \<Rightarrow> u64 \<Rightarrow> nat \<Rightarrow> mem" where
  "rep_movsb m rdi rsi 0 = m"
| "rep_movsb m rdi rsi (Suc rcx) = rep_movsb (m(rdi := m rsi)) (rdi + 1) (rsi + 1) rcx"

definition memset :: "mem \<Rightarrow> u64 \<Rightarrow> u8 \<Rightarrow> u64 \<Rightarrow> mem" where
  "memset m buffer value count = rep_stosb m buffer value (unat count)"

definition memcpy :: "mem \<Rightarrow> u64 \<Rightarrow> u64 \<Rightarrow> u64 \<Rightarrow> mem" where
  "memcpy m dest src len = rep_movsb m dest src (unat len)"

lemma rep_stosb_put: "rep_stosb m p v n = put_bytes m p (replicate n v)"
  by (induction n arbitrary: m p) auto

lemma memset_apply: "memset m p v n a = (if a - p < n then v else m a)"
proof -
  have "unat n \<le> 2 ^ 64" using less_imp_le [OF unat_lt64 [of n]] by simp
  then show ?thesis
    by (simp add: memset_def rep_stosb_put put_bytes_apply word_less_nat_alt)
qed

lemma rep_movsb_put:
  assumes "ranges_disjoint d n s n"
  shows "rep_movsb m d s n = put_bytes m d (get_bytes m s n)"
  using assms
proof (induction n arbitrary: m d s)
  case 0
  then show ?case by simp
next
  case (Suc n)
  have "get_bytes (m(d := m s)) (s + 1) n = get_bytes m (s + 1) n"
  proof (rule get_bytes_cong)
    fix i assume "i < n"
    then have "d \<noteq> s + of_nat (Suc i)"
      using ranges_disjoint_first [OF Suc.prems, of "Suc i"] by simp
    then show "(m(d := m s)) (s + 1 + of_nat i) = m (s + 1 + of_nat i)"
      by (simp add: algebra_simps)
  qed
  then show ?case
    using Suc.IH [OF ranges_disjoint_Suc_right [OF ranges_disjoint_Suc_left [OF Suc.prems]], of "m(d := m s)"]
    by (simp del: fun_upd_apply)
qed

lemma memcpy_put:
  "ranges_disjoint d (unat n) s (unat n) \<Longrightarrow> memcpy m d s n = put_bytes m d (get_bytes m s (unat n))"
  by (simp add: memcpy_def rep_movsb_put)


section \<open>Little-endian words in memory\<close>

definition load64 :: "mem \<Rightarrow> u64 \<Rightarrow> u64" where
  "load64 m p = foldr (\<lambda>b w. push_bit 8 w OR ucast b) (get_bytes m p 8) 0"

definition u64_bytes :: "u64 \<Rightarrow> u8 list" where
  "u64_bytes v = map (\<lambda>i. ucast (drop_bit (8 * i) v)) [0..<8]"

definition store64 :: "mem \<Rightarrow> u64 \<Rightarrow> u64 \<Rightarrow> mem" where
  "store64 m p v = put_bytes m p (u64_bytes v)"

lemma upt_0_8: "[0..<8] = [0, 1, 2, 3, 4, 5, 6, 7 :: nat]"
  by (simp add: upt_rec)

lemma length_u64_bytes [simp]: "length (u64_bytes v) = 8"
  by (simp add: u64_bytes_def)

lemma foldr_bytes_bit:
  assumes "8 * length bs \<le> 64"
  shows "bit (foldr (\<lambda>b w. push_bit 8 w OR ucast b) bs (0 :: u64)) n \<longleftrightarrow>
    n < 8 * length bs \<and> bit (bs ! (n div 8) :: u8) (n mod 8)"
  using assms
proof (induction bs arbitrary: n)
  case Nil
  then show ?case by simp
next
  case (Cons b bs)
  show ?case
  proof (cases "n < 8")
    case True
    then show ?thesis using Cons.prems by (auto simp: bit_simps)
  next
    case False
    then obtain k where n: "n = 8 + k" by (metis add.commute le_Suc_ex not_less)
    have "\<not> bit b (8 + k)" using bit_imp_le_length [of b "8 + k"] by auto
    moreover have "(8 + k) div 8 = Suc (k div 8)" by simp
    ultimately show ?thesis
      using Cons.IH [of k] Cons.prems by (auto simp: bit_simps n simp del: div_add_self1)
  qed
qed

lemma u64_bytes_bit:
  "i < 8 \<Longrightarrow> j < 8 \<Longrightarrow> bit (u64_bytes v ! i) j \<longleftrightarrow> bit v (8 * i + j)"
  by (simp add: u64_bytes_def bit_simps add.commute)

lemma u64_bytes_load: "u64_bytes (load64 m p) = get_bytes m p 8"
proof (rule nth_equalityI)
  fix i assume "i < length (u64_bytes (load64 m p))"
  then have i: "i < 8" by simp
  show "u64_bytes (load64 m p) ! i = get_bytes m p 8 ! i"
  proof (rule bit_word_eqI)
    fix n assume "n < LENGTH(8)"
    then show "bit (u64_bytes (load64 m p) ! i) n = bit (get_bytes m p 8 ! i) n"
      using i foldr_bytes_bit [of "get_bytes m p 8" "8 * i + n"] u64_bytes_bit [of i n "load64 m p"]
      by (simp add: load64_def)
  qed
qed simp

lemma load64_store64 [simp]: "load64 (store64 m p v) p = v"
proof -
  have "get_bytes (store64 m p v) p 8 = u64_bytes v"
    using get_put_bytes [of "u64_bytes v" m p] by (simp add: store64_def)
  then have "bit (load64 (store64 m p v) p) n \<longleftrightarrow> bit v n" if "n < 64" for n
    using that foldr_bytes_bit [of "u64_bytes v" n] u64_bytes_bit [of "n div 8" "n mod 8" v]
    by (simp add: load64_def)
  then show ?thesis by (intro bit_word_eqI) simp
qed

lemma store64_load64: "store64 m d (load64 m' s) = put_bytes m d (get_bytes m' s 8)"
  by (simp add: store64_def u64_bytes_load)

lemma load64_cong:
  "(\<And>i. i < 8 \<Longrightarrow> m (p + of_nat i) = m' (p + of_nat i)) \<Longrightarrow> load64 m p = load64 m' p"
  using get_bytes_cong [of 8 m p m' p] by (simp add: load64_def)

lemma load64_store64_other:
  "ranges_disjoint p 8 q 8 \<Longrightarrow> load64 (store64 m p v) q = load64 m q"
  by (rule load64_cong) (simp add: store64_def put_bytes_outside)

end
