(* ===== verification/Pmm.thy ===== *)
theory Pmm
  imports Lock Memory
begin

text \<open>
  The physical page allocator, \<^verbatim>\<open>src/src/kernel/mm/pmm.c\<close>: a bitmap with one bit per
  4 KiB page, set for a used page. The state is the allocator's static variables;
  \<^verbatim>\<open>pmm_bitmap\<close> points into raw memory, so its bytes are a total function of the index
  and nothing bounds the index. \<^const>\<open>None\<close> is a call that never returns: spinning on
  \<^verbatim>\<open>pmm_lock\<close>, or the endless loop of \<^verbatim>\<open>pmalloc\<close> when it finds no page.
\<close>

section \<open>State and operations\<close>

record pmm_state =
  pmm_lock :: lock_t
  pmm_bitmap :: "u64 \<Rightarrow> u8"
  highest_page :: u64

definition ALIGN_UP :: "u64 \<Rightarrow> u64" where
  "ALIGN_UP number = (number + PAGE_SIZE - 1) AND NOT (PAGE_SIZE - 1)"

definition ALIGN_DOWN :: "u64 \<Rightarrow> u64" where
  "ALIGN_DOWN number = number AND NOT (PAGE_SIZE - 1)"

definition BIT_SET :: "u64 \<Rightarrow> pmm_state \<Rightarrow> pmm_state" where
  "BIT_SET b s = s\<lparr>pmm_bitmap := (pmm_bitmap s)
     (b div 8 := pmm_bitmap s (b div 8) OR push_bit (unat (b mod 8)) 1)\<rparr>"

definition BIT_CLEAR :: "u64 \<Rightarrow> pmm_state \<Rightarrow> pmm_state" where
  "BIT_CLEAR b s = s\<lparr>pmm_bitmap := (pmm_bitmap s)
     (b div 8 := pmm_bitmap s (b div 8) AND NOT (push_bit (unat (b mod 8)) 1))\<rparr>"

definition BIT_TEST :: "u64 \<Rightarrow> pmm_state \<Rightarrow> bool" where
  "BIT_TEST b s \<longleftrightarrow> drop_bit (unat (b mod 8)) (pmm_bitmap s (b div 8)) AND 1 \<noteq> 0"

definition lock_pmm :: "pmm_state \<Rightarrow> pmm_state option" where
  "lock_pmm s = map_option (\<lambda>(_, l). s\<lparr>pmm_lock := l\<rparr>) (LOCK (pmm_lock s))"

definition unlock_pmm :: "pmm_state \<Rightarrow> pmm_state" where
  "unlock_pmm s = s\<lparr>pmm_lock := UNLOCK (pmm_lock s)\<rparr>"

definition pmm_free_page :: "u64 \<Rightarrow> pmm_state \<Rightarrow> pmm_state option" where
  "pmm_free_page adr s = do {
     s \<leftarrow> lock_pmm s;
     let s = BIT_CLEAR (adr div PAGE_SIZE) s;
     Some (unlock_pmm s)
   }"

definition pmm_alloc_page :: "u64 \<Rightarrow> pmm_state \<Rightarrow> pmm_state option" where
  "pmm_alloc_page adr s = do {
     s \<leftarrow> lock_pmm s;
     let s = BIT_SET (adr div PAGE_SIZE) s;
     Some (unlock_pmm s)
   }"

definition pmm_free_pages :: "u64 \<Rightarrow> u64 \<Rightarrow> pmm_state \<Rightarrow> pmm_state option" where
  "pmm_free_pages adr page_count s =
     foldM (\<lambda>i. pmm_free_page (adr + of_nat i * PAGE_SIZE)) [0..<unat page_count] s"

definition pmm_alloc_pages :: "u64 \<Rightarrow> u64 \<Rightarrow> pmm_state \<Rightarrow> pmm_state option" where
  "pmm_alloc_pages adr page_count s =
     foldM (\<lambda>i. pmm_alloc_page (adr + of_nat i * PAGE_SIZE)) [0..<unat page_count] s"

text \<open>The inner loop of \<^verbatim>\<open>pmalloc\<close>: it tests bit \<open>i\<close> on every turn.\<close>

function pmalloc_fits :: "pmm_state \<Rightarrow> u64 \<Rightarrow> u64 \<Rightarrow> nat \<Rightarrow> bool" where
  "pmalloc_fits s i pages j =
     (if j < unat pages then
        if BIT_TEST i s then False
        else if of_nat j = pages - 1 then True
        else pmalloc_fits s i pages (Suc j)
      else False)"
  by pat_completeness auto
termination
  by (relation "measure (\<lambda>(s, i, pages, j). unat pages - j)") auto

declare pmalloc_fits.simps [simp del]

text \<open>The outer loop: the first index whose inner loop succeeds.\<close>

definition pmalloc_scan :: "pmm_state \<Rightarrow> u64 \<Rightarrow> nat option" where
  "pmalloc_scan s pages =
     find (\<lambda>i. pmalloc_fits s (of_nat i) pages 0) [0..<unat (highest_page s div PAGE_SIZE)]"

text \<open>
  \<^verbatim>\<open>pmalloc\<close> scans under the lock, releases it, and only then marks the pages.
\<close>

definition pmalloc_search :: "u64 \<Rightarrow> pmm_state \<Rightarrow> (u64 \<times> pmm_state) option" where
  "pmalloc_search pages s = do {
     s \<leftarrow> lock_pmm s;
     i \<leftarrow> pmalloc_scan s pages;
     Some (of_nat i * PAGE_SIZE, unlock_pmm s)
   }"

definition pmalloc :: "u64 \<Rightarrow> pmm_state \<Rightarrow> (u64 \<times> pmm_state) option" where
  "pmalloc pages s = do {
     (adr, s) \<leftarrow> pmalloc_search pages s;
     s \<leftarrow> pmm_alloc_pages adr pages s;
     Some (adr, s)
   }"

text \<open>\<^verbatim>\<open>pcalloc\<close> also clears the pages through the direct map.\<close>

definition pcalloc :: "u64 \<Rightarrow> pmm_state \<times> mem \<Rightarrow> (u64 \<times> pmm_state \<times> mem) option" where
  "pcalloc pages sm = do {
     (ret, s) \<leftarrow> pmalloc pages (fst sm);
     if ret = 0 then Some (0, s, snd sm)
     else Some (ret, s, memset (snd sm) (ret + PHYS_MEM_OFFSET) 0 (pages * PAGE_SIZE))
   }"

subsection \<open>Initialisation from the boot loader's memory map\<close>

record mmap_entry =
  mm_base :: u64
  mm_length :: u64
  mm_type :: u32

abbreviation MMAP_USABLE :: u32 where "MMAP_USABLE \<equiv> 1"
abbreviation MMAP_BOOTLOADER_RECLAIMABLE :: u32 where "MMAP_BOOTLOADER_RECLAIMABLE \<equiv> 0x1000"
abbreviation MMAP_KERNEL_AND_MODULES :: u32 where "MMAP_KERNEL_AND_MODULES \<equiv> 0x1001"

definition init_highest :: "mmap_entry list \<Rightarrow> u64 \<Rightarrow> u64" where
  "init_highest memmap hp = fold (\<lambda>e hp.
     if mm_type e \<noteq> MMAP_USABLE \<and> mm_type e \<noteq> MMAP_BOOTLOADER_RECLAIMABLE \<and>
        mm_type e \<noteq> MMAP_KERNEL_AND_MODULES then hp
     else let top = mm_base e + mm_length e in if top > hp then top else hp) memmap hp"

text \<open>
  The first usable entry that is long enough gives up its first bytes to the
  bitmap: the pointer, and the map with that entry shortened. With no such entry
  the pointer stays \<^verbatim>\<open>NULL\<close>.
\<close>

fun init_place :: "u64 \<Rightarrow> mmap_entry list \<Rightarrow> u64 \<times> mmap_entry list" where
  "init_place bitmap_size [] = (0, [])"
| "init_place bitmap_size (e # es) =
     (if mm_type e = MMAP_USABLE \<and> mm_length e \<ge> bitmap_size
      then (mm_base e + PHYS_MEM_OFFSET,
            e\<lparr>mm_base := mm_base e + bitmap_size, mm_length := mm_length e - bitmap_size\<rparr> # es)
      else (case init_place bitmap_size es of (p, es') \<Rightarrow> (p, e # es')))"

definition init_free_usable :: "mmap_entry list \<Rightarrow> pmm_state \<Rightarrow> pmm_state option" where
  "init_free_usable memmap s = foldM (\<lambda>e s.
     if mm_type e = MMAP_USABLE then pmm_free_pages (mm_base e) (mm_length e div PAGE_SIZE) s
     else Some s) memmap s"

definition bitmap_bytes :: "mmap_entry list \<Rightarrow> u64" where
  "bitmap_bytes memmap = ALIGN_UP (ALIGN_DOWN (init_highest memmap 0) div PAGE_SIZE div 8)"

text \<open>
  \<^verbatim>\<open>init_pmm\<close>, given the memory it runs in: the bytes behind the bitmap pointer are
  those of the memory, overwritten with \<^verbatim>\<open>0xff\<close> up to the bitmap's size.
\<close>

definition init_pmm :: "mem \<Rightarrow> mmap_entry list \<Rightarrow> (pmm_state \<times> mmap_entry list) option" where
  "init_pmm m memmap =
     (let bitmap_size = bitmap_bytes memmap;
          (ptr, memmap') = init_place bitmap_size memmap;
          m' = memset m ptr 0xff bitmap_size;
          s = \<lparr>pmm_lock = lock_init, pmm_bitmap = (\<lambda>i. m' (ptr + i)),
               highest_page = init_highest memmap 0\<rparr>
      in map_option (\<lambda>s. (s, memmap')) (init_free_usable memmap' s))"


section \<open>One bit per page\<close>

text \<open>The abstract state: the set of page numbers whose bit is set.\<close>

definition used :: "pmm_state \<Rightarrow> u64 set" where
  "used s = {p. BIT_TEST p s}"

lemma BIT_TEST_bit: "BIT_TEST b s \<longleftrightarrow> bit (pmm_bitmap s (b div 8)) (unat (b mod 8))"
proof -
  have "drop_bit n w AND 1 \<noteq> 0 \<longleftrightarrow> bit w n" for w :: u8 and n
    by (simp add: and_one_eq bit_iff_odd_drop_bit odd_iff_mod_2_eq_one)
  then show ?thesis by (simp add: BIT_TEST_def)
qed

lemma page_bit_eq_iff:
  fixes p q :: u64
  shows "p div 8 = q div 8 \<Longrightarrow> unat (p mod 8) = unat (q mod 8) \<longleftrightarrow> p = q"
  by (metis div_mult_mod_eq word_unat_eq_iff)

lemma unat_mod_8: "unat (p mod 8 :: u64) < 8"
  by (simp add: unat_mod)

lemma used_BIT_SET [simp]: "used (BIT_SET b s) = insert b (used s)"
proof -
  have "BIT_TEST p (BIT_SET b s) \<longleftrightarrow> p = b \<or> BIT_TEST p s" for p
    using page_bit_eq_iff [of p b] unat_mod_8 [of p]
    by (auto simp: BIT_TEST_bit BIT_SET_def bit_simps)
  then show ?thesis by (auto simp: used_def)
qed

lemma used_BIT_CLEAR [simp]: "used (BIT_CLEAR b s) = used s - {b}"
proof -
  have "BIT_TEST p (BIT_CLEAR b s) \<longleftrightarrow> p \<noteq> b \<and> BIT_TEST p s" for p
    using page_bit_eq_iff [of p b] unat_mod_8 [of p]
    by (auto simp: BIT_TEST_bit BIT_CLEAR_def bit_simps)
  then show ?thesis by (auto simp: used_def)
qed


lemma frame_simps [simp]:
  "pmm_lock (BIT_SET b s) = pmm_lock s" "highest_page (BIT_SET b s) = highest_page s"
  "pmm_lock (BIT_CLEAR b s) = pmm_lock s" "highest_page (BIT_CLEAR b s) = highest_page s"
  by (simp_all add: BIT_SET_def BIT_CLEAR_def)

lemma used_lock [simp]: "used (s\<lparr>pmm_lock := l\<rparr>) = used s"
  by (simp add: used_def BIT_TEST_def)

lemma BIT_TEST_lock [simp]: "BIT_TEST b (s\<lparr>pmm_lock := l\<rparr>) = BIT_TEST b s"
  by (simp add: BIT_TEST_def)

lemma BIT_SET_lock: "BIT_SET b (s\<lparr>pmm_lock := l\<rparr>) = (BIT_SET b s)\<lparr>pmm_lock := l\<rparr>"
  by (simp add: BIT_SET_def)

lemma BIT_CLEAR_lock: "BIT_CLEAR b (s\<lparr>pmm_lock := l\<rparr>) = (BIT_CLEAR b s)\<lparr>pmm_lock := l\<rparr>"
  by (simp add: BIT_CLEAR_def)

text \<open>With the lock free, the single-page operations change one bit and leave the lock free.\<close>

lemma lock_pmm_free [simp]:
  "lock_free (pmm_lock s) \<Longrightarrow> lock_pmm s = Some (s\<lparr>pmm_lock := lock_held (pmm_lock s)\<rparr>)"
  by (simp add: lock_pmm_def)

lemma pmm_state_lock_id [simp]: "s\<lparr>pmm_lock := pmm_lock s\<rparr> = s"
  by (cases s) simp

lemma pmm_alloc_page_eq [simp]:
  "lock_free (pmm_lock s) \<Longrightarrow> pmm_alloc_page adr s = Some (BIT_SET (adr div PAGE_SIZE) s)"
  using pmm_state_lock_id [of "BIT_SET (adr div PAGE_SIZE) s"]
  by (simp add: pmm_alloc_page_def unlock_pmm_def BIT_SET_lock Let_def)

lemma pmm_free_page_eq [simp]:
  "lock_free (pmm_lock s) \<Longrightarrow> pmm_free_page adr s = Some (BIT_CLEAR (adr div PAGE_SIZE) s)"
  using pmm_state_lock_id [of "BIT_CLEAR (adr div PAGE_SIZE) s"]
  by (simp add: pmm_free_page_def unlock_pmm_def BIT_CLEAR_lock Let_def)

text \<open>The pages of a block, as the loops compute them.\<close>

definition block_pages :: "u64 \<Rightarrow> u64 \<Rightarrow> u64 set" where
  "block_pages adr n = (\<lambda>i. (adr + of_nat i * PAGE_SIZE) div PAGE_SIZE) ` {0..<unat n}"

lemma pmm_alloc_pages_run:
  assumes "lock_free (pmm_lock s)"
  shows "\<exists>s'. pmm_alloc_pages adr n s = Some s' \<and> used s' = used s \<union> block_pages adr n \<and>
    pmm_lock s' = pmm_lock s \<and> highest_page s' = highest_page s"
proof -
  have "\<exists>s'. foldM (\<lambda>i. pmm_alloc_page (adr + of_nat i * PAGE_SIZE)) is s = Some s' \<and>
      used s' = used s \<union> (\<lambda>i. (adr + of_nat i * PAGE_SIZE) div PAGE_SIZE) ` set is \<and>
      pmm_lock s' = pmm_lock s \<and> highest_page s' = highest_page s" for "is"
    using assms
  proof (induction "is" arbitrary: s)
    case Nil
    then show ?case by simp
  next
    case (Cons i "is")
    from Cons.IH [of "BIT_SET ((adr + of_nat i * PAGE_SIZE) div PAGE_SIZE) s"] Cons.prems
    show ?case by auto
  qed
  from this [of "[0..<unat n]"] show ?thesis
    by (simp add: pmm_alloc_pages_def block_pages_def)
qed

lemma pmm_free_pages_run:
  assumes "lock_free (pmm_lock s)"
  shows "\<exists>s'. pmm_free_pages adr n s = Some s' \<and> used s' = used s - block_pages adr n \<and>
    pmm_lock s' = pmm_lock s \<and> highest_page s' = highest_page s"
proof -
  have "\<exists>s'. foldM (\<lambda>i. pmm_free_page (adr + of_nat i * PAGE_SIZE)) is s = Some s' \<and>
      used s' = used s - (\<lambda>i. (adr + of_nat i * PAGE_SIZE) div PAGE_SIZE) ` set is \<and>
      pmm_lock s' = pmm_lock s \<and> highest_page s' = highest_page s" for "is"
    using assms
  proof (induction "is" arbitrary: s)
    case Nil
    then show ?case by simp
  next
    case (Cons i "is")
    from Cons.IH [of "BIT_CLEAR ((adr + of_nat i * PAGE_SIZE) div PAGE_SIZE) s"] Cons.prems
    show ?case by auto
  qed
  from this [of "[0..<unat n]"] show ?thesis
    by (simp add: pmm_free_pages_def block_pages_def)
qed

lemma block_pages_1 [simp]: "block_pages adr 1 = {adr div PAGE_SIZE}"
  by (simp add: block_pages_def)

text \<open>A block inside the address space is the interval of pages from its first one.\<close>

lemma page_of_address:
  assumes "unat p + k < 2 ^ 52"
  shows "(p * PAGE_SIZE + of_nat k * PAGE_SIZE) div PAGE_SIZE = p + of_nat k"
proof -
  have k: "unat (of_nat k :: u64) = k" using assms by (intro unat_of_nat_id) simp
  have pk: "unat (p + of_nat k) = unat p + k" using assms k by (simp add: nat_word)
  then have "unat ((p + of_nat k) * PAGE_SIZE) = (unat p + k) * 4096"
    using assms by (subst unat_mult_small) simp_all
  then have "unat ((p + of_nat k) * PAGE_SIZE div PAGE_SIZE) = unat p + k"
    by (simp add: unat_div)
  with pk show ?thesis by (simp add: word_unat_eq_iff algebra_simps)
qed

lemma page_lt_2_52: "p < h div PAGE_SIZE \<Longrightarrow> unat p < 2 ^ 52"
proof -
  assume "p < h div PAGE_SIZE"
  then have "unat p < unat h div 4096" by (simp add: word_less_nat_alt unat_div)
  moreover have "unat h div 4096 < 2 ^ 52" by (simp add: less_mult_imp_div_less)
  ultimately show ?thesis by linarith
qed

lemma page_div [simp]: "p < h div PAGE_SIZE \<Longrightarrow> p * PAGE_SIZE div PAGE_SIZE = p"
  using page_of_address [of p 0] page_lt_2_52 [of p h] by simp


section \<open>The search of pmalloc\<close>

lemma pmalloc_fits_iff:
  assumes "j < unat pages"
  shows "pmalloc_fits s i pages j \<longleftrightarrow> \<not> BIT_TEST i s"
  using assms
proof (induction s i pages j rule: pmalloc_fits.induct)
  case (1 s i pages j)
  have "of_nat j = pages - 1 \<longleftrightarrow> j = unat pages - 1"
  proof -
    have "pages \<noteq> 0" using 1(2) by auto
    then have "unat (pages - 1) = unat pages - 1" by (simp add: unat_minus_one)
    moreover have "unat (of_nat j :: u64) = j"
      using 1(2) less_trans [OF _ unat_lt64] by (intro unat_of_nat_id) simp
    ultimately show ?thesis by (auto simp: word_unat_eq_iff)
  qed
  then show ?case
    using 1 by (subst pmalloc_fits.simps) auto
qed

lemma pmalloc_fits_0 [simp]: "\<not> pmalloc_fits s i 0 j"
  by (simp add: pmalloc_fits.simps)

text \<open>The lowest free page below \<^verbatim>\<open>highest_page\<close>.\<close>

definition first_free :: "pmm_state \<Rightarrow> u64 \<Rightarrow> bool" where
  "first_free s p \<longleftrightarrow> p < highest_page s div PAGE_SIZE \<and> p \<notin> used s \<and> (\<forall>q<p. q \<in> used s)"

lemma first_free_unique: "first_free s p \<Longrightarrow> first_free s q \<Longrightarrow> p = q"
  by (metis first_free_def linorder_neqE)

lemma find_upt_Some_iff:
  "find P [0..<n] = Some i \<longleftrightarrow> i < n \<and> P i \<and> (\<forall>j<i. \<not> P j)"
  by (auto simp: find_Some_iff)

lemma of_nat_less_word:
  fixes q h :: u64
  assumes "i < unat h"
  shows "q < of_nat i \<longleftrightarrow> (\<exists>j<i. q = of_nat j)"
proof -
  have i: "unat (of_nat i :: u64) = i" if "i < unat h" for i
    using less_trans [OF that unat_lt64] by (intro unat_of_nat_id) simp
  show ?thesis
  proof
    assume "q < of_nat i"
    then have "unat q < i" using i [OF assms] by (simp add: word_less_nat_alt)
    then show "\<exists>j<i. q = of_nat j" by (intro exI [of _ "unat q"]) simp
  next
    assume "\<exists>j<i. q = of_nat j"
    then show "q < of_nat i"
      using assms i by (auto simp: word_less_nat_alt)
  qed
qed

lemma pmalloc_scan_iff:
  assumes "pages \<noteq> 0"
  shows "pmalloc_scan s pages = Some i \<longleftrightarrow> i < unat (highest_page s div PAGE_SIZE) \<and> first_free s (of_nat i)"
proof -
  have pos: "0 < unat pages" using assms by (simp add: unat_gt_0)
  have "pmalloc_fits s k pages 0 \<longleftrightarrow> k \<notin> used s" for k
    using pmalloc_fits_iff [OF pos, of s k] by (simp add: used_def)
  then have "pmalloc_scan s pages = Some i \<longleftrightarrow>
      i < unat (highest_page s div PAGE_SIZE) \<and> of_nat i \<notin> used s \<and> (\<forall>j<i. of_nat j \<in> used s)"
    by (simp add: pmalloc_scan_def find_upt_Some_iff)
  also have "\<dots> \<longleftrightarrow> i < unat (highest_page s div PAGE_SIZE) \<and> first_free s (of_nat i)"
  proof -
    have "of_nat i < highest_page s div PAGE_SIZE" if "i < unat (highest_page s div PAGE_SIZE)"
      using that less_trans [OF that unat_lt64] by (simp add: word_less_nat_alt unat_of_nat_id)
    then show ?thesis
      using of_nat_less_word [of i "highest_page s div PAGE_SIZE"] by (auto simp: first_free_def)
  qed
  finally show ?thesis .
qed

lemma pmalloc_scan_lock [simp]: "pmalloc_scan (s\<lparr>pmm_lock := l\<rparr>) pages = pmalloc_scan s pages"
proof -
  have "pmalloc_fits (s\<lparr>pmm_lock := l\<rparr>) i pages j = pmalloc_fits s i pages j" for i j
    by (induction s i pages j rule: pmalloc_fits.induct)
       (subst (1 2) pmalloc_fits.simps, simp)
  then show ?thesis by (simp add: pmalloc_scan_def)
qed

lemma pmalloc_scan_page:
  assumes "pages \<noteq> 0" and "first_free s p"
  shows "pmalloc_scan s pages = Some (unat p)"
  using assms by (simp add: pmalloc_scan_iff) (simp add: first_free_def word_less_nat_alt)

lemma pmalloc_search_eq:
  assumes "lock_free (pmm_lock s)"
  shows "pmalloc_search pages s = map_option (\<lambda>i. (of_nat i * PAGE_SIZE, s)) (pmalloc_scan s pages)"
  using assms by (cases "pmalloc_scan s pages") (simp_all add: pmalloc_search_def unlock_pmm_def)

lemma pmalloc_search_iff:
  assumes "lock_free (pmm_lock s)" and "pages \<noteq> 0"
  shows "pmalloc_search pages s = Some (adr, s') \<longleftrightarrow>
    (\<exists>p. first_free s p \<and> adr = p * PAGE_SIZE \<and> s' = s)"
proof
  assume "pmalloc_search pages s = Some (adr, s')"
  then obtain i where "pmalloc_scan s pages = Some i" "adr = of_nat i * PAGE_SIZE" "s' = s"
    unfolding pmalloc_search_eq [OF assms(1)] by (auto simp only: map_option_eq_Some prod.inject)
  then show "\<exists>p. first_free s p \<and> adr = p * PAGE_SIZE \<and> s' = s"
    using pmalloc_scan_iff [OF assms(2)] by blast
next
  assume "\<exists>p. first_free s p \<and> adr = p * PAGE_SIZE \<and> s' = s"
  then show "pmalloc_search pages s = Some (adr, s')"
    unfolding pmalloc_search_eq [OF assms(1)] by (auto simp: pmalloc_scan_page [OF assms(2)])
qed

lemma pmalloc_zero: "pmalloc 0 s = None"
  by (auto simp: pmalloc_def pmalloc_search_def pmalloc_scan_def find_None_iff bind_eq_None_conv)

lemma first_free_exists:
  "(\<exists>p. first_free s p) \<longleftrightarrow> (\<exists>p<highest_page s div PAGE_SIZE. p \<notin> used s)"
proof
  assume "\<exists>p<highest_page s div PAGE_SIZE. p \<notin> used s"
  then obtain p where p: "p < highest_page s div PAGE_SIZE" "p \<notin> used s" by blast
  define n where "n = unat p"
  have n: "of_nat n < highest_page s div PAGE_SIZE" "of_nat n \<notin> used s" "n < 2 ^ 64"
    using p by (simp_all add: n_def)
  then obtain k where k: "of_nat k \<notin> used s" "\<And>j. j < k \<Longrightarrow> of_nat j \<in> used s" "k \<le> n"
    using exists_least_iff [of "\<lambda>k. of_nat k \<notin> used s"] by (metis not_le_imp_less)
  have u: "unat (of_nat k :: u64) = k" "unat (of_nat n :: u64) = n"
    using k(3) n(3) by (auto intro!: unat_of_nat_id)
  have "of_nat k < highest_page s div PAGE_SIZE"
    using u k(3) n(1) by (simp add: word_less_nat_alt)
  moreover have "q \<in> used s" if "q < of_nat k" for q :: u64
    using k(2) [of "unat q"] that u by (simp add: word_less_nat_alt)
  ultimately show "\<exists>p. first_free s p" using k(1) by (auto simp: first_free_def)
qed (auto simp: first_free_def)

lemma block_pages_interval:
  assumes "unat p + unat n \<le> 2 ^ 52"
  shows "block_pages (p * PAGE_SIZE) n = {q. unat p \<le> unat q \<and> unat q < unat p + unat n}"
proof (intro set_eqI iffI)
  fix q assume "q \<in> block_pages (p * PAGE_SIZE) n"
  then obtain k where k: "k < unat n" "q = (p * PAGE_SIZE + of_nat k * PAGE_SIZE) div PAGE_SIZE"
    by (auto simp: block_pages_def)
  then have "q = p + of_nat k" using page_of_address [of p k] assms by simp
  moreover have "unat (of_nat k :: u64) = k" using k(1) assms by (intro unat_of_nat_id) simp
  ultimately have "unat q = unat p + k" using k(1) assms by (simp add: nat_word)
  then show "q \<in> {q. unat p \<le> unat q \<and> unat q < unat p + unat n}" using k(1) by simp
next
  fix q :: u64 assume "q \<in> {q. unat p \<le> unat q \<and> unat q < unat p + unat n}"
  then have q: "unat p \<le> unat q" "unat q - unat p < unat n" by auto
  moreover have "(p * PAGE_SIZE + of_nat (unat q - unat p) * PAGE_SIZE) div PAGE_SIZE
      = p + of_nat (unat q - unat p)"
    using page_of_address [of p "unat q - unat p"] q assms by simp
  moreover have "p + of_nat (unat q - unat p) = q"
    using q(1) by (simp add: of_nat_diff)
  ultimately show "q \<in> block_pages (p * PAGE_SIZE) n"
    unfolding block_pages_def
    by (intro image_eqI [where x = "unat q - unat p"]) simp_all
qed

lemma pmalloc_run:
  assumes "lock_free (pmm_lock s)" and "pages \<noteq> 0" and "first_free s p"
  shows "\<exists>s'. pmalloc pages s = Some (p * PAGE_SIZE, s') \<and>
    used s' = used s \<union> block_pages (p * PAGE_SIZE) pages \<and>
    pmm_lock s' = pmm_lock s \<and> highest_page s' = highest_page s"
proof -
  have "pmalloc_search pages s = Some (p * PAGE_SIZE, s)"
    using assms by (auto simp: pmalloc_search_iff)
  with pmm_alloc_pages_run [OF assms(1), of "p * PAGE_SIZE" pages] show ?thesis
    by (auto simp: pmalloc_def)
qed

lemma pmalloc_none:
  assumes "lock_free (pmm_lock s)" and "\<nexists>p. first_free s p"
  shows "pmalloc pages s = None"
proof (cases "pages = 0")
  case False
  then have "pmalloc_search pages s = None"
    using assms pmalloc_search_iff [OF assms(1) False] by (auto intro: option.exhaust)
  then show ?thesis by (simp add: pmalloc_def)
qed (simp add: pmalloc_zero)

lemma pmalloc_result:
  assumes "pmalloc pages s = Some (adr, s')" and "lock_free (pmm_lock s)"
  obtains p where "first_free s p" "adr = p * PAGE_SIZE" "pages \<noteq> 0"
    "used s' = used s \<union> block_pages adr pages" "pmm_lock s' = pmm_lock s"
    "highest_page s' = highest_page s"
proof -
  have "pages \<noteq> 0" using assms(1) pmalloc_zero by auto
  moreover obtain p where "first_free s p"
    using assms pmalloc_none by fastforce
  ultimately show thesis
    using that pmalloc_run [OF assms(2), of pages p] assms(1) by fastforce
qed


section \<open>What a page allocator promises\<close>

text \<open>
  The contract the rest of the kernel relies on: an allocated page was not in
  use, exactly that page becomes used, and releasing a page removes exactly it.
  A client that keeps allocating is \<open>alloc_many\<close>.
\<close>

fun alloc_many :: "('s \<Rightarrow> (u64 \<times> 's) option) \<Rightarrow> nat \<Rightarrow> 's \<Rightarrow> (u64 list \<times> 's) option" where
  "alloc_many alloc 0 s = Some ([], s)"
| "alloc_many alloc (Suc n) s = (case alloc s of None \<Rightarrow> None
     | Some (a, s1) \<Rightarrow> (case alloc_many alloc n s1 of None \<Rightarrow> None
         | Some (as, s2) \<Rightarrow> Some (a # as, s2)))"

locale page_allocator =
  fixes alloc :: "'s \<Rightarrow> (u64 \<times> 's) option"
    and free :: "u64 \<Rightarrow> 's \<Rightarrow> 's option"
    and pages_used :: "'s \<Rightarrow> u64 set"
    and ready :: "'s \<Rightarrow> bool"
  assumes alloc_fresh: "ready s \<Longrightarrow> alloc s = Some (a, s') \<Longrightarrow>
      a div PAGE_SIZE \<notin> pages_used s \<and> a mod PAGE_SIZE = 0 \<and>
      pages_used s' = insert (a div PAGE_SIZE) (pages_used s) \<and> ready s'"
    and free_one: "ready s \<Longrightarrow>
      \<exists>s'. free a s = Some s' \<and> pages_used s' = pages_used s - {a div PAGE_SIZE} \<and> ready s'"
begin

lemma alloc_many_fresh:
  assumes "ready s" and "alloc_many alloc n s = Some (as, s')"
  shows "ready s' \<and> length as = n \<and> distinct as \<and>
    pages_used s \<inter> (\<lambda>a. a div PAGE_SIZE) ` set as = {} \<and>
    pages_used s' = pages_used s \<union> (\<lambda>a. a div PAGE_SIZE) ` set as"
  using assms
proof (induction n arbitrary: s as s')
  case 0
  then show ?case by simp
next
  case (Suc n)
  from Suc.prems(2) obtain a s1 bs where a: "alloc s = Some (a, s1)"
    and bs: "alloc_many alloc n s1 = Some (bs, s')" and as_eq: "as = a # bs"
    by (auto split: option.splits)
  note one = alloc_fresh [OF Suc.prems(1) a]
  with Suc.IH [OF _ bs] have rest: "ready s'" "length bs = n" "distinct bs"
    "pages_used s1 \<inter> (\<lambda>a. a div PAGE_SIZE) ` set bs = {}"
    "pages_used s' = pages_used s1 \<union> (\<lambda>a. a div PAGE_SIZE) ` set bs"
    by auto
  then show ?case using one as_eq by auto
qed

lemma alloc_then_free:
  assumes "ready s" and "alloc s = Some (a, s1)"
  shows "\<exists>s2. free a s1 = Some s2 \<and> pages_used s2 = pages_used s"
  using alloc_fresh [OF assms] free_one [of s1 a] by fastforce

end

lemma page_mod_0: "first_free s p \<Longrightarrow> p * PAGE_SIZE mod PAGE_SIZE = 0"
  using page_div [of p "highest_page s"] div_mult_mod_eq [of "p * PAGE_SIZE" PAGE_SIZE]
  by (auto simp: first_free_def)

interpretation pmm: page_allocator "pmalloc 1" pmm_free_page used "\<lambda>s. lock_free (pmm_lock s)"
proof
  fix s a s'
  assume s: "lock_free (pmm_lock s)" and "pmalloc 1 s = Some (a, s')"
  then obtain p where p: "first_free s p" "a = p * PAGE_SIZE"
    "used s' = used s \<union> block_pages a 1" "pmm_lock s' = pmm_lock s"
    using pmalloc_result by metis
  then show "a div PAGE_SIZE \<notin> used s \<and> a mod PAGE_SIZE = 0 \<and>
      used s' = insert (a div PAGE_SIZE) (used s) \<and> lock_free (pmm_lock s')"
    using s page_mod_0 [OF p(1)] by (auto simp: first_free_def)
next
  fix s :: pmm_state and a
  assume "lock_free (pmm_lock s)"
  then show "\<exists>s'. pmm_free_page a s = Some s' \<and> used s' = used s - {a div PAGE_SIZE} \<and>
      lock_free (pmm_lock s')"
    by simp
qed


section \<open>Initialisation\<close>

definition usable_block :: "mmap_entry \<Rightarrow> u64 set" where
  "usable_block e = (if mm_type e = MMAP_USABLE then block_pages (mm_base e) (mm_length e div PAGE_SIZE) else {})"

lemma init_free_usable_run:
  assumes "lock_free (pmm_lock s)"
  shows "\<exists>s'. init_free_usable es s = Some s' \<and> used s' = used s - (\<Union>e\<in>set es. usable_block e) \<and>
    pmm_lock s' = pmm_lock s \<and> highest_page s' = highest_page s"
  using assms
proof (induction es arbitrary: s)
  case Nil
  then show ?case by (simp add: init_free_usable_def)
next
  case (Cons e es)
  obtain s1 where s1: "(if mm_type e = MMAP_USABLE then pmm_free_pages (mm_base e) (mm_length e div PAGE_SIZE) s
       else Some s) = Some s1" "used s1 = used s - usable_block e"
      "pmm_lock s1 = pmm_lock s" "highest_page s1 = highest_page s"
    using pmm_free_pages_run [OF Cons.prems, of "mm_base e" "mm_length e div PAGE_SIZE"]
    unfolding usable_block_def by (cases "mm_type e = MMAP_USABLE") fastforce+
  with Cons.prems Cons.IH [of s1] show ?case
    by (auto simp: init_free_usable_def)
qed

lemma used_memset:
  assumes "pmm_bitmap s = (\<lambda>i. memset m ptr 0xff n (ptr + i))" and "p div 8 < n"
  shows "p \<in> used s"
proof -
  have "bit (0xff :: u8) k \<longleftrightarrow> k < 8" for k
    using bit_mask_iff [of 8 k, where ?'a = "8 word"] by (simp add: mask_eq_exp_minus_1)
  then have "bit (0xff :: u8) (unat (p mod 8))"
    using unat_mod_8 [of p] by blast
  then show ?thesis
    using assms by (simp add: used_def BIT_TEST_bit memset_apply)
qed

lemma init_pmm_run:
  "\<exists>s es. init_pmm m memmap = Some (s, es) \<and> es = snd (init_place (bitmap_bytes memmap) memmap) \<and>
     lock_free (pmm_lock s) \<and> highest_page s = init_highest memmap 0 \<and>
     (\<forall>p. p div 8 < bitmap_bytes memmap \<longrightarrow> p \<in> used s \<longleftrightarrow> p \<notin> (\<Union>e\<in>set es. usable_block e))"
proof -
  obtain ptr es where place: "init_place (bitmap_bytes memmap) memmap = (ptr, es)"
    by (cases "init_place (bitmap_bytes memmap) memmap") auto
  define s0 where "s0 = \<lparr>pmm_lock = lock_init,
    pmm_bitmap = (\<lambda>i. memset m ptr 0xff (bitmap_bytes memmap) (ptr + i)), highest_page = init_highest memmap 0\<rparr>"
  have free0: "lock_free (pmm_lock s0)" by (simp add: s0_def lock_init_def lock_free_def)
  have all: "p \<in> used s0" if "p div 8 < bitmap_bytes memmap" for p
    using used_memset [of s0 m ptr "bitmap_bytes memmap" p] that by (simp add: s0_def)
  from init_free_usable_run [OF free0, of es] obtain s where
    "init_free_usable es s0 = Some s" "used s = used s0 - (\<Union>e\<in>set es. usable_block e)"
    "pmm_lock s = pmm_lock s0" "highest_page s = highest_page s0" by blast
  then show ?thesis
    using place all free0 by (auto simp: init_pmm_def s0_def Let_def)
qed


section \<open>Properties\<close>

text \<open>
  C2: With the lock free and a non-zero count, \<^verbatim>\<open>pmalloc\<close> returns exactly when some page
  below \<^verbatim>\<open>highest_page\<close> is free (otherwise it halts). It returns the lowest such
  page, which was free, marks exactly the requested block as used and leaves the
  lock and the memory size alone.
\<close>

theorem pmalloc_first_fit:
  assumes "lock_free (pmm_lock s)" and "pages \<noteq> 0"
  shows "if \<exists>p<highest_page s div PAGE_SIZE. p \<notin> used s
    then \<exists>p s'. pmalloc pages s = Some (p * PAGE_SIZE, s') \<and>
      p < highest_page s div PAGE_SIZE \<and> p \<notin> used s \<and> (\<forall>q<p. q \<in> used s) \<and>
      used s' = used s \<union> block_pages (p * PAGE_SIZE) pages \<and>
      pmm_lock s' = pmm_lock s \<and> highest_page s' = highest_page s
    else pmalloc pages s = None"
proof (cases "\<exists>p. first_free s p")
  case True
  then obtain p where p: "first_free s p" by blast
  with pmalloc_run [OF assms p] True show ?thesis
    unfolding first_free_exists [symmetric] by (auto simp: first_free_def)
next
  case False
  with pmalloc_none [OF assms(1) False] show ?thesis
    unfolding first_free_exists [symmetric] by simp
qed

definition demo_pmm :: "u8 \<Rightarrow> pmm_state" where
  "demo_pmm b = \<lparr>pmm_lock = lock_init, pmm_bitmap = (\<lambda>i. if i = 0 then b else 0), highest_page = 0x8000\<rparr>"

lemma demo_pmm_simps [simp]:
  "lock_free (pmm_lock (demo_pmm b))" "highest_page (demo_pmm b) = 0x8000"
  "p \<in> used (demo_pmm b) \<longleftrightarrow> p div 8 = 0 \<and> bit b (unat (p mod 8))"
  by (auto simp: demo_pmm_def lock_free_def lock_init_def used_def BIT_TEST_bit)

theorem pmalloc_first_fit_witness:
  "\<exists>p s'. pmalloc 2 (demo_pmm 1) = Some (p * PAGE_SIZE, s') \<and> p \<notin> used (demo_pmm 1)"
  using pmalloc_first_fit [of "demo_pmm 1" 2]
  by (auto simp: exI [of _ 1] split: if_splits)

text \<open>
  C3: Any number of successive single-page allocations yields pairwise distinct,
  page-aligned addresses of pages that were all free before, and afterwards the
  used pages are the old ones and those handed out.
\<close>

theorem pmalloc_pages_distinct:
  assumes "lock_free (pmm_lock s)" and "alloc_many (pmalloc 1) n s = Some (as, s')"
  shows "length as = n \<and> distinct as \<and> used s \<inter> (\<lambda>a. a div PAGE_SIZE) ` set as = {} \<and>
    used s' = used s \<union> (\<lambda>a. a div PAGE_SIZE) ` set as"
  using pmm.alloc_many_fresh [OF assms] by blast

theorem pmalloc_pages_distinct_witness:
  "\<exists>as s'. alloc_many (pmalloc 1) 2 (demo_pmm 1) = Some (as, s') \<and> distinct as \<and> length as = 2"
proof -
  have "first_free (demo_pmm 1) 1" by (auto simp: first_free_def word_less_nat_alt unat_eq_zero)
  then obtain s1 where s1: "pmalloc 1 (demo_pmm 1) = Some (0x1000, s1)" "used s1 = used (demo_pmm 1) \<union> {1}"
    "lock_free (pmm_lock s1)" "highest_page s1 = 0x8000"
    using pmalloc_run [of "demo_pmm 1" 1 1] block_pages_1 [of "0x1000"] by auto
  have "\<exists>p<highest_page s1 div PAGE_SIZE. p \<notin> used s1"
    using s1 by (intro exI [of _ 2]) simp
  then obtain p where "first_free s1 p" using first_free_exists by blast
  then obtain s2 where "pmalloc 1 s1 = Some (p * PAGE_SIZE, s2)"
    using pmalloc_run [OF s1(3), of 1 p] by auto
  with s1(1) have run: "alloc_many (pmalloc 1) 2 (demo_pmm 1) = Some ([0x1000, p * PAGE_SIZE], s2)"
    by (simp add: numeral_2_eq_2)
  from pmalloc_pages_distinct [OF _ run] run show ?thesis by auto
qed

text \<open>
  C4: Releasing the page that \<^verbatim>\<open>pmalloc(1)\<close> returned gives back the set of used pages
  the allocation started from.
\<close>

theorem pmalloc_free_roundtrip:
  assumes "lock_free (pmm_lock s)" and "pmalloc 1 s = Some (a, s1)"
  shows "\<exists>s2. pmm_free_page a s1 = Some s2 \<and> used s2 = used s"
  using pmm.alloc_then_free [OF assms] .

theorem pmalloc_free_roundtrip_witness:
  "\<exists>a s1 s2. pmalloc 1 (demo_pmm 0) = Some (a, s1) \<and> pmm_free_page a s1 = Some s2 \<and> used s2 = used (demo_pmm 0)"
proof -
  have "first_free (demo_pmm 0) 0" by (simp add: first_free_def)
  then obtain s1 where "pmalloc 1 (demo_pmm 0) = Some (0, s1)"
    using pmalloc_run [of "demo_pmm 0" 1 0] by auto
  with pmalloc_free_roundtrip [of "demo_pmm 0" 0 s1] show ?thesis by auto
qed

text \<open>
  The search of \<^verbatim>\<open>pmalloc\<close> looks at the first page of a block only: when the page
  after the lowest free one is in use, a request for two pages hands that used page
  out again.
\<close>

theorem pmalloc_block_overlap:
  assumes "lock_free (pmm_lock s)" and "p + 1 < highest_page s div PAGE_SIZE"
    and "p + 1 \<noteq> 0" and "\<forall>q<p. q \<in> used s" and "p \<notin> used s" and "p + 1 \<in> used s"
  shows "\<exists>s'. pmalloc 2 s = Some (p * PAGE_SIZE, s') \<and>
    p + 1 \<in> block_pages (p * PAGE_SIZE) 2 \<inter> used s"
proof -
  have Suc: "unat (p + 1) = unat p + 1"
    using assms(3) by (metis Suc_eq_plus1 add.commute unatSuc)
  then have lt: "p < p + 1" by (simp add: word_less_nat_alt)
  then have "first_free s p" using assms by (auto simp: first_free_def)
  moreover have "p + 1 \<in> block_pages (p * PAGE_SIZE) 2"
  proof -
    have "unat (p + 1) < 2 ^ 52" using assms(2) by (rule page_lt_2_52)
    with Suc show ?thesis by (simp add: block_pages_interval)
  qed
  ultimately show ?thesis
    using pmalloc_run [OF assms(1), of 2 p] assms(6) by auto
qed

theorem pmalloc_block_overlap_witness:
  "\<exists>s'. pmalloc 2 (demo_pmm 2) = Some (0, s') \<and> 1 \<in> block_pages 0 2 \<inter> used (demo_pmm 2)"
  using pmalloc_block_overlap [of "demo_pmm 2" 0] by simp

text \<open>
  \<^verbatim>\<open>pmalloc\<close> gives up the lock between finding a page and marking it: two
  processors that both finish the search before either marks its result obtain
  the same address.
\<close>

theorem pmalloc_search_race:
  assumes "lock_free (pmm_lock s)" and "pages \<noteq> 0"
    and "pmalloc_search pages s = Some (a, s1)"
  shows "pmalloc_search pages s1 = Some (a, s1) \<and>
    (\<exists>s2. pmm_alloc_pages a pages s1 = Some s2 \<and> (\<exists>s3. pmm_alloc_pages a pages s2 = Some s3))"
proof -
  have s1: "s1 = s" using assms by (auto simp: pmalloc_search_iff)
  with assms pmm_alloc_pages_run [of s a pages] obtain s2 where
    s2: "pmm_alloc_pages a pages s1 = Some s2" "lock_free (pmm_lock s2)" by auto
  with pmm_alloc_pages_run [of s2 a pages] s1 assms(3) show ?thesis by auto
qed

theorem pmalloc_search_race_witness:
  "pmalloc_search 1 (demo_pmm 0) = Some (0, demo_pmm 0) \<and>
   (\<exists>s2 s3. pmm_alloc_pages 0 1 (demo_pmm 0) = Some s2 \<and> pmm_alloc_pages 0 1 s2 = Some s3)"
proof -
  have "pmalloc_search 1 (demo_pmm 0) = Some (0, demo_pmm 0)"
    by (subst pmalloc_search_iff) (auto simp: first_free_def intro!: exI [of _ 0])
  with pmalloc_search_race [of "demo_pmm 0" 1 0 "demo_pmm 0"] show ?thesis by auto
qed


definition demo_memmap :: "mmap_entry list" where
  "demo_memmap = [\<lparr>mm_base = 0, mm_length = 0x8001000, mm_type = MMAP_USABLE\<rparr>]"

lemma demo_memmap_simps [simp]:
  "init_highest demo_memmap 0 = 0x8001000" "bitmap_bytes demo_memmap = 0x1000"
  "init_place 0x1000 demo_memmap =
     (PHYS_MEM_OFFSET, [\<lparr>mm_base = 0x1000, mm_length = 0x8000000, mm_type = MMAP_USABLE\<rparr>])"
  by (simp_all add: demo_memmap_def init_highest_def bitmap_bytes_def ALIGN_UP_def ALIGN_DOWN_def)


text \<open>
  The size of the bitmap is rounded down to whole bytes before it is rounded up
  to pages: for a memory of 32769 pages the bitmap has 32768 bits, so the last page
  that \<^verbatim>\<open>pmalloc\<close> searches has no bit in it.
\<close>

theorem bitmap_misses_last_page:
  "\<exists>memmap p. p < init_highest memmap 0 div PAGE_SIZE \<and> \<not> p div 8 < bitmap_bytes memmap"
  by (intro exI [of _ demo_memmap] exI [of _ "0x8000"]) simp

end
