(* ===== verification/CString.thy ===== *)
theory CString
  imports Memory
begin

text \<open>
  NUL-terminated strings in memory: the routines of
  \<^verbatim>\<open>src/src/kernel/string/string.c\<close> and of \<^verbatim>\<open>src/src/libc/src/string.c\<close> (prefix \<open>libc_\<close>),
  each loop as written. A loop that only a byte of the memory stops is a partial
  function: \<^const>\<open>None\<close> is running on forever. \<^verbatim>\<open>cstr_at m p s\<close> says that the bytes
  \<open>s\<close> and a NUL stand at \<open>p\<close>; the theorems relate every routine to lists through it.
  \<^verbatim>\<open>strdup\<close> belongs to the heap.
\<close>

section \<open>Kernel routines\<close>

definition isdigit :: "u8 \<Rightarrow> bool" where
  "isdigit c \<longleftrightarrow> sint c \<ge> 48 \<and> sint c \<le> 57"

text \<open>The index is an \<^verbatim>\<open>int\<close>, sign-extended when it is added to a pointer.\<close>

partial_function (option) strcpy_loop :: "mem \<Rightarrow> u64 \<Rightarrow> u64 \<Rightarrow> u32 \<Rightarrow> mem option" where
  "strcpy_loop m dest source i =
     (let m' = m(dest + scast i := m (source + scast i)) in
      if m' (dest + scast i) \<noteq> 0 then strcpy_loop m' dest source (i + 1) else Some m')"

definition strcpy :: "mem \<Rightarrow> u64 \<Rightarrow> u64 \<Rightarrow> mem option" where
  "strcpy m dest source = strcpy_loop m dest source 0"

partial_function (option) str_end :: "mem \<Rightarrow> u64 \<Rightarrow> u64 option" where
  "str_end m dest = (if m dest \<noteq> 0 then str_end m (dest + 1) else Some dest)"

partial_function (option) copy_loop :: "mem \<Rightarrow> u64 \<Rightarrow> u64 \<Rightarrow> mem option" where
  "copy_loop m dest src =
     (let c = m src; m' = m(dest := c) in
      if c \<noteq> 0 then copy_loop m' (dest + 1) (src + 1) else Some m')"

definition strcat :: "mem \<Rightarrow> u64 \<Rightarrow> u64 \<Rightarrow> mem option" where
  "strcat m dest src = do { dest \<leftarrow> str_end m dest; copy_loop m dest src }"

partial_function (option) strlen_loop :: "mem \<Rightarrow> u64 \<Rightarrow> u64 \<Rightarrow> u64 option" where
  "strlen_loop m s count = (if m s \<noteq> 0 then strlen_loop m (s + 1) (count + 1) else Some count)"

definition strlen :: "mem \<Rightarrow> u64 \<Rightarrow> u64 option" where
  "strlen m s = strlen_loop m s 0"

definition strncmp :: "mem \<Rightarrow> u64 \<Rightarrow> u64 \<Rightarrow> u64 \<Rightarrow> int" where
  "strncmp m s1 s2 n =
     (if \<exists>i\<in>set [0..<unat n]. m (s1 + of_nat i) \<noteq> m (s2 + of_nat i) then 1 else 0)"

partial_function (option) strcmp :: "mem \<Rightarrow> u64 \<Rightarrow> u64 \<Rightarrow> int option" where
  "strcmp m s1 s2 =
     (if m s1 \<noteq> 0 \<and> m s1 = m s2 then strcmp m (s1 + 1) (s2 + 1)
      else Some (sint (m s1) - sint (m s2)))"

text \<open>\<^verbatim>\<open>memmove\<close> walks over \<^verbatim>\<open>l\<close> 64-bit words.\<close>

definition move_word :: "u64 \<Rightarrow> u64 \<Rightarrow> nat \<Rightarrow> mem \<Rightarrow> mem" where
  "move_word dest src i m = store64 m (dest + of_nat (8 * i)) (load64 m (src + of_nat (8 * i)))"

definition memmove :: "mem \<Rightarrow> u64 \<Rightarrow> u64 \<Rightarrow> u64 \<Rightarrow> mem" where
  "memmove m dest src l =
     (if src > dest then fold (move_word dest src) [0..<unat l] m
      else if src < dest then fold (move_word dest src) (rev [0..<unat l]) m
      else m)"

partial_function (option) strchr :: "mem \<Rightarrow> u64 \<Rightarrow> u8 \<Rightarrow> u64 option" where
  "strchr m s c =
     (if m s \<noteq> c then if m s = 0 then Some 0 else strchr m (s + 1) c else Some s)"

partial_function (option) strrchr_loop :: "mem \<Rightarrow> u64 \<Rightarrow> u8 \<Rightarrow> u64 \<Rightarrow> u64 option" where
  "strrchr_loop m s c found =
     (if m s \<noteq> 0 then strrchr_loop m (s + 1) c (if m s = c then s else found) else Some found)"

definition strrchr :: "mem \<Rightarrow> u64 \<Rightarrow> u8 \<Rightarrow> u64 option" where
  "strrchr m s c = strrchr_loop m s c 0"

fun memcmp_loop :: "mem \<Rightarrow> u64 \<Rightarrow> u64 \<Rightarrow> nat \<Rightarrow> int" where
  "memcmp_loop m s1 s2 0 = 0"
| "memcmp_loop m s1 s2 (Suc k) =
     (if m s1 \<noteq> m s2 then sint (m s1) - sint (m s2) else memcmp_loop m (s1 + 1) (s2 + 1) k)"

definition memcmp :: "mem \<Rightarrow> u64 \<Rightarrow> u64 \<Rightarrow> u64 \<Rightarrow> int" where
  "memcmp m s1 s2 n = memcmp_loop m s1 s2 (unat n)"


section \<open>Libc routines\<close>

partial_function (option) libc_strchr_loop :: "mem \<Rightarrow> u64 \<Rightarrow> int \<Rightarrow> u64 option" where
  "libc_strchr_loop m str c =
     (if m str \<noteq> 0 \<and> sint (m str) \<noteq> c then libc_strchr_loop m (str + 1) c else Some str)"

definition libc_strchr :: "mem \<Rightarrow> u64 \<Rightarrow> int \<Rightarrow> u64 option" where
  "libc_strchr m str c = do {
     str \<leftarrow> libc_strchr_loop m str c;
     Some (if m str \<noteq> 0 then str else if c \<noteq> 0 then 0 else str)
   }"

partial_function (option) libc_strlen_loop :: "mem \<Rightarrow> u64 \<Rightarrow> u64 \<Rightarrow> u64 option" where
  "libc_strlen_loop m s i = (if m (s + i) \<noteq> 0 then libc_strlen_loop m s (i + 1) else Some i)"

definition libc_strlen :: "mem \<Rightarrow> u64 \<Rightarrow> u64 option" where
  "libc_strlen m s = libc_strlen_loop m s 0"

definition libc_memcpy :: "mem \<Rightarrow> u64 \<Rightarrow> u64 \<Rightarrow> u64 \<Rightarrow> mem" where
  "libc_memcpy m dest src n =
     fold (\<lambda>i m. m(dest + of_nat i := m (src + of_nat i))) [0..<unat n] m"

fun libc_strncmp_loop :: "mem \<Rightarrow> u64 \<Rightarrow> u64 \<Rightarrow> nat \<Rightarrow> int" where
  "libc_strncmp_loop m l r 0 = int (unat (m l)) - int (unat (m r))"
| "libc_strncmp_loop m l r (Suc n) =
     (if m l \<noteq> 0 \<and> m r \<noteq> 0 \<and> m l = m r then libc_strncmp_loop m (l + 1) (r + 1) n
      else int (unat (m l)) - int (unat (m r)))"

definition libc_strncmp :: "mem \<Rightarrow> u64 \<Rightarrow> u64 \<Rightarrow> u64 \<Rightarrow> int" where
  "libc_strncmp m l r n = (if n = 0 then 0 else libc_strncmp_loop m l r (unat (n - 1)))"

definition libc_strcat :: "mem \<Rightarrow> u64 \<Rightarrow> u64 \<Rightarrow> mem option" where
  "libc_strcat m dest src = do { dest \<leftarrow> str_end m dest; copy_loop m dest src }"

fun libc_memset_loop :: "mem \<Rightarrow> u64 \<Rightarrow> u8 \<Rightarrow> nat \<Rightarrow> mem" where
  "libc_memset_loop m buf val 0 = m"
| "libc_memset_loop m buf val (Suc len) = libc_memset_loop (m(buf + of_nat len := val)) buf val len"

definition libc_memset :: "mem \<Rightarrow> u64 \<Rightarrow> u8 \<Rightarrow> u64 \<Rightarrow> u64 \<times> mem" where
  "libc_memset m buf val len = (buf, libc_memset_loop m buf val (unat len))"

definition libc_strcpy :: "mem \<Rightarrow> u64 \<Rightarrow> u64 \<Rightarrow> (u64 \<times> mem) option" where
  "libc_strcpy m dest src = map_option (\<lambda>m. (dest, m)) (copy_loop m dest src)"

text \<open>The count is only decremented when the source byte is not NUL.\<close>

fun libc_strncpy_loop :: "mem \<Rightarrow> u64 \<Rightarrow> u64 \<Rightarrow> nat \<Rightarrow> mem" where
  "libc_strncpy_loop m dest src 0 = m(dest := 0)"
| "libc_strncpy_loop m dest src (Suc n) =
     (if m src \<noteq> 0 then libc_strncpy_loop (m(dest := m src)) (dest + 1) (src + 1) n
      else m(dest := 0))"

definition libc_strncpy :: "mem \<Rightarrow> u64 \<Rightarrow> u64 \<Rightarrow> u64 \<Rightarrow> u64 \<times> mem" where
  "libc_strncpy m dest src n = (dest, libc_strncpy_loop m dest src (unat n))"

text \<open>The inner loops of \<^verbatim>\<open>strspn\<close> and \<^verbatim>\<open>strcspn\<close> differ in the comparison only.\<close>

partial_function (option) span_find :: "mem \<Rightarrow> (u8 \<Rightarrow> bool) \<Rightarrow> u64 \<Rightarrow> u64 option" where
  "span_find m go p = (if m p \<noteq> 0 \<and> go (m p) then span_find m go (p + 1) else Some p)"

partial_function (option) span_loop :: "mem \<Rightarrow> (u8 \<Rightarrow> u8 \<Rightarrow> bool) \<Rightarrow> u64 \<Rightarrow> u64 \<Rightarrow> u64 \<Rightarrow> u64 option" where
  "span_loop m go cs ct n =
     (if m cs \<noteq> 0 then do {
        p \<leftarrow> span_find m (\<lambda>c. go c (m cs)) ct;
        if m p = 0 then Some n else span_loop m go (cs + 1) ct (n + 1)
      } else Some n)"

definition libc_strspn :: "mem \<Rightarrow> u64 \<Rightarrow> u64 \<Rightarrow> u64 option" where
  "libc_strspn m cs ct = span_loop m (\<noteq>) cs ct 0"

definition libc_strcspn :: "mem \<Rightarrow> u64 \<Rightarrow> u64 \<Rightarrow> u64 option" where
  "libc_strcspn m cs ct = span_loop m (=) cs ct 0"

definition libc_strpbrk :: "mem \<Rightarrow> u64 \<Rightarrow> u64 \<Rightarrow> u64 option" where
  "libc_strpbrk m s b = do {
     k \<leftarrow> libc_strcspn m s b;
     Some (if m (s + k) \<noteq> 0 then s + k else 0)
   }"



section \<open>Strings in memory\<close>

fun cstr_at :: "mem \<Rightarrow> u64 \<Rightarrow> cstring \<Rightarrow> bool" where
  "cstr_at m p [] \<longleftrightarrow> m p = 0"
| "cstr_at m p (c # s) \<longleftrightarrow> m p = c \<and> c \<noteq> 0 \<and> cstr_at m (p + 1) s"

lemma cstr_at_iff:
  "cstr_at m p s \<longleftrightarrow> get_bytes m p (Suc (length s)) = s @ [0] \<and> 0 \<notin> set s"
  by (induction s arbitrary: p) auto

lemma cstr_at_byte:
  "cstr_at m p s \<Longrightarrow> i \<le> length s \<Longrightarrow> m (p + of_nat i) = (s @ [0]) ! i"
  by (metis cstr_at_iff le_imp_less_Suc nth_get_bytes)

lemma cstr_at_end: "cstr_at m p s \<Longrightarrow> m (p + of_nat (length s)) = 0"
  using cstr_at_byte [of m p s "length s"] by simp

lemma cstr_at_unique: "cstr_at m p s \<Longrightarrow> cstr_at m p t \<Longrightarrow> s = t"
proof (induction s arbitrary: p t)
  case Nil
  then show ?case by (cases t) auto
next
  case (Cons c s)
  then show ?case by (cases t) auto
qed

lemma cstr_at_cong:
  assumes "\<And>i. i \<le> length s \<Longrightarrow> m' (p + of_nat i) = m (p + of_nat i)"
  shows "cstr_at m' p s = cstr_at m p s"
  unfolding cstr_at_iff using get_bytes_cong [of "Suc (length s)" m' p m p] assms by auto

lemma cstr_at_put:
  assumes "0 \<notin> set s" and "length s < 2 ^ 64"
  shows "cstr_at (put_bytes m p (s @ [0])) p s"
  unfolding cstr_at_iff using assms get_put_bytes [of "s @ [0]" m p] by simp

lemma cstr_at_no_nul: "cstr_at m p s \<Longrightarrow> 0 \<notin> set s"
  by (simp add: cstr_at_iff)

text \<open>A write that stays clear of a string leaves it alone.\<close>

lemma cstr_at_upd_before:
  assumes "cstr_at m q s" and "ranges_disjoint d (Suc n) q (Suc (length s))"
  shows "cstr_at (m(d := b)) q s"
proof -
  have "d \<noteq> q + of_nat i" if "i \<le> length s" for i
    using ranges_disjoint_first [OF assms(2), of i] that by simp
  then have "(m(d := b)) (q + of_nat i) = m (q + of_nat i)" if "i \<le> length s" for i
    using that by fastforce
  from cstr_at_cong [where m' = "m(d := b)" and p = q and m = m, OF this] show ?thesis
    using assms(1) by blast
qed


section \<open>Correctness\<close>

lemma strlen_loop_cstr: "cstr_at m p s \<Longrightarrow> strlen_loop m p n = Some (n + of_nat (length s))"
proof (induction s arbitrary: p n)
  case Nil
  then show ?case by (subst strlen_loop.simps) simp
next
  case (Cons c s)
  then show ?case by (subst strlen_loop.simps) (simp add: algebra_simps)
qed

lemma strlen_cstr: "cstr_at m p s \<Longrightarrow> strlen m p = Some (of_nat (length s))"
  by (simp add: strlen_def strlen_loop_cstr)

lemma libc_strlen_cstr: "cstr_at m p s \<Longrightarrow> libc_strlen m p = Some (of_nat (length s))"
proof -
  have "cstr_at m (p + n) s \<Longrightarrow> libc_strlen_loop m p n = Some (n + of_nat (length s))" for n
  proof (induction s arbitrary: n)
    case Nil
    then show ?case by (subst libc_strlen_loop.simps) simp
  next
    case (Cons c s)
    then show ?case by (subst libc_strlen_loop.simps) (simp add: algebra_simps)
  qed
  from this [of 0] show "cstr_at m p s \<Longrightarrow> libc_strlen m p = Some (of_nat (length s))"
    by (simp add: libc_strlen_def)
qed

lemma str_end_cstr: "cstr_at m p s \<Longrightarrow> str_end m p = Some (p + of_nat (length s))"
proof (induction s arbitrary: p)
  case Nil
  then show ?case by (subst str_end.simps) simp
next
  case (Cons c s)
  then show ?case by (subst str_end.simps) (simp add: algebra_simps)
qed

lemma copy_loop_cstr:
  assumes "cstr_at m src s" and "ranges_disjoint d (Suc (length s)) src (Suc (length s))"
  shows "copy_loop m d src = Some (put_bytes m d (s @ [0]))"
  using assms
proof (induction s arbitrary: m d src)
  case Nil
  then show ?case by (subst copy_loop.simps) simp
next
  case (Cons c s)
  have dis: "ranges_disjoint (d + 1) (Suc (length s)) (src + 1) (Suc (length s))"
    using Cons.prems(2) by (simp add: ranges_disjoint_Suc_left ranges_disjoint_Suc_right)
  have "cstr_at (m(d := c)) (src + 1) s"
    using Cons.prems by (intro cstr_at_upd_before [where n = "Suc (length s)"])
      (simp_all add: ranges_disjoint_Suc_right)
  from Cons.IH [OF this dis] Cons.prems(1) show ?case
    by (subst copy_loop.simps) (simp del: fun_upd_apply)
qed

lemma strcat_cstr:
  assumes "cstr_at m d t" and "cstr_at m src s"
    and "ranges_disjoint (d + of_nat (length t)) (Suc (length s)) src (Suc (length s))"
  shows "strcat m d src = Some (put_bytes m (d + of_nat (length t)) (s @ [0]))"
  using assms by (simp add: strcat_def str_end_cstr copy_loop_cstr)

lemma scast_of_nat:
  assumes "i < 2 ^ 31"
  shows "(scast (of_nat i :: u32) :: u64) = of_nat i"
proof -
  have "sint (of_nat i :: u32) = int i"
    using assms by (simp add: signed_of_nat signed_take_bit_int_eq_self)
  then show ?thesis by (metis of_int_of_nat_eq scast_eq)
qed

lemma strcpy_cstr:
  assumes "cstr_at m src s" and "length s < 2 ^ 31"
    and "ranges_disjoint d (Suc (length s)) src (Suc (length s))"
  shows "strcpy m d src = Some (put_bytes m d (s @ [0]))"
proof -
  have "cstr_at m (src + of_nat i) s \<Longrightarrow> i + length s < 2 ^ 31 \<Longrightarrow>
      ranges_disjoint (d + of_nat i) (Suc (length s)) (src + of_nat i) (Suc (length s)) \<Longrightarrow>
      strcpy_loop m d src (of_nat i) = Some (put_bytes m (d + of_nat i) (s @ [0]))" for i
  proof (induction s arbitrary: m i)
    case Nil
    then show ?case by (subst strcpy_loop.simps) (simp add: scast_of_nat)
  next
    case (Cons c s)
    have dis: "ranges_disjoint (d + of_nat (Suc i)) (Suc (length s)) (src + of_nat (Suc i)) (Suc (length s))"
      using ranges_disjoint_Suc_left [OF ranges_disjoint_Suc_right [OF Cons.prems(3) [simplified]]]
      by (simp add: algebra_simps)
    have "cstr_at (m(d + of_nat i := c)) (src + of_nat (Suc i)) s"
      using Cons.prems ranges_disjoint_Suc_right [OF Cons.prems(3) [simplified]]
      by (intro cstr_at_upd_before [where n = "Suc (length s)"]) (simp_all add: algebra_simps)
    from Cons.IH [OF this _ dis] Cons.prems show ?case
      by (subst strcpy_loop.simps) (simp add: scast_of_nat algebra_simps Let_def fun_upd_same del: fun_upd_apply)
  qed
  from this [of 0] assms show ?thesis by (simp add: strcpy_def)
qed


lemma strcmp_cstr:
  assumes "cstr_at m p s" and "cstr_at m q t"
  shows "\<exists>r. strcmp m p q = Some r \<and> (r = 0 \<longleftrightarrow> s = t)"
  using assms
proof (induction s arbitrary: p q t)
  case Nil
  then show ?case
    using signed_word_eqI [of "m q" 0] by (subst strcmp.simps) (cases t, auto)
next
  case (Cons c s)
  show ?case
  proof (cases "m q = c")
    case True
    with Cons.prems obtain t' where t: "t = c # t'" "cstr_at m (q + 1) t'" by (cases t) auto
    from Cons.IH [OF _ t(2), of "p + 1"] Cons.prems obtain r where
      "strcmp m (p + 1) (q + 1) = Some r" "r = 0 \<longleftrightarrow> s = t'" by auto
    then show ?thesis using Cons.prems t True by (subst strcmp.simps) auto
  next
    case False
    moreover from this Cons.prems have "c # s \<noteq> t" by (cases t) auto
    ultimately show ?thesis
      using Cons.prems by (subst strcmp.simps) (auto dest: signed_word_eqI)
  qed
qed

lemma strncmp_eq_0_iff:
  "strncmp m p q n = 0 \<longleftrightarrow> get_bytes m p (unat n) = get_bytes m q (unat n)"
  by (auto simp: strncmp_def list_eq_iff_nth_eq)

lemma memcmp_eq_0_iff:
  "memcmp m p q n = 0 \<longleftrightarrow> get_bytes m p (unat n) = get_bytes m q (unat n)"
proof -
  have "memcmp_loop m p q k = 0 \<longleftrightarrow> get_bytes m p k = get_bytes m q k" for k
    by (induction k arbitrary: p q) (auto simp: signed_word_eqI)
  then show ?thesis by (simp add: memcmp_def)
qed

lemma strchr_cstr:
  assumes "cstr_at m p s" and "c \<noteq> 0"
  shows "strchr m p c = Some (case List.extract ((=) c) s of
    None \<Rightarrow> 0 | Some (before, _, _) \<Rightarrow> p + of_nat (length before))"
  using assms(1)
proof (induction s arbitrary: p)
  case Nil
  then show ?case using assms(2) by (subst strchr.simps) (auto simp: extract_Nil_code)
next
  case (Cons d s)
  then show ?case
    using assms(2) by (subst strchr.simps) (auto simp: extract_Cons_code split: option.splits)
qed


section \<open>The effect of memmove\<close>

text \<open>The first \<open>n\<close> bytes from \<open>d\<close> replaced by those from \<open>s\<close>, all read beforehand.\<close>

definition moved :: "mem \<Rightarrow> u64 \<Rightarrow> u64 \<Rightarrow> nat set \<Rightarrow> mem" where
  "moved m d s X = (\<lambda>a. if unat (a - d) \<in> X then m (s + (a - d)) else m a)"

lemma unat_offset:
  fixes d s :: u64
  assumes "unat d \<le> unat s" and "unat s + k < 2 ^ 64"
  shows "unat (s + of_nat k - d) = unat s - unat d + k"
proof -
  have "unat (s + of_nat k) = unat s + k"
    using assms(2) by (simp add: unat_add_small unat_of_nat_id)
  then show ?thesis using assms by (simp add: unat_sub_small)
qed

lemma unat_offset_back:
  fixes d s :: u64
  assumes "unat s < unat d" and "unat s + k < unat d"
  shows "2 ^ 64 - unat d \<le> unat (s + of_nat k - d)"
proof -
  have k: "unat (s + of_nat k) = unat s + k"
    using assms(2) less_trans [OF _ unat_lt64 [of d]] by (simp add: unat_add_small unat_of_nat_id)
  have "unat (s + of_nat k - d) = 2 ^ 64 + (unat s + k) - unat d"
    using assms k unat_lt64 [of d] by (simp add: unat_sub_if' word_less_nat_alt)
  then show ?thesis by simp
qed

lemma move_word_moved:
  assumes "\<And>j. j < 8 \<Longrightarrow> unat (s + of_nat (8 * i + j) - d) \<notin> X"
    and "unat d + 8 * Suc i \<le> 2 ^ 64"
  shows "move_word d s i (moved m d s X) = moved m d s (X \<union> {8 * i..<8 * Suc i})"
proof -
  have "get_bytes (moved m d s X) (s + of_nat (8 * i)) 8 = get_bytes m (s + of_nat (8 * i)) 8"
    using assms(1) by (intro get_bytes_cong) (simp add: moved_def add.assoc)
  then have "move_word d s i (moved m d s X) =
      put_bytes (moved m d s X) (d + of_nat (8 * i)) (get_bytes m (s + of_nat (8 * i)) 8)"
    by (simp add: move_word_def store64_load64)
  moreover have "put_bytes (moved m d s X) (d + of_nat (8 * i)) (get_bytes m (s + of_nat (8 * i)) 8) a =
      moved m d s (X \<union> {8 * i..<8 * Suc i}) a" for a
  proof -
    define k where "k = unat (a - d)"
    have a: "a - d = of_nat k" "k < 2 ^ 64" by (simp_all add: k_def)
    have i8: "unat (of_nat (8 * i) :: u64) = 8 * i" using assms(2) by (intro unat_of_nat_id) simp
    have eq: "a - (d + of_nat (8 * i)) = of_nat k - of_nat (8 * i)" using a(1) by (simp add: algebra_simps)
    show ?thesis
    proof (cases "8 * i \<le> k")
      case True
      then have diff: "a - (d + of_nat (8 * i)) = of_nat (k - 8 * i)"
        unfolding eq by (simp add: of_nat_diff)
      then have "unat (a - (d + of_nat (8 * i))) = k - 8 * i"
        using a(2) by (simp add: unat_of_nat_id)
      moreover have "s + of_nat (8 * i) + of_nat (k - 8 * i) = s + (a - d)"
        unfolding a(1) using True by (simp add: of_nat_diff)
      ultimately show ?thesis
        using True k_def by (auto simp: put_bytes_apply moved_def)
    next
      case False
      have "unat (of_nat k - of_nat (8 * i) :: u64) = 2 ^ 64 + k - 8 * i"
        using False i8 a(2) by (simp add: unat_sub_if' unat_of_nat_id word_le_nat_alt)
      then have "8 \<le> unat (a - (d + of_nat (8 * i)))"
        unfolding eq using False assms(2) by simp
      then show ?thesis
        using False k_def by (auto simp: put_bytes_apply moved_def)
    qed
  qed
  ultimately show ?thesis by (simp add: fun_eq_iff)
qed

lemma moved_empty [simp]: "moved m d s {} = m"
  by (simp add: moved_def)

lemma memmove_moved:
  assumes "unat d + 8 * unat l \<le> 2 ^ 64" and "unat s + 8 * unat l \<le> 2 ^ 64"
  shows "memmove m d s l = moved m d s {0..<8 * unat l}"
proof -
  consider "d < s" | "s < d" | "s = d" by force
  then show ?thesis
  proof cases
    case 1
    have "n \<le> unat l \<Longrightarrow> fold (move_word d s) [0..<n] m = moved m d s {0..<8 * n}" for n
    proof (induction n)
      case (Suc n)
      have "unat (s + of_nat (8 * n + j) - d) \<notin> {0..<8 * n}" if "j < 8" for j
        using unat_offset [of d s "8 * n + j"] 1 Suc.prems assms(2) that by (simp add: word_less_nat_alt)
      from move_word_moved [OF this, of m] Suc assms(1) show ?case
        by (auto simp: ivl_disj_un)
    qed simp
    with 1 show ?thesis by (simp add: memmove_def)
  next
    case 2
    have "n \<le> unat l \<Longrightarrow> fold (move_word d s) (rev [n..<unat l]) m = moved m d s {8 * n..<8 * unat l}" for n
    proof (induction "unat l - n" arbitrary: n)
      case (Suc k)
      then have n: "n < unat l" by simp
      have "unat (s + of_nat (8 * n + j) - d) \<notin> {8 * Suc n..<8 * unat l}" if "j < 8" for j
      proof (cases "unat s + (8 * n + j) < unat d")
        case True
        with unat_offset_back [OF _ True] 2 assms(1) show ?thesis by (auto simp: word_less_nat_alt)
      next
        case False
        then have "unat (s + of_nat (8 * n + j) - d) = unat s + (8 * n + j) - unat d"
          using n that assms(2) unat_add_of_nat [of s "8 * n + j"] by (subst unat_sub_small) auto
        with 2 that show ?thesis by (auto simp: word_less_nat_alt)
      qed
      moreover have "{8 * Suc n..<8 * unat l} \<union> {8 * n..<8 * Suc n} = {8 * n..<8 * unat l}"
        using n by auto
      ultimately show ?case
        using move_word_moved [of s n d "{8 * Suc n..<8 * unat l}" m] n assms(1) Suc.hyps
        by (simp add: upt_conv_Cons)
    qed simp
    from this [of 0] 2 show ?thesis by (simp add: memmove_def)
  next
    case 3
    then show ?thesis by (auto simp: memmove_def moved_def)
  qed
qed


section \<open>Properties\<close>

text \<open>
  C6: \<^verbatim>\<open>strcat\<close> on two strings, with room for the result that does not overlap the
  source, returns; the destination then holds the concatenation, the source is
  unchanged, and no byte outside the appended part and its NUL is written.
\<close>

theorem strcat_concatenates:
  assumes "cstr_at m d t" and "cstr_at m src s"
    and "ranges_disjoint d (Suc (length t + length s)) src (Suc (length s))"
    and "length t + length s < 2 ^ 64"
  shows "\<exists>m'. strcat m d src = Some m' \<and> cstr_at m' d (t @ s) \<and> cstr_at m' src s \<and>
    (\<forall>a. unat (a - (d + of_nat (length t))) > length s \<longrightarrow> m' a = m a)"
proof -
  let ?e = "d + of_nat (length t)"
  let ?m' = "put_bytes m ?e (s @ [0])"
  have dis: "ranges_disjoint ?e (Suc (length s)) src (Suc (length s))"
    unfolding ranges_disjoint_def
  proof (intro allI impI)
    fix i j assume "i < Suc (length s)" "j < Suc (length s)"
    with ranges_disjointD [OF assms(3), of "length t + i" j]
    show "?e + of_nat i \<noteq> src + of_nat j" by (simp add: algebra_simps)
  qed
  have "?m' (src + of_nat i) = m (src + of_nat i)" if "i \<le> length s" for i
    using put_bytes_outside [of ?e "s @ [0]" src "Suc (length s)" i m] dis that by simp
  then have src: "cstr_at ?m' src s"
    using assms(2) cstr_at_cong [of s ?m' src m] by blast
  have "put_bytes m d (t @ s @ [0]) = put_bytes (put_bytes m d t) ?e (s @ [0])"
    by (rule put_bytes_append)
  also have "put_bytes m d t = m"
  proof
    fix a
    show "put_bytes m d t a = m a"
      using assms(1,4) cstr_at_byte [of m d t "unat (a - d)"]
      by (auto simp: put_bytes_apply nth_append)
  qed
  finally have "?m' = put_bytes m d ((t @ s) @ [0])" by simp
  moreover have "0 \<notin> set (t @ s)"
    using assms(1,2) cstr_at_no_nul by auto
  ultimately have "cstr_at ?m' d (t @ s)"
    using cstr_at_put [of "t @ s" m d] assms(4) by simp
  moreover have "?m' a = m a" if "unat (a - ?e) > length s" for a
    using that assms(4) by (simp add: put_bytes_apply)
  ultimately show ?thesis
    using strcat_cstr [OF assms(1,2) dis] src by blast
qed

definition demo_strings :: mem where
  "demo_strings = put_bytes (put_bytes (\<lambda>_. 0) 0x1000 (cstr ''ab'')) 0x2000 (cstr ''cd'')"

lemma demo_strings_at [simp]:
  "cstr_at demo_strings 0x1000 (cstr ''ab'')" "cstr_at demo_strings 0x2000 (cstr ''cd'')"
  by (simp_all add: demo_strings_def)

theorem strcat_concatenates_witness:
  "\<exists>m'. strcat demo_strings 0x1000 0x2000 = Some m' \<and> cstr_at m' 0x1000 (cstr ''abcd'')"
proof -
  have "ranges_disjoint 0x1000 (Suc (Suc (Suc (Suc (Suc 0))))) 0x2000 (Suc (Suc (Suc 0)))"
    by (rule ranges_disjoint_below) simp_all
  then show ?thesis
    using strcat_concatenates [OF demo_strings_at] by auto
qed

text \<open>
  On two strings \<^verbatim>\<open>strcmp\<close> returns, and its result is zero exactly when the
  strings are equal.
\<close>

theorem strcmp_decides_equality:
  assumes "cstr_at m p s" and "cstr_at m q t"
  shows "\<exists>r. strcmp m p q = Some r \<and> (r = 0 \<longleftrightarrow> s = t)"
  using assms by (rule strcmp_cstr)

theorem strcmp_decides_equality_witness:
  "\<exists>r. strcmp demo_strings 0x1000 0x2000 = Some r \<and> r \<noteq> 0"
  using strcmp_decides_equality [OF demo_strings_at] by auto

text \<open>
  \<^verbatim>\<open>memmove(dest, src, l)\<close> moves \<open>8 * l\<close> bytes, not \<open>l\<close>: in either direction and for
  overlapping ranges, the result is that of reading \<open>8 * l\<close> bytes from the source first
  and writing them to the destination, and every other byte is unchanged.
\<close>

theorem memmove_moves_words:
  assumes "unat d + 8 * unat l \<le> 2 ^ 64" and "unat s + 8 * unat l \<le> 2 ^ 64"
  shows "memmove m d s l a = (if unat (a - d) < 8 * unat l then m (s + (a - d)) else m a)"
  using memmove_moved [OF assms] by (simp add: moved_def)

theorem memmove_moves_words_witness:
  "memmove demo_strings 0x3000 0x1000 1 0x3000 = 97 \<and> memmove demo_strings 0x3000 0xffa 1 0x3007 = 98"
  using memmove_moves_words [of "0x3000" 1 "0x1000" demo_strings "0x3000"]
    memmove_moves_words [of "0x3000" 1 "0xffa" demo_strings "0x3007"]
  by (simp add: demo_strings_def)

end
