(* ===== verification/Vec.thy ===== *)
theory Vec
  imports CString
begin

text \<open>
  The growable arrays of \<^verbatim>\<open>src/src/kernel/include/vec.h\<close>. A vector is its length, its
  capacity and the memory at its data pointer, seen as elements: \<^verbatim>\<open>vec_data v i\<close> is
  \<^verbatim>\<open>v->data[i]\<close>, also for an index outside the allocated block. \<^verbatim>\<open>krealloc\<close> is a parameter
  \<open>kr\<close>: from the elements, the old and the new capacity it gives the elements of the new
  block, or \<^const>\<open>None\<close> for \<^verbatim>\<open>NULL\<close>. The C \<^verbatim>\<open>int\<close>s are unbounded here; the
  functions behind the macros, with a trailing underscore in C, end in \<open>_fn\<close>. \<^verbatim>\<open>vec_insert_\<close> and the
  splicing routines call \<^verbatim>\<open>memmove\<close>, which moves eight times the bytes it is asked for.
\<close>

record 'a vec =
  vec_data :: "int \<Rightarrow> 'a"
  vec_length :: int
  vec_capacity :: int

type_synonym 'a krealloc = "(int \<Rightarrow> 'a) \<Rightarrow> int \<Rightarrow> int \<Rightarrow> (int \<Rightarrow> 'a) option"

section \<open>Operations\<close>

text \<open>\<^verbatim>\<open>memmove\<close> of \<open>n\<close> elements, as the kernel's \<^verbatim>\<open>memmove\<close> performs it.\<close>

definition vec_memmove :: "int \<Rightarrow> int \<Rightarrow> int \<Rightarrow> (int \<Rightarrow> 'a) \<Rightarrow> int \<Rightarrow> 'a" where
  "vec_memmove dest src n d = (\<lambda>i. if dest \<le> i \<and> i < dest + 8 * n then d (src + (i - dest)) else d i)"

definition vec_expand_fn :: "'a krealloc \<Rightarrow> 'a vec \<Rightarrow> int \<times> 'a vec" where
  "vec_expand_fn kr v =
     (if vec_length v + 1 > vec_capacity v then
        let n = (if vec_capacity v = 0 then 1 else vec_capacity v * 2) in
        case kr (vec_data v) (vec_capacity v) n of
          None \<Rightarrow> (-1, v)
        | Some ptr \<Rightarrow> (0, v\<lparr>vec_data := ptr, vec_capacity := n\<rparr>)
      else (0, v))"

definition vec_reserve_fn :: "'a krealloc \<Rightarrow> int \<Rightarrow> 'a vec \<Rightarrow> int \<times> 'a vec" where
  "vec_reserve_fn kr n v =
     (if n > vec_capacity v then
        case kr (vec_data v) (vec_capacity v) n of
          None \<Rightarrow> (-1, v)
        | Some ptr \<Rightarrow> (0, v\<lparr>vec_data := ptr, vec_capacity := n\<rparr>)
      else (0, v))"

function po2_loop :: "int \<Rightarrow> int \<Rightarrow> int" where
  "po2_loop n n2 = (if 0 < n2 \<and> n2 < n then po2_loop n (n2 * 2) else n2)"
  by pat_completeness auto
termination
  by (relation "measure (\<lambda>(n, n2). nat (n - n2))") auto

declare po2_loop.simps [simp del]

definition vec_reserve_po2_fn :: "'a krealloc \<Rightarrow> int \<Rightarrow> 'a vec \<Rightarrow> int \<times> 'a vec" where
  "vec_reserve_po2_fn kr n v = (if n = 0 then (0, v) else vec_reserve_fn kr (po2_loop n 1) v)"

text \<open>\<open>null\<close> stands for the elements behind a \<^verbatim>\<open>NULL\<close> data pointer.\<close>

definition vec_compact_fn :: "'a krealloc \<Rightarrow> (int \<Rightarrow> 'a) \<Rightarrow> 'a vec \<Rightarrow> int \<times> 'a vec" where
  "vec_compact_fn kr null v =
     (if vec_length v = 0 then (0, v\<lparr>vec_data := null, vec_capacity := 0\<rparr>)
      else case kr (vec_data v) (vec_capacity v) (vec_length v) of
          None \<Rightarrow> (-1, v)
        | Some ptr \<Rightarrow> (0, v\<lparr>vec_data := ptr, vec_capacity := vec_length v\<rparr>))"

definition vec_insert_fn :: "'a krealloc \<Rightarrow> int \<Rightarrow> 'a vec \<Rightarrow> int \<times> 'a vec" where
  "vec_insert_fn kr idx v =
     (case vec_expand_fn kr v of (err, v) \<Rightarrow>
        if err \<noteq> 0 then (err, v)
        else (0, v\<lparr>vec_data := vec_memmove (idx + 1) idx (vec_length v - idx) (vec_data v)\<rparr>))"

definition vec_splice_fn :: "int \<Rightarrow> int \<Rightarrow> 'a vec \<Rightarrow> 'a vec" where
  "vec_splice_fn start count v =
     v\<lparr>vec_data := vec_memmove start (start + count) (vec_length v - start - count) (vec_data v)\<rparr>"

definition vec_swapsplice_fn :: "int \<Rightarrow> int \<Rightarrow> 'a vec \<Rightarrow> 'a vec" where
  "vec_swapsplice_fn start count v =
     v\<lparr>vec_data := vec_memmove start (vec_length v - count) count (vec_data v)\<rparr>"

definition vec_swap_fn :: "int \<Rightarrow> int \<Rightarrow> 'a vec \<Rightarrow> 'a vec" where
  "vec_swap_fn idx1 idx2 v =
     (if idx1 = idx2 then v
      else v\<lparr>vec_data := (vec_data v)(idx1 := vec_data v idx2, idx2 := vec_data v idx1)\<rparr>)"

definition vec_init :: "(int \<Rightarrow> 'a) \<Rightarrow> 'a vec" where
  "vec_init null = \<lparr>vec_data = null, vec_length = 0, vec_capacity = 0\<rparr>"

definition vec_deinit :: "(int \<Rightarrow> 'a) \<Rightarrow> 'a vec \<Rightarrow> 'a vec" where
  "vec_deinit null v = vec_init null"

definition vec_push :: "'a krealloc \<Rightarrow> 'a \<Rightarrow> 'a vec \<Rightarrow> int \<times> 'a vec" where
  "vec_push kr val v =
     (case vec_expand_fn kr v of (err, v) \<Rightarrow>
        if err \<noteq> 0 then (-1, v)
        else (0, v\<lparr>vec_data := (vec_data v)(vec_length v := val), vec_length := vec_length v + 1\<rparr>))"

definition vec_pop :: "'a vec \<Rightarrow> 'a \<times> 'a vec" where
  "vec_pop v = (vec_data v (vec_length v - 1), v\<lparr>vec_length := vec_length v - 1\<rparr>)"

definition vec_splice :: "int \<Rightarrow> int \<Rightarrow> 'a vec \<Rightarrow> 'a vec" where
  "vec_splice start count v =
     (let v = vec_splice_fn start count v in v\<lparr>vec_length := vec_length v - count\<rparr>)"

definition vec_swapsplice :: "int \<Rightarrow> int \<Rightarrow> 'a vec \<Rightarrow> 'a vec" where
  "vec_swapsplice start count v =
     (let v = vec_swapsplice_fn start count v in v\<lparr>vec_length := vec_length v - count\<rparr>)"

text \<open>The comma operator of the macro increments the length also when the insertion failed.\<close>

definition vec_insert :: "'a krealloc \<Rightarrow> int \<Rightarrow> 'a \<Rightarrow> 'a vec \<Rightarrow> int \<times> 'a vec" where
  "vec_insert kr idx val v =
     (case vec_insert_fn kr idx v of (err, v) \<Rightarrow>
        let v = (if err \<noteq> 0 then v else v\<lparr>vec_data := (vec_data v)(idx := val)\<rparr>)
        in (0, v\<lparr>vec_length := vec_length v + 1\<rparr>))"

definition vec_swap :: "int \<Rightarrow> int \<Rightarrow> 'a vec \<Rightarrow> 'a vec" where
  "vec_swap idx1 idx2 v = vec_swap_fn idx1 idx2 v"

definition vec_truncate :: "int \<Rightarrow> 'a vec \<Rightarrow> 'a vec" where
  "vec_truncate len v = v\<lparr>vec_length := (if len < vec_length v then len else vec_length v)\<rparr>"

definition vec_clear :: "'a vec \<Rightarrow> 'a vec" where
  "vec_clear v = v\<lparr>vec_length := 0\<rparr>"

definition vec_first :: "'a vec \<Rightarrow> 'a" where
  "vec_first v = vec_data v 0"

definition vec_last :: "'a vec \<Rightarrow> 'a" where
  "vec_last v = vec_data v (vec_length v - 1)"

definition vec_pusharr :: "'a krealloc \<Rightarrow> (int \<Rightarrow> 'a) \<Rightarrow> int \<Rightarrow> 'a vec \<Rightarrow> 'a vec" where
  "vec_pusharr kr arr n v =
     (case vec_reserve_po2_fn kr (vec_length v + n) v of (err, v) \<Rightarrow>
        if err \<noteq> 0 then v
        else fold (\<lambda>i v. v\<lparr>vec_data := (vec_data v)(vec_length v := arr i),
                           vec_length := vec_length v + 1\<rparr>) [0..n - 1] v)"

definition vec_extend :: "'a krealloc \<Rightarrow> 'a vec \<Rightarrow> 'a vec \<Rightarrow> 'a vec" where
  "vec_extend kr v2 v = vec_pusharr kr (vec_data v2) (vec_length v2) v"

definition vec_find :: "'a \<Rightarrow> 'a vec \<Rightarrow> int" where
  "vec_find val v =
     (case find (\<lambda>i. vec_data v i = val) [0..vec_length v - 1] of None \<Rightarrow> -1 | Some i \<Rightarrow> i)"

definition vec_remove :: "'a \<Rightarrow> 'a vec \<Rightarrow> 'a vec" where
  "vec_remove val v =
     (let idx = vec_find val v in if idx \<noteq> -1 then vec_splice idx 1 v else v)"

definition vec_reverse :: "'a vec \<Rightarrow> 'a vec" where
  "vec_reverse v =
     fold (\<lambda>i v. vec_swap i (vec_length v - (i + 1)) v) (rev [0..vec_length v div 2 - 1]) v"


section \<open>Vectors as lists\<close>

definition vec_list :: "'a vec \<Rightarrow> 'a list" where
  "vec_list v = map (\<lambda>i. vec_data v (int i)) [0..<nat (vec_length v)]"

definition vec_ok :: "'a vec \<Rightarrow> bool" where
  "vec_ok v \<longleftrightarrow> 0 \<le> vec_length v \<and> vec_length v \<le> vec_capacity v"

text \<open>What \<^verbatim>\<open>krealloc\<close> promises: the elements that fit both blocks are kept.\<close>

definition realloc_keeps :: "'a krealloc \<Rightarrow> bool" where
  "realloc_keeps kr \<longleftrightarrow> (\<forall>d c n d'. kr d c n = Some d' \<longrightarrow> (\<forall>i. 0 \<le> i \<and> i < c \<and> i < n \<longrightarrow> d' i = d i))"

lemma length_vec_list [simp]: "length (vec_list v) = nat (vec_length v)"
  by (simp add: vec_list_def)

lemma nth_vec_list [simp]: "i < nat (vec_length v) \<Longrightarrow> vec_list v ! i = vec_data v (int i)"
  by (simp add: vec_list_def)

lemma vec_list_eqI:
  assumes "nat (vec_length v) = length xs" and "\<And>i. i < length xs \<Longrightarrow> vec_data v (int i) = xs ! i"
  shows "vec_list v = xs"
  using assms by (intro nth_equalityI) auto

lemma realloc_keepsD:
  "realloc_keeps kr \<Longrightarrow> kr d c n = Some d' \<Longrightarrow> 0 \<le> i \<Longrightarrow> i < c \<Longrightarrow> i < n \<Longrightarrow> d' i = d i"
  unfolding realloc_keeps_def by blast

lemma vec_expand_keeps:
  assumes "realloc_keeps kr" and "vec_ok v" and "vec_expand_fn kr v = (e, v')"
  shows "vec_list v' = vec_list v \<and> vec_length v' = vec_length v \<and> vec_ok v' \<and>
    (e = 0 \<longrightarrow> vec_length v' < vec_capacity v')"
proof (cases "vec_length v + 1 > vec_capacity v")
  case True
  let ?n = "if vec_capacity v = 0 then 1 else vec_capacity v * 2"
  show ?thesis
  proof (cases "kr (vec_data v) (vec_capacity v) ?n")
    case None
    with True assms show ?thesis by (auto simp: vec_expand_fn_def Let_def)
  next
    case (Some d)
    with True assms(3) have v': "v' = v\<lparr>vec_data := d, vec_capacity := ?n\<rparr>"
      by (auto simp: vec_expand_fn_def Let_def)
    have "d i = vec_data v i" if "0 \<le> i" "i < vec_length v" for i
      using realloc_keepsD [OF assms(1) Some, of i] that assms(2) by (auto simp: vec_ok_def)
    then show ?thesis
      using v' True assms(2) by (auto simp: vec_ok_def intro!: vec_list_eqI)
  qed
next
  case False
  with assms show ?thesis by (auto simp: vec_expand_fn_def vec_ok_def)
qed

lemma vec_push_list:
  assumes "realloc_keeps kr" and "vec_ok v"
  shows "case vec_push kr x v of (e, v') \<Rightarrow>
    vec_ok v' \<and> (if e = 0 then vec_list v' = vec_list v @ [x] else e = -1 \<and> vec_list v' = vec_list v)"
proof -
  obtain e v1 where ex: "vec_expand_fn kr v = (e, v1)" by force
  note keep = vec_expand_keeps [OF assms ex]
  show ?thesis
  proof (cases "e = 0")
    case True
    let ?v' = "v1\<lparr>vec_data := (vec_data v1)(vec_length v1 := x), vec_length := vec_length v1 + 1\<rparr>"
    have "0 \<le> vec_length v1" using keep by (simp add: vec_ok_def)
    then have "vec_list ?v' = vec_list v1 @ [x]"
      by (intro vec_list_eqI) (auto simp: nth_append)
    then show ?thesis
      using True ex keep by (auto simp: vec_push_def vec_ok_def)
  next
    case False
    with ex keep show ?thesis by (auto simp: vec_push_def)
  qed
qed

text \<open>Splicing moves more than it should, but inside the new length it moves the right elements.\<close>

lemma vec_splice_list:
  assumes "vec_ok v" and "0 \<le> start" and "0 \<le> count" and "start + count \<le> vec_length v"
  shows "vec_list (vec_splice start count v) =
      take (nat start) (vec_list v) @ drop (nat (start + count)) (vec_list v)"
    and "vec_ok (vec_splice start count v)"
proof -
  show "vec_list (vec_splice start count v) =
      take (nat start) (vec_list v) @ drop (nat (start + count)) (vec_list v)"
    using assms
    by (intro vec_list_eqI)
       (auto simp: vec_splice_def vec_splice_fn_def vec_memmove_def nth_append Let_def nat_diff_distrib
             nat_add_distrib algebra_simps)
  show "vec_ok (vec_splice start count v)"
    using assms by (auto simp: vec_ok_def vec_splice_def vec_splice_fn_def Let_def)
qed

lemma upto_int: "[0..n - 1] = map int [0..<nat n]"
  by (rule nth_equalityI) auto

lemma vec_find_list:
  "vec_find x v = (case find (\<lambda>i. vec_list v ! i = x) [0..<nat (vec_length v)] of None \<Rightarrow> -1 | Some i \<Rightarrow> int i)"
proof -
  have "find P (map int is) = map_option int (find (\<lambda>i. P (int i)) is)" for P "is"
    by (induction "is") auto
  then have "vec_find x v =
      (case find (\<lambda>i. vec_data v (int i) = x) [0..<nat (vec_length v)] of None \<Rightarrow> -1 | Some i \<Rightarrow> int i)"
    by (simp add: vec_find_def upto_int split: option.splits)
  also have "find (\<lambda>i. vec_data v (int i) = x) [0..<nat (vec_length v)] =
      find (\<lambda>i. vec_list v ! i = x) [0..<nat (vec_length v)]"
    by (rule find_cong) auto
  finally show ?thesis .
qed

lemma remove1_split:
  "i < length xs \<Longrightarrow> xs ! i = x \<Longrightarrow> (\<forall>j<i. xs ! j \<noteq> x) \<Longrightarrow> remove1 x xs = take i xs @ drop (Suc i) xs"
proof (induction xs arbitrary: i)
  case (Cons y xs)
  then show ?case by (cases i) fastforce+
qed simp

lemma vec_remove_list:
  assumes "vec_ok v"
  shows "vec_list (vec_remove x v) = remove1 x (vec_list v) \<and> vec_ok (vec_remove x v)"
proof (cases "find (\<lambda>i. vec_list v ! i = x) [0..<nat (vec_length v)]")
  case None
  then have "x \<notin> set (vec_list v)" by (auto simp: find_None_iff in_set_conv_nth)
  with None assms show ?thesis by (simp add: vec_remove_def vec_find_list remove1_idem)
next
  case (Some i)
  then have i: "i < nat (vec_length v)" "vec_list v ! i = x" "\<forall>j<i. vec_list v ! j \<noteq> x"
    by (auto simp: find_Some_iff)
  then have "remove1 x (vec_list v) = take i (vec_list v) @ drop (Suc i) (vec_list v)"
    by (intro remove1_split) auto
  moreover have "nat (int i + 1) = Suc i" by simp
  ultimately show ?thesis
    using Some i vec_splice_list [of v "int i" 1] assms
    by (simp add: vec_remove_def vec_find_list)
qed


section \<open>Properties\<close>


definition demo_realloc :: "nat krealloc" where
  "demo_realloc d c n = (if n \<le> 4 then Some (\<lambda>i. if i < c then d i else 0) else None)"

definition demo_vec :: "nat vec" where
  "demo_vec = \<lparr>vec_data = nat, vec_length = 2, vec_capacity = 2\<rparr>"

lemma demo_vec_simps [simp]: "realloc_keeps demo_realloc" "vec_ok demo_vec" "vec_list demo_vec = [0, 1]"
  by (auto simp: realloc_keeps_def demo_realloc_def vec_ok_def demo_vec_def vec_list_def upt_rec
      split: if_splits)


text \<open>
  \<^verbatim>\<open>vec_remove\<close> takes out the first occurrence of a value and keeps the order of
  the other elements.
\<close>

theorem vec_remove_first:
  assumes "vec_ok v"
  shows "vec_list (vec_remove x v) = remove1 x (vec_list v) \<and> vec_ok (vec_remove x v)"
  using assms by (rule vec_remove_list)

theorem vec_remove_first_witness: "vec_list (vec_remove 0 demo_vec) = [1]"
  using vec_remove_first [of demo_vec 0] by simp

text \<open>
  Removing an element from a full vector writes behind its block: the memory
  element after the last one of the capacity is overwritten with the one that
  follows it, although it belongs to another heap block.
\<close>

theorem vec_splice_overruns:
  assumes "vec_length v = vec_capacity v" and "0 \<le> start" and "start + 1 < vec_length v"
  shows "vec_data (vec_splice start 1 v) (vec_capacity v) = vec_data v (vec_capacity v + 1)"
  using assms by (simp add: vec_splice_def vec_splice_fn_def vec_memmove_def Let_def algebra_simps)

theorem vec_splice_overruns_witness: "vec_data (vec_splice 0 1 demo_vec) 2 = 3"
  using vec_splice_overruns [of demo_vec 0] by (simp add: demo_vec_def)

end
