(* ===== verification/Rtc.thy ===== *)
theory Rtc
  imports Prelude "HOL-Library.Signed_Division"
begin

text \<open>
  The real-time clock, \<^verbatim>\<open>src/src/kernel/drivers/rtc.c\<close>: decoding of the CMOS registers
  and the conversion of a date to seconds since 1970. The CMOS is a parameter, the
  value of each register at the time of the call; while its update flag is set the
  reading loop does not end (\<^const>\<open>None\<close>). C's \<^verbatim>\<open>int\<close> arithmetic on the promoted operands
  does not overflow for any argument, so it is done in \<^typ>\<open>int\<close>, with the division that
  truncates towards zero.
\<close>

section \<open>Definitions\<close>

record datetime_t =
  seconds :: u8
  minutes :: u8
  hours :: u8
  day :: u8
  month :: u8
  year :: u16
  day_of_week :: u8
  day_of_year :: u8
  is_daylight_savings :: int

record posix_time_t =
  pt_seconds :: u64
  pt_nanoseconds :: u64

type_synonym cmos = "u8 \<Rightarrow> u8"

definition rtc_get_register_raw :: "cmos \<Rightarrow> u8 \<Rightarrow> u8" where
  "rtc_get_register_raw cmos reg_num = cmos reg_num"

definition rtc_is_updating :: "cmos \<Rightarrow> bool" where
  "rtc_is_updating cmos \<longleftrightarrow> cmos 0x0A AND 0x80 \<noteq> 0"

definition rtc_get_register :: "cmos \<Rightarrow> u8 \<Rightarrow> u8" where
  "rtc_get_register cmos reg_num =
     (let val = rtc_get_register_raw cmos reg_num in
      if rtc_get_register_raw cmos 0xb AND 4 = 0 then (val AND 0xf) + (val div 16) * 10
      else val)"

definition rtc_get_datetime :: "cmos \<Rightarrow> u8 \<Rightarrow> datetime_t option" where
  "rtc_get_datetime cmos century_register =
     (if rtc_is_updating cmos then None
      else Some \<lparr>
        seconds = rtc_get_register cmos 0,
        minutes = rtc_get_register cmos 2,
        hours = rtc_get_register cmos 4,
        day = rtc_get_register cmos 7,
        month = rtc_get_register cmos 8,
        year = word_of_int (uint (rtc_get_register cmos century_register) * 100
                 + uint (rtc_get_register cmos 9) - 1900),
        day_of_week = rtc_get_register cmos 6 - 1,
        day_of_year = 0,
        is_daylight_savings = 0\<rparr>)"

definition julian_int :: "int \<Rightarrow> int \<Rightarrow> int \<Rightarrow> int" where
  "julian_int days months years =
     (1461 * (years + 4800 + (months - 14) sdiv 12)) sdiv 4 +
     (367 * (months - 2 - 12 * ((months - 14) sdiv 12))) sdiv 12 -
     (3 * ((years + 4900 + (months - 14) sdiv 12) sdiv 100)) sdiv 4 + days - 32075"

definition get_julian_day :: "u8 \<Rightarrow> u8 \<Rightarrow> u16 \<Rightarrow> u64" where
  "get_julian_day days months years = word_of_int (julian_int (uint days) (uint months) (uint years))"

definition rtc_mktime :: "datetime_t \<Rightarrow> posix_time_t" where
  "rtc_mktime dt =
     (let jdn_current = get_julian_day (day dt) (month dt) (year dt);
          jdn_1970 = get_julian_day 1 1 1970;
          jdn_diff = jdn_current - jdn_1970
      in \<lparr>pt_seconds = jdn_diff * (60 * 60 * 24) + ucast (hours dt) * 3600
            + ucast (minutes dt) * 60 + ucast (seconds dt),
          pt_nanoseconds = 0\<rparr>)"

section \<open>Day numbers count days\<close>

definition leap_year :: "int \<Rightarrow> bool" where
  "leap_year y \<longleftrightarrow> 4 dvd y \<and> (100 dvd y \<longrightarrow> 400 dvd y)"

definition days_in_month :: "int \<Rightarrow> int \<Rightarrow> int" where
  "days_in_month m y =
     (if m = 2 then if leap_year y then 29 else 28
      else if m = 4 \<or> m = 6 \<or> m = 9 \<or> m = 11 then 30 else 31)"

lemma sdiv_nonneg: "0 \<le> a \<Longrightarrow> 0 < b \<Longrightarrow> a sdiv b = a div (b :: int)"
  by (simp add: signed_divide_int_def sgn_if)

lemma month_cases:
  assumes "1 \<le> m" "m \<le> (12 :: int)"
  obtains "m = 1" | "m = 2" | "m = 3" | "m = 4" | "m = 5" | "m = 6" | "m = 7" | "m = 8"
    | "m = 9" | "m = 10" | "m = 11" | "m = 12"
proof -
  have "m = 1 \<or> m = 2 \<or> m = 3 \<or> m = 4 \<or> m = 5 \<or> m = 6 \<or> m = 7 \<or> m = 8 \<or> m = 9 \<or> m = 10 \<or> m = 11 \<or> m = 12"
    using assms by presburger
  then show thesis using that by blast
qed

lemma months_sdiv:
  assumes "1 \<le> m" "m \<le> (12 :: int)"
  shows "(m - 14) sdiv 12 = (if m \<le> 2 then -1 else 0)"
proof -
  from assms show ?thesis
    by (cases rule: month_cases) (simp_all add: signed_divide_int_def)
qed

text \<open>The formula with its divisions by floor, the two long ones named.\<close>

definition quad :: "int \<Rightarrow> int" where
  "quad z = (1461 * z) div 4"

definition cent :: "int \<Rightarrow> int" where
  "cent z = (3 * (z div 100)) div 4"

lemma julian_int_eq:
  assumes "1 \<le> m" "m \<le> 12" "0 \<le> y"
  shows "julian_int d m y =
    (let a = (if m \<le> 2 then 1 else 0) in
     quad (y + 4800 - a) + (367 * (m - 2 + 12 * a)) div 12 - cent (y + 4900 - a) + d - 32075)"
proof -
  let ?a = "if m \<le> 2 then 1 else 0 :: int"
  have "(m - 14) sdiv 12 = - ?a" using assms by (simp add: months_sdiv)
  moreover have "(1461 * (y + 4800 - ?a)) sdiv 4 = quad (y + 4800 - ?a)"
    unfolding quad_def by (rule sdiv_nonneg) (use assms in auto)
  moreover have "(y + 4900 - ?a) sdiv 100 = (y + 4900 - ?a) div 100"
    by (rule sdiv_nonneg) (use assms in auto)
  moreover have "(3 * ((y + 4900 - ?a) div 100)) sdiv 4 = cent (y + 4900 - ?a)"
    unfolding cent_def by (rule sdiv_nonneg) (use assms in \<open>auto simp: pos_imp_zdiv_nonneg_iff\<close>)
  moreover have "(367 * (m - 2 + 12 * ?a)) sdiv 12 = (367 * (m - 2 + 12 * ?a)) div 12"
    by (rule sdiv_nonneg) (use assms in auto)
  ultimately show ?thesis
    unfolding julian_int_def Let_def by (simp only: mult_minus_right diff_minus_eq_add add_uminus_conv_diff)
qed

lemma quad_step: "quad (y + 4800) - quad (y + 4799) = 365 + (if 4 dvd y then 1 else 0)"
proof -
  define q where "q = y div 4"
  have y: "4 * q + y mod 4 = y" by (simp add: q_def)
  have "(1461 * (4 * q + r + c)) div 4 = 1461 * q + (1461 * (r + c)) div 4" for r c :: int
  proof -
    have "1461 * (4 * q + r + c) = 1461 * (r + c) + 4 * (1461 * q)" by (simp add: algebra_simps)
    then show ?thesis by (simp only: div_mult_self2)
  qed
  from this [of "y mod 4" 4800] this [of "y mod 4" 4799] y
  have "(1461 * (y + 4800)) div 4 - (1461 * (y + 4799)) div 4 =
      (1461 * (y mod 4 + 4800)) div 4 - (1461 * (y mod 4 + 4799)) div 4" by simp
  moreover have "y mod 4 = 0 \<or> y mod 4 = 1 \<or> y mod 4 = 2 \<or> y mod 4 = 3" by presburger
  ultimately show ?thesis
    unfolding dvd_eq_mod_eq_0 quad_def by (elim disjE) simp_all
qed

lemma century_step: "cent (y + 4900) - cent (y + 4899) = (if 100 dvd y \<and> \<not> 400 dvd y then 1 else 0)"
proof (cases "100 dvd y")
  case True
  then obtain k where k: "y = 100 * k" by auto
  define q where "q = k div 4"
  define r where "r = k mod 4"
  have kq: "k = 4 * q + r" by (simp add: q_def r_def)
  have mod4: "r = 0 \<or> r = 1 \<or> r = 2 \<or> r = 3" unfolding r_def by presburger
  have eq: "(3 * (k + c)) div 4 = 3 * q + (3 * (r + c)) div 4" for c
  proof -
    have "3 * (k + c) = 3 * (r + c) + 4 * (3 * q)" by (simp add: kq)
    then show ?thesis by (simp only: div_mult_self2)
  qed
  have "(3 * (k + 49)) div 4 - (3 * (k + 48)) div 4 = (if r = 0 then 0 else 1)"
    unfolding eq using mod4 by (elim disjE) simp_all
  moreover have "(y + 4900) div 100 = k + 49"
    by (rule int_div_pos_eq [where r = 0]) (simp_all add: k)
  moreover have "(y + 4899) div 100 = k + 48"
    by (rule int_div_pos_eq [where r = 99]) (simp_all add: k)
  moreover have "400 dvd y \<longleftrightarrow> r = 0"
    unfolding k r_def dvd_eq_mod_eq_0 [symmetric] using dvd_mult_cancel_left [of 100 4 k] by simp
  ultimately show ?thesis using True by (simp add: cent_def)
next
  case False
  define c where "c = (y + 4899) div 100"
  define r where "r = (y + 4899) mod 100"
  have r: "y + 4899 = 100 * c + r" "0 \<le> r" "r < 100" by (simp_all add: c_def r_def)
  have "r \<noteq> 99"
  proof
    assume "r = 99"
    with r have "y = 100 * (c - 48)" by simp
    with False show False by simp
  qed
  with r have "(y + 4900) div 100 = c" by (intro int_div_pos_eq [where r = "r + 1"]) auto
  with False show ?thesis by (simp add: cent_def c_def)
qed

lemma leap_arith:
  "(if leap_year y then 1 else 0) = (if 4 dvd y then 1 else 0) - (if 100 dvd y \<and> \<not> 400 dvd y then 1 else 0 :: int)"
proof -
  have "100 dvd y \<Longrightarrow> 4 dvd y" using dvd_trans [of 4 100 y] by simp
  then show ?thesis by (auto simp: leap_year_def)
qed

lemma julian_next_month:
  assumes "1 \<le> m" "m < 12" "0 \<le> y"
  shows "julian_int 1 (m + 1) y = julian_int 1 m y + days_in_month m y"
proof (cases "m = 2")
  case True
  have "julian_int 1 3 y - julian_int 1 2 y =
      (quad (y + 4800) - quad (y + 4799)) - (cent (y + 4900) - cent (y + 4899)) - 337"
    using assms(3) by (simp add: julian_int_eq add.commute)
  also have "\<dots> = 28 + (if leap_year y then 1 else 0)"
    unfolding quad_step century_step leap_arith by simp
  finally show ?thesis using True by (auto simp: days_in_month_def)
next
  case False
  have "1 \<le> m" "m \<le> 12" using assms by auto
  then show ?thesis
    by (cases rule: month_cases) (use assms False in \<open>simp_all add: julian_int_eq days_in_month_def\<close>)
qed

lemma julian_next_year:
  assumes "0 \<le> y"
  shows "julian_int 1 1 (y + 1) = julian_int 1 12 y + 31"
  using assms by (simp add: julian_int_eq algebra_simps)


text \<open>The number of days from 1 January 1970, by counting months and years.\<close>

fun days_to_month :: "nat \<Rightarrow> int \<Rightarrow> int" where
  "days_to_month 0 y = 0"
| "days_to_month (Suc m) y = days_to_month m y + days_in_month (int m + 1) y"

fun days_to_year :: "nat \<Rightarrow> int" where
  "days_to_year 0 = 0"
| "days_to_year (Suc n) = days_to_year n + days_to_month 12 (1970 + int n)"

lemma days_to_month_2: "days_to_month 2 y = 59 + (if leap_year y then 1 else 0)"
  by (simp add: numeral_2_eq_2 days_in_month_def)

lemma year_length: "days_to_month 12 y = 365 + (if leap_year y then 1 else 0)"
  using days_to_month.simps(2) [of 11 y] days_to_month.simps(2) [of 10 y]
    days_to_month.simps(2) [of 9 y] days_to_month.simps(2) [of 8 y] days_to_month.simps(2) [of 7 y]
    days_to_month.simps(2) [of 6 y] days_to_month.simps(2) [of 5 y] days_to_month.simps(2) [of 4 y]
    days_to_month.simps(2) [of 3 y] days_to_month.simps(2) [of 2 y] days_to_month_2 [of y]
  by (simp add: days_in_month_def)

lemma julian_day: "julian_int d m y = julian_int 1 m y + (d - 1)"
  by (simp add: julian_int_def)

lemma julian_month:
  assumes "m < 12" "0 \<le> y"
  shows "julian_int 1 (int m + 1) y = julian_int 1 1 y + days_to_month m y"
  using assms
proof (induction m)
  case (Suc m)
  then show ?case using julian_next_month [of "int m + 1" y] by (simp add: algebra_simps)
qed simp

lemma julian_year: "julian_int 1 1 (1970 + int n) = julian_int 1 1 1970 + days_to_year n"
proof (induction n)
  case (Suc n)
  have "days_to_month 12 (1970 + int n) = days_to_month 11 (1970 + int n) + 31"
    using days_to_month.simps(2) [of 11] by (simp add: days_in_month_def)
  with Suc julian_next_year [of "1970 + int n"] julian_month [of 11 "1970 + int n"]
  show ?case by (simp add: algebra_simps)
qed simp

lemma rtc_bcd:
  assumes "cmos 0xb AND 4 = 0" and "cmos r = 16 * t + u" and "t < 10" and "u < 10"
  shows "rtc_get_register cmos r = 10 * t + u"
proof -
  have t: "unat t < 10" and u: "unat u < 10" using assms(3,4) by (simp_all add: word_less_nat_alt)
  have n: "unat (16 * t + u) = 16 * unat t + unat u"
    using t u by (simp add: unat_word_ariths)
  have "(16 * t + u) div 16 = t"
    using n t u by (simp add: word_unat_eq_iff unat_div)
  moreover have "(16 * t + u) AND 0xf = u"
  proof -
    have "(16 * t + u) AND 0xf = take_bit 4 (16 * t + u)"
      by (simp add: take_bit_eq_mask mask_eq_exp_minus_1)
    then show ?thesis using n u by (simp add: word_unat_eq_iff take_bit_eq_mod unat_mod)
  qed
  ultimately show ?thesis
    using assms(1,2) by (simp add: rtc_get_register_def rtc_get_register_raw_def algebra_simps)
qed


section \<open>Properties\<close>

text \<open>
  C8: For a date from 1970 on with the full year in its \<^verbatim>\<open>year\<close> field, \<^verbatim>\<open>rtc_mktime\<close> gives the
  number of days counted over the months and (leap) years since 1970, in seconds,
  plus the seconds of the day.
\<close>

theorem rtc_mktime_counts_days:
  assumes "year dt = of_nat (1970 + n)" and "1970 + n < 65536"
    and "month dt = of_nat (m + 1)" and "m < 12" and "1 \<le> day dt"
  shows "pt_seconds (rtc_mktime dt) =
    of_int ((days_to_year n + days_to_month m (1970 + int n) + (uint (day dt) - 1)) * 86400 +
      uint (hours dt) * 3600 + uint (minutes dt) * 60 + uint (seconds dt))"
proof -
  have y: "uint (year dt) = 1970 + int n"
    using assms(1,2) by (simp add: uint_nat unat_of_nat_id del: of_nat_add of_nat_Suc)
  have m: "uint (month dt) = int m + 1"
    using assms(3,4) by (simp add: uint_nat unat_of_nat_id del: of_nat_add of_nat_Suc)
  define D where "D = days_to_year n + days_to_month m (1970 + int n) + (uint (day dt) - 1)"
  have J: "julian_int (uint (day dt)) (int m + 1) (1970 + int n) = julian_int 1 1 1970 + D"
    using julian_day [of "uint (day dt)" "int m + 1" "1970 + int n"]
      julian_month [of m "1970 + int n"] julian_year [of n] assms(4) by (simp add: D_def)
  have "get_julian_day (day dt) (month dt) (year dt) - get_julian_day 1 1 1970 = of_int D"
    unfolding get_julian_day_def y m J by simp
  then show ?thesis
    unfolding rtc_mktime_def Let_def D_def [symmetric]
    by (simp only: posix_time_t.select_convs ucast_eq of_int_add of_int_mult of_int_numeral) simp
qed

definition demo_date :: datetime_t where
  "demo_date = \<lparr>seconds = 1, minutes = 2, hours = 3, day = 1, month = 3, year = 1972,
     day_of_week = 0, day_of_year = 0, is_daylight_savings = 0\<rparr>"

theorem rtc_mktime_counts_days_witness:
  "pt_seconds (rtc_mktime demo_date) = 790 * 86400 + 3 * 3600 + 2 * 60 + 1"
proof -
  have "days_to_year (Suc (Suc 0)) = 730" "days_to_month 2 1972 = 60"
    by (simp_all add: year_length days_to_month_2 leap_year_def)
  then show ?thesis
    using rtc_mktime_counts_days [of demo_date "Suc (Suc 0)" 2] by (simp add: demo_date_def)
qed

text \<open>
  The clock's own reading stores the year minus 1900, which \<^verbatim>\<open>rtc_mktime\<close> takes for the
  full year: a clock that shows 1 January 1970, midnight, does not give 0 seconds.
\<close>

theorem rtc_epoch_not_zero:
  "\<exists>cmos dt. rtc_get_datetime cmos 0x32 = Some dt \<and> rtc_get_register cmos 0x32 = 19 \<and>
     rtc_get_register cmos 9 = 70 \<and> month dt = 1 \<and> day dt = 1 \<and>
     hours dt = 0 \<and> minutes dt = 0 \<and> seconds dt = 0 \<and> pt_seconds (rtc_mktime dt) \<noteq> 0"
proof -
  define cmos :: cmos where
    "cmos = (\<lambda>_. 0)(0x32 := 0x19, 9 := 0x70, 8 := 1, 7 := 1)"
  show ?thesis
    by (rule exI [of _ cmos])
       (simp add: rtc_get_datetime_def rtc_is_updating_def rtc_get_register_def rtc_get_register_raw_def
         cmos_def rtc_mktime_def get_julian_day_def julian_int_def signed_divide_int_def Let_def)
qed

end
