(* ===== verification/Pipe.thy ===== *)
theory Pipe
  imports Memory
begin

text \<open>
  Pipes, \<^verbatim>\<open>src/src/kernel/pipe/pipe.c\<close>. A pipe is four pointers into a buffer; the
  buffer's memory is part of the state. The caller's buffers are byte lists, apart
  from the pipe's memory: the bytes to write, and the bytes a read stores. The
  address \<^verbatim>\<open>kmalloc\<close> returns is a parameter of \<^verbatim>\<open>pipe_init\<close>.
\<close>

record pipe_t =
  pipe_buffer :: u64
  pipe_buffer_end :: u64
  pipe_head :: u64
  pipe_tail :: u64
  pipe_mem :: mem

section \<open>Operations\<close>

definition DEFAULT_PIPE_SIZE :: u64 where
  "DEFAULT_PIPE_SIZE = PAGE_SIZE * 16"

definition pipe_init :: "u64 \<Rightarrow> mem \<Rightarrow> u64 \<Rightarrow> pipe_t" where
  "pipe_init buf m capacity =
     \<lparr>pipe_buffer = buf, pipe_buffer_end = buf + capacity * 8, pipe_head = buf, pipe_tail = buf,
      pipe_mem = m\<rparr>"

definition pipe_write :: "u8 list \<Rightarrow> pipe_t \<Rightarrow> int \<times> pipe_t" where
  "pipe_write item p =
     (let count = of_nat (length item) in
      if pipe_head p + count \<ge> pipe_buffer_end p then (0, p)
      else
        let p = p\<lparr>pipe_mem := put_bytes (pipe_mem p) (pipe_head p) item\<rparr>;
            p = p\<lparr>pipe_head := pipe_head p + count\<rparr>;
            p = (if pipe_head p \<ge> pipe_buffer_end p then p\<lparr>pipe_head := pipe_buffer p\<rparr> else p)
        in (sint count, p))"

text \<open>The reading loop: the bytes stored, and whether the loop returned early with -1.\<close>

fun pipe_read_loop :: "pipe_t \<Rightarrow> u64 \<Rightarrow> nat \<Rightarrow> u8 list \<times> bool" where
  "pipe_read_loop p rd 0 = ([], False)"
| "pipe_read_loop p rd (Suc count) =
     (let b = pipe_mem p (pipe_tail p + rd); rd = rd + 1 in
      if pipe_tail p \<ge> pipe_head p then ([b], True)
      else case pipe_read_loop p rd count of (bs, early) \<Rightarrow> (b # bs, early))"

definition pipe_read :: "u64 \<Rightarrow> pipe_t \<Rightarrow> int \<times> u8 list \<times> pipe_t" where
  "pipe_read count p =
     (if pipe_tail p \<ge> pipe_head p then (-1, [], p)
      else case pipe_read_loop p 0 (unat count) of (bs, early) \<Rightarrow>
        if early then (-1, bs, p)
        else
          let rd = of_nat (length bs);
              p = p\<lparr>pipe_tail := pipe_tail p + rd\<rparr>;
              p = (if pipe_tail p \<ge> pipe_buffer_end p then p\<lparr>pipe_tail := pipe_buffer p\<rparr> else p)
          in (sint rd, bs, p))"

section \<open>The bytes in the pipe\<close>

definition pipe_contents :: "pipe_t \<Rightarrow> u8 list" where
  "pipe_contents p = get_bytes (pipe_mem p) (pipe_tail p) (unat (pipe_head p - pipe_tail p))"

definition pipe_ok :: "pipe_t \<Rightarrow> bool" where
  "pipe_ok p \<longleftrightarrow> pipe_buffer p \<le> pipe_tail p \<and> pipe_tail p \<le> pipe_head p \<and>
     pipe_head p < pipe_buffer_end p \<and> unat (pipe_buffer_end p) - unat (pipe_buffer p) < 2 ^ 63"

lemma get_bytes_append: "get_bytes m p (i + j) = get_bytes m p i @ get_bytes m (p + of_nat i) j"
  by (induction i arbitrary: p) (auto simp: algebra_simps)

lemma pipe_read_loop_bytes:
  assumes "pipe_tail p < pipe_head p"
  shows "pipe_read_loop p rd n = (get_bytes (pipe_mem p) (pipe_tail p + rd) n, False)"
  using assms by (induction n arbitrary: rd) (auto simp: Let_def algebra_simps)

lemma pipe_write_effect:
  assumes "pipe_ok p" and "pipe_write item p = (r, p')" and "r \<noteq> 0"
    and "unat (pipe_head p) + length item < 2 ^ 64"
  shows "pipe_ok p' \<and> pipe_contents p' = pipe_contents p @ item \<and>
    pipe_buffer p' = pipe_buffer p \<and> pipe_buffer_end p' = pipe_buffer_end p \<and> pipe_tail p' = pipe_tail p"
proof -
  let ?n = "of_nat (length item) :: u64"
  have n: "unat ?n = length item" using assms(4) by (intro unat_of_nat_id) simp
  have fit: "\<not> pipe_head p + ?n \<ge> pipe_buffer_end p"
    using assms(2,3) by (auto simp: pipe_write_def Let_def split: if_splits)
  have p': "p' = p\<lparr>pipe_mem := put_bytes (pipe_mem p) (pipe_head p) item, pipe_head := pipe_head p + ?n\<rparr>"
    using assms(2) fit by (simp add: pipe_write_def Let_def)
  have hd: "unat (pipe_head p + ?n) = unat (pipe_head p) + length item"
    using assms(4) n by (simp add: nat_word)
  have th: "unat (pipe_tail p) \<le> unat (pipe_head p)"
    using assms(1) by (simp add: pipe_ok_def word_le_nat_alt)
  define k where "k = unat (pipe_head p - pipe_tail p)"
  have k: "k = unat (pipe_head p) - unat (pipe_tail p)" "pipe_tail p + of_nat k = pipe_head p"
    using th by (simp_all add: k_def nat_word)
  have "unat (pipe_head p + ?n - pipe_tail p) = k + length item"
    using hd th k(1) by (simp add: nat_word)
  moreover have "get_bytes (put_bytes (pipe_mem p) (pipe_head p) item) (pipe_tail p) k =
      get_bytes (pipe_mem p) (pipe_tail p) k"
  proof (rule get_bytes_cong)
    fix i assume "i < k"
    have "ranges_disjoint (pipe_tail p) k (pipe_head p) (length item)"
      using k(1) th assms(4) by (intro ranges_disjoint_below) auto
    from put_bytes_outside [OF ranges_disjoint_sym [OF this] \<open>i < k\<close>]
    show "put_bytes (pipe_mem p) (pipe_head p) item (pipe_tail p + of_nat i) = pipe_mem p (pipe_tail p + of_nat i)" .
  qed
  moreover have "get_bytes (put_bytes (pipe_mem p) (pipe_head p) item) (pipe_head p) (length item) = item"
    using assms(4) by (intro get_put_bytes) simp
  ultimately have "pipe_contents p' = pipe_contents p @ item"
    using k(2) by (simp add: pipe_contents_def p' get_bytes_append k_def [symmetric])
  moreover have "pipe_ok p'"
    using assms(1) fit hd th by (auto simp: pipe_ok_def p' word_le_nat_alt word_less_nat_alt)
  ultimately show ?thesis by (simp add: p')
qed

lemma pipe_read_effect:
  assumes "pipe_ok p" and "0 < unat n" and "unat n \<le> length (pipe_contents p)"
  shows "\<exists>p'. pipe_read n p = (sint n, take (unat n) (pipe_contents p), p') \<and>
    pipe_ok p' \<and> pipe_contents p' = drop (unat n) (pipe_contents p) \<and> pipe_head p' = pipe_head p"
proof -
  let ?k = "unat (pipe_head p - pipe_tail p)"
  have th: "unat (pipe_tail p) \<le> unat (pipe_head p)"
    using assms(1) by (simp add: pipe_ok_def word_le_nat_alt)
  have k: "?k = unat (pipe_head p) - unat (pipe_tail p)" "unat n \<le> ?k"
    using th assms(3) by (simp_all add: nat_word pipe_contents_def)
  then have lt: "pipe_tail p < pipe_head p" using assms(2) by (simp add: word_less_nat_alt)
  have tl: "unat (pipe_tail p + n) = unat (pipe_tail p) + unat n"
    using le_less_trans [OF _ unat_lt64 [of "pipe_head p"], of "unat (pipe_tail p) + unat n"] k th
    by (intro unat_add_small) simp
  let ?p' = "p\<lparr>pipe_tail := pipe_tail p + n\<rparr>"
  have in_buf: "\<not> pipe_tail p + n \<ge> pipe_buffer_end p"
    using assms(1) lt tl k th by (auto simp: pipe_ok_def word_le_nat_alt word_less_nat_alt)
  have "pipe_read n p = (sint n, get_bytes (pipe_mem p) (pipe_tail p) (unat n), ?p')"
    using linorder_not_le [THEN iffD2, OF lt] in_buf pipe_read_loop_bytes [OF lt, of 0 "unat n"] by (simp add: pipe_read_def Let_def)
  moreover have "pipe_contents p =
      get_bytes (pipe_mem p) (pipe_tail p) (unat n) @ get_bytes (pipe_mem p) (pipe_tail p + n) (?k - unat n)"
    using get_bytes_append [of "pipe_mem p" "pipe_tail p" "unat n" "?k - unat n"] le_add_diff_inverse [OF k(2)]
    by (simp only: pipe_contents_def of_nat_unat ucast_id)
  moreover have "unat (pipe_head p - (pipe_tail p + n)) = ?k - unat n"
    using k tl th by (simp add: nat_word)
  moreover have "pipe_ok ?p'"
    using assms(1) tl k th by (auto simp: pipe_ok_def word_le_nat_alt word_less_nat_alt)
  ultimately show ?thesis by (intro exI [of _ ?p']) (simp add: pipe_contents_def)
qed


section \<open>What a byte queue promises\<close>

text \<open>
  The contract of a pipe towards the file layer: writes that fit append, reads of
  no more than the contents take from the front.
\<close>

locale byte_queue =
  fixes put :: "u8 list \<Rightarrow> 's \<Rightarrow> int \<times> 's"
    and get :: "u64 \<Rightarrow> 's \<Rightarrow> int \<times> u8 list \<times> 's"
    and contents :: "'s \<Rightarrow> u8 list"
    and room :: "'s \<Rightarrow> nat"
    and ok :: "'s \<Rightarrow> bool"
  assumes write_fits: "ok s \<Longrightarrow> bs \<noteq> [] \<Longrightarrow> length bs < room s \<Longrightarrow>
      \<exists>s'. put bs s = (int (length bs), s') \<and> ok s' \<and> contents s' = contents s @ bs \<and>
        room s' = room s - length bs"
    and read_front: "ok s \<Longrightarrow> 0 < unat n \<Longrightarrow> unat n \<le> length (contents s) \<Longrightarrow>
      \<exists>s'. get n s = (int (unat n), take (unat n) (contents s), s') \<and> ok s' \<and>
        contents s' = drop (unat n) (contents s)"
begin

lemma write_all:
  assumes "ok s" and "\<forall>bs\<in>set bss. bs \<noteq> []" and "length (concat bss) < room s"
  shows "\<exists>s'. s' = fold (\<lambda>bs s. snd (put bs s)) bss s \<and> ok s' \<and> contents s' = contents s @ concat bss"
  using assms
proof (induction bss arbitrary: s)
  case Nil
  then show ?case by simp
next
  case (Cons bs bss)
  obtain s1 where s1: "put bs s = (int (length bs), s1)" "ok s1" "contents s1 = contents s @ bs"
    "room s1 = room s - length bs"
    using write_fits [OF Cons.prems(1), of bs] Cons.prems(2,3) by auto
  with Cons.IH [of s1] Cons.prems(2,3) show ?case by auto
qed

lemma written_is_read:
  assumes "ok s" and "contents s = []" and "\<forall>bs\<in>set bss. bs \<noteq> []" and "bss \<noteq> []"
    and "length (concat bss) < room s" and "unat n = length (concat bss)"
  shows "\<exists>s'. get n (fold (\<lambda>bs s. snd (put bs s)) bss s) = (int (unat n), concat bss, s') \<and> contents s' = []"
proof -
  obtain s1 where s1: "s1 = fold (\<lambda>bs s. snd (put bs s)) bss s" "ok s1" "contents s1 = concat bss"
    using write_all [OF assms(1,3,5)] assms(2) by auto
  have "0 < unat n" using assms(3,4,6) by (cases bss) auto
  with read_front [OF s1(2), of n] s1 assms(6) show ?thesis by auto
qed

end

definition pipe_room :: "pipe_t \<Rightarrow> nat" where
  "pipe_room p = unat (pipe_buffer_end p) - unat (pipe_head p)"

lemma sint_of_nat_small: "k < 2 ^ 63 \<Longrightarrow> sint (of_nat k :: u64) = int k"
  by (simp add: signed_of_nat signed_take_bit_int_eq_self)

lemma sint_small: "unat (n :: u64) < 2 ^ 63 \<Longrightarrow> sint n = int (unat n)"
  using sint_of_nat_small [of "unat n"] by simp

interpretation pq: byte_queue pipe_write pipe_read pipe_contents pipe_room pipe_ok
proof
  fix p :: pipe_t and bs :: "u8 list"
  assume ok: "pipe_ok p" and ne: "bs \<noteq> []" and room: "length bs < pipe_room p"
  let ?n = "of_nat (length bs) :: u64"
  have lt: "unat (pipe_head p) + length bs < unat (pipe_buffer_end p)"
    using room by (simp add: pipe_room_def)
  then have small: "unat (pipe_head p) + length bs < 2 ^ 64"
    using less_trans [OF lt unat_lt64] by simp
  have n: "unat ?n = length bs" using small by (intro unat_of_nat_id) simp
  have "length bs < 2 ^ 63" using ok lt unfolding pipe_ok_def word_le_nat_alt by linarith
  with n have r: "sint ?n = int (length bs)" using sint_small [of ?n] by simp
  have "\<not> pipe_head p + ?n \<ge> pipe_buffer_end p"
    using lt small n by (simp add: word_le_nat_alt nat_word)
  then obtain p' where w: "pipe_write bs p = (int (length bs), p')"
    and hd: "pipe_head p' = pipe_head p + ?n" "pipe_buffer_end p' = pipe_buffer_end p"
    using r by (simp add: pipe_write_def Let_def)
  with pipe_write_effect [OF ok w _ small] ne small n
  show "\<exists>p'. pipe_write bs p = (int (length bs), p') \<and> pipe_ok p' \<and>
      pipe_contents p' = pipe_contents p @ bs \<and> pipe_room p' = pipe_room p - length bs"
    by (auto simp: pipe_room_def nat_word)
next
  fix p and n :: u64
  assume ok: "pipe_ok p" and n: "0 < unat n" "unat n \<le> length (pipe_contents p)"
  have "unat n < 2 ^ 63"
    using ok n(2) by (auto simp: pipe_ok_def pipe_contents_def word_le_nat_alt word_less_nat_alt nat_word)
  then have "sint n = int (unat n)" by (rule sint_small)
  with pipe_read_effect [OF ok n]
  show "\<exists>p'. pipe_read n p = (int (unat n), take (unat n) (pipe_contents p), p') \<and> pipe_ok p' \<and>
      pipe_contents p' = drop (unat n) (pipe_contents p)"
    by auto
qed

lemma pipe_init_ok:
  assumes "0 < unat capacity" and "unat buf + 8 * unat capacity < 2 ^ 64" and "unat capacity < 2 ^ 60"
  shows "pipe_ok (pipe_init buf m capacity) \<and> pipe_contents (pipe_init buf m capacity) = [] \<and>
    pipe_room (pipe_init buf m capacity) = 8 * unat capacity"
proof -
  have "unat (capacity * 8) = 8 * unat capacity" using assms(3) by (subst unat_mult_small) auto
  with assms have "unat (buf + capacity * 8) = unat buf + 8 * unat capacity" by (simp add: nat_word)
  with assms show ?thesis
    by (simp add: pipe_ok_def pipe_init_def pipe_contents_def pipe_room_def word_le_nat_alt word_less_nat_alt)
qed


section \<open>Properties\<close>

text \<open>
  C9: First in, first out. On a fresh pipe, non-empty writes that together stay below the
  size of the buffer all succeed, and one read of the total count returns their bytes in
  order and leaves the pipe empty.
\<close>

theorem pipe_fifo:
  assumes "0 < unat capacity" and "unat buf + 8 * unat capacity < 2 ^ 64" and "unat capacity < 2 ^ 60"
    and "bss \<noteq> []" and "\<forall>bs\<in>set bss. bs \<noteq> []" and "length (concat bss) < 8 * unat capacity"
    and "unat n = length (concat bss)"
  shows "\<exists>p'. pipe_read n (fold (\<lambda>bs p. snd (pipe_write bs p)) bss (pipe_init buf m capacity)) =
    (int (unat n), concat bss, p') \<and> pipe_contents p' = []"
  using pipe_init_ok [OF assms(1-3), of m] assms(4-7) by (intro pq.written_is_read) auto

theorem pipe_fifo_witness:
  "\<exists>p'. pipe_read 3 (fold (\<lambda>bs p. snd (pipe_write bs p)) [[1, 2], [3]] (pipe_init 0x1000 (\<lambda>_. 0) 1)) =
    (3, [1, 2, 3], p') \<and> pipe_contents p' = []"
  using pipe_fifo [of 1 "0x1000" "[[1, 2], [3]]" 3] by simp

text \<open>
  A pipe never gets room back. Reading moves the tail only, so a write that does not
  fit returns 0 again after any number of successful reads, and the writer that retries
  until the result is not 0 never stops.
\<close>

theorem pipe_write_stays_blocked:
  assumes "pipe_head p + of_nat (length item) \<ge> pipe_buffer_end p"
  shows "pipe_write item (fold (\<lambda>n p. snd (snd (pipe_read n p))) ns p) =
    (0, fold (\<lambda>n p. snd (snd (pipe_read n p))) ns p)"
proof -
  have frame: "pipe_head (snd (snd (pipe_read n p))) = pipe_head p \<and>
      pipe_buffer_end (snd (snd (pipe_read n p))) = pipe_buffer_end p" for n p
    by (simp add: pipe_read_def Let_def split: prod.splits)
  have "pipe_head (fold (\<lambda>n p. snd (snd (pipe_read n p))) ns p) = pipe_head p \<and>
      pipe_buffer_end (fold (\<lambda>n p. snd (snd (pipe_read n p))) ns p) = pipe_buffer_end p"
    by (induction ns arbitrary: p) (simp_all add: frame)
  with assms show ?thesis by (simp add: pipe_write_def)
qed

theorem pipe_write_stays_blocked_witness:
  "\<exists>p. pipe_contents p = [] \<and> fst (pipe_write [1] p) = 0"
proof -
  let ?p = "snd (pipe_write (replicate 7 1) (pipe_init 0x1000 (\<lambda>_. 0) 1))"
  have "pipe_contents (snd (snd (pipe_read 7 ?p))) = []"
    using pipe_fifo [of 1 "0x1000" "[replicate 7 1]" 7 "\<lambda>_. 0"] by auto
  moreover have "fst (pipe_write [1] (snd (snd (pipe_read 7 ?p)))) = 0"
    using pipe_write_stays_blocked [of ?p "[1]" "[7]"] by (simp add: pipe_write_def pipe_init_def)
  ultimately show ?thesis by blast
qed

text \<open>
  A read does not stop at the head: with one byte in the pipe, a larger read stores
  that many bytes, the later ones from memory no one has written to the pipe.
\<close>

theorem pipe_read_past_head:
  assumes "pipe_tail p < pipe_head p"
  shows "fst (snd (pipe_read n p)) = get_bytes (pipe_mem p) (pipe_tail p) (unat n)"
  using linorder_not_le [THEN iffD2, OF assms] pipe_read_loop_bytes [OF assms, of 0 "unat n"] by (simp add: pipe_read_def Let_def)

theorem pipe_read_past_head_witness:
  "fst (snd (pipe_read 3 (snd (pipe_write [9] (pipe_init 0x1000 (\<lambda>_. 7) 1))))) = [9, 7, 7]"
proof -
  let ?p = "snd (pipe_write [9] (pipe_init 0x1000 (\<lambda>_. 7) 1))"
  have three: "unat (3 :: u64) = Suc (Suc (Suc 0))" by simp
  have "pipe_tail ?p < pipe_head ?p" by (simp add: pipe_write_def pipe_init_def)
  moreover have "get_bytes (pipe_mem ?p) (pipe_tail ?p) (Suc (Suc (Suc 0))) = [9, 7, 7]"
    by (simp add: pipe_write_def pipe_init_def)
  ultimately show ?thesis
    using pipe_read_past_head [of ?p 3] by (simp only: three)
qed

end
