(* ===== verification/Event.thy ===== *)
theory Event
  imports Lock
begin

text \<open>
  Events, \<^verbatim>\<open>src/src/kernel/event.c\<close>: counters that interrupt handlers and other threads
  trigger and that \<^verbatim>\<open>event_await\<close> waits for. Events live in a store, addressed by
  pointers (numbers), so that one event may occur twice in a list. Between two rounds
  of the polling loop other processors act on the store: round \<open>k\<close> of the loop sees
  the store after \<open>env k\<close>. \<^const>\<open>None\<close> is a call that never returns.
\<close>

record event_t =
  pending :: u64
  event_lock :: lock_t

type_synonym event_store = "nat \<Rightarrow> event_t"

section \<open>Operations\<close>

definition lock_event :: "nat \<Rightarrow> event_store \<Rightarrow> event_store option" where
  "lock_event e st = map_option (\<lambda>(_, l). st(e := (st e)\<lparr>event_lock := l\<rparr>)) (LOCK (event_lock (st e)))"

definition unlock_event :: "nat \<Rightarrow> event_store \<Rightarrow> event_store" where
  "unlock_event e st = st(e := (st e)\<lparr>event_lock := UNLOCK (event_lock (st e))\<rparr>)"

text \<open>One pass over the events: the first pending one is taken.\<close>

fun take_pending :: "nat list \<Rightarrow> nat \<Rightarrow> event_store \<Rightarrow> (nat \<times> event_store) option" where
  "take_pending [] i st = None"
| "take_pending (e # es) i st =
     (if pending (st e) \<noteq> 0 then Some (i, st(e := (st e)\<lparr>pending := pending (st e) - 1\<rparr>))
      else take_pending es (Suc i) st)"

partial_function (option) await_poll ::
  "(nat \<Rightarrow> event_store \<Rightarrow> event_store) \<Rightarrow> nat list \<Rightarrow> nat \<Rightarrow> event_store \<Rightarrow> (int \<times> event_store) option" where
  "await_poll env es k st =
     (let st = env k st in
      case take_pending es 0 st of
        Some (i, st) \<Rightarrow> Some (int i, st)
      | None \<Rightarrow> await_poll env es (Suc k) st)"

definition event_await ::
  "(nat \<Rightarrow> event_store \<Rightarrow> event_store) \<Rightarrow> nat list \<Rightarrow> bool \<Rightarrow> event_store \<Rightarrow> (int \<times> event_store) option" where
  "event_await env es block st = do {
     st \<leftarrow> foldM lock_event es st;
     case take_pending es 0 st of
       Some (i, st) \<Rightarrow> Some (int i, st)
     | None \<Rightarrow>
         let st = fold unlock_event es st in
         if \<not> block then Some (-1, st) else await_poll env es 0 st
   }"

definition event_trigger :: "nat \<Rightarrow> event_store \<Rightarrow> event_store option" where
  "event_trigger e st = do {
     st \<leftarrow> lock_event e st;
     let st = st(e := (st e)\<lparr>pending := pending (st e) + 1\<rparr>);
     Some (unlock_event e st)
   }"

section \<open>Lemmas\<close>

definition event_idle :: "event_store \<Rightarrow> nat \<Rightarrow> bool" where
  "event_idle st e \<longleftrightarrow> lock_free (event_lock (st e))"

lemma event_trigger_free:
  "event_idle st e \<Longrightarrow> event_trigger e st = Some (st(e := (st e)\<lparr>pending := pending (st e) + 1\<rparr>))"
  by (simp add: event_trigger_def lock_event_def unlock_event_def event_idle_def Let_def)

definition hold :: "nat list \<Rightarrow> event_store \<Rightarrow> event_store" where
  "hold es st = (\<lambda>e. if e \<in> set es then (st e)\<lparr>event_lock := lock_held (event_lock (st e))\<rparr> else st e)"

lemma lock_all:
  assumes "distinct es" and "\<forall>e\<in>set es. event_idle st e"
  shows "foldM lock_event es st = Some (hold es st)"
  using assms
proof (induction es arbitrary: st)
  case Nil
  then show ?case by (simp add: hold_def)
next
  case (Cons e es)
  let ?st = "st(e := (st e)\<lparr>event_lock := lock_held (event_lock (st e))\<rparr>)"
  have "lock_event e st = Some ?st"
    using Cons.prems by (simp add: lock_event_def event_idle_def)
  moreover have "foldM lock_event es ?st = Some (hold es ?st)"
    using Cons.prems by (intro Cons.IH) (auto simp: event_idle_def)
  moreover have "hold es ?st = hold (e # es) st"
    using Cons.prems by (auto simp: hold_def)
  ultimately show ?case by simp
qed

lemma unlock_all:
  assumes "distinct es" and "\<forall>e\<in>set es. event_idle st e"
  shows "fold unlock_event es (hold es st) = st"
proof -
  have "\<forall>e\<in>set xs. event_idle st e \<Longrightarrow> distinct xs \<Longrightarrow> fold unlock_event xs (hold xs st) = st" for xs
  proof (induction xs)
    case (Cons e xs)
    have "unlock_event e (hold (e # xs) st) = hold xs st"
      using Cons.prems by (auto simp: unlock_event_def hold_def event_idle_def fun_eq_iff)
    then show ?case using Cons by simp
  qed (simp add: hold_def)
  then show ?thesis using assms by blast
qed

lemma take_pending_None: "take_pending es i st = None \<longleftrightarrow> (\<forall>e\<in>set es. pending (st e) = 0)"
  by (induction es arbitrary: i) auto

lemma take_pending_Some:
  assumes "k < length es" and "pending (st (es ! k)) \<noteq> 0" and "\<forall>j<k. pending (st (es ! j)) = 0"
  shows "take_pending es i st = Some (i + k, st(es ! k := (st (es ! k))\<lparr>pending := pending (st (es ! k)) - 1\<rparr>))"
  using assms
proof (induction es arbitrary: i k)
  case (Cons e es)
  show ?case
  proof (cases k)
    case 0
    with Cons.prems show ?thesis by (simp add: fun_upd_def)
  next
    case (Suc k')
    have "pending (st e) = 0" using Cons.prems(3) Suc by force
    moreover have "take_pending es (Suc i) st =
        Some (Suc i + k', st(es ! k' := (st (es ! k'))\<lparr>pending := pending (st (es ! k')) - 1\<rparr>))"
      using Cons.prems Suc by (intro Cons.IH) auto
    ultimately show ?thesis using Suc by (simp add: fun_upd_def)
  qed
qed simp

lemma hold_simps [simp]: "pending (hold es st e) = pending (st e)"
  by (simp add: hold_def)

lemma first_pending:
  assumes "e \<in> set es" and "pending (st e) \<noteq> 0"
  obtains k where "k < length es" "pending (st (es ! k)) \<noteq> 0" "\<forall>j<k. pending (st (es ! j)) = 0"
proof -
  let ?P = "\<lambda>k. k < length es \<and> pending (st (es ! k)) \<noteq> 0"
  have "\<exists>k. ?P k" using assms by (auto simp: in_set_conv_nth)
  then obtain k where "?P k" "\<forall>j<k. \<not> ?P j" using exists_least_iff [of ?P] by blast
  then show thesis using that [of k] by (metis order.strict_trans)
qed

lemma await_poll_quiet:
  assumes "\<And>k st. env k st = st" and "\<forall>e\<in>set es. pending (st e) = 0"
  shows "await_poll env es k st = None"
proof -
  have "(\<forall>e\<in>set es. pending (st e) = 0) \<longrightarrow> False" if "await_poll env es k st = Some r" for k st r
  proof (rule await_poll.raw_induct [where P = "\<lambda>env es k st r. (\<forall>k st. env k st = st) \<longrightarrow>
      (\<forall>e\<in>set es. pending (st e) = 0) \<longrightarrow> False", THEN mp, OF _ that])
    fix aw env es k st r
    assume IH: "\<And>env es k st r. aw env es k st = Some r \<Longrightarrow>
        (\<forall>k st. env k st = st) \<longrightarrow> (\<forall>e\<in>set es. pending (st e) = 0) \<longrightarrow> False"
      and eq: "(let st = env k st in case take_pending es 0 st of None \<Rightarrow> aw env es (Suc k) st
         | Some (i, st) \<Rightarrow> Some (int i, st)) = Some r"
    show "(\<forall>k st. env k st = st) \<longrightarrow> (\<forall>e\<in>set es. pending (st e) = 0) \<longrightarrow> False"
    proof (intro impI)
      assume env: "\<forall>k st. env k st = st" and none: "\<forall>e\<in>set es. pending (st e) = 0"
      then have "aw env es (Suc k) st = Some r"
        using eq take_pending_None [of es 0 st] by (simp add: Let_def)
      from IH [OF this] env none show False by blast
    qed
  qed (use assms(1) in simp)
  with assms(2) have "\<nexists>r. await_poll env es k st = Some r" by blast
  then show ?thesis by (simp only: not_Some_eq not_ex simp_thms)
qed

section \<open>Properties\<close>

text \<open>
  With the locks of distinct events free, a non-blocking \<^verbatim>\<open>event_await\<close> on events none of
  which is pending returns -1 and leaves every event as it was, locks released.
\<close>

theorem event_await_none_pending:
  assumes "distinct es" and "\<forall>e\<in>set es. event_idle st e" and "\<forall>e\<in>set es. pending (st e) = 0"
  shows "event_await env es False st = Some (-1, st)"
proof -
  have "take_pending es 0 (hold es st) = None"
    using assms(3) by (simp add: take_pending_None)
  then show ?thesis
    using lock_all [OF assms(1,2)] unlock_all [OF assms(1,2)] by (simp add: event_await_def Let_def)
qed

definition demo_events :: event_store where
  "demo_events = (\<lambda>e. \<lparr>pending = (if e = 1 then 2 else 0), event_lock = lock_init\<rparr>)"

lemma demo_events_simps [simp]:
  "event_idle demo_events e" "pending (demo_events e) = (if e = 1 then 2 else 0)"
  "lock_bits (event_lock (demo_events e)) = 0"
  by (simp_all add: demo_events_def event_idle_def lock_init_def lock_free_def)

theorem event_await_none_pending_witness:
  "event_await (\<lambda>_ st. st) [0, 2] False demo_events = Some (-1, demo_events)"
  using event_await_none_pending [of "[0, 2]" demo_events] by simp

text \<open>
  When some event is already pending, \<^verbatim>\<open>event_await\<close> returns the index of the first such
  event, having taken one from its counter, but it keeps every lock it took: from then
  on \<^verbatim>\<open>event_trigger\<close> on any of the awaited events never returns.
\<close>

theorem event_await_keeps_locks:
  assumes "distinct es" and "\<forall>e\<in>set es. event_idle st e \<and> \<not> bit (lock_bits (event_lock (st e))) 1"
    and "e0 \<in> set es" and "pending (st e0) \<noteq> 0"
  shows "\<exists>i st'. event_await env es block st = Some (int i, st') \<and> i < length es \<and>
    pending (st (es ! i)) \<noteq> 0 \<and> (\<forall>j<i. pending (st (es ! j)) = 0) \<and>
    pending (st' (es ! i)) = pending (st (es ! i)) - 1 \<and> (\<forall>e\<in>set es. event_trigger e st' = None)"
proof -
  obtain k where k: "k < length es" "pending (st (es ! k)) \<noteq> 0" "\<forall>j<k. pending (st (es ! j)) = 0"
    by (rule first_pending [of e0 es st, OF assms(3,4)])
  define h where "h = hold es st"
  define st' where "st' = h(es ! k := (h (es ! k))\<lparr>pending := pending (h (es ! k)) - 1\<rparr>)"
  have "take_pending es 0 h = Some (0 + k, st')"
    unfolding st'_def using k by (intro take_pending_Some) (simp_all add: h_def)
  moreover have "foldM lock_event es st = Some h"
    unfolding h_def using assms(2) by (intro lock_all [OF assms(1)]) blast
  ultimately have "event_await env es block st = Some (int k, st')"
    by (simp add: event_await_def)
  moreover have "pending (st' (es ! k)) = pending (st (es ! k)) - 1"
    by (simp add: st'_def h_def)
  moreover have "event_trigger e st' = None" if "e \<in> set es" for e
  proof -
    have "event_lock (st' e) = lock_held (event_lock (st e))" using that by (auto simp: st'_def h_def hold_def)
    then have "LOCK (event_lock (st' e)) = None"
      using assms(2) that by (intro LOCK_busy) (simp_all add: lock_held_def or_1_word_simps)
    then show ?thesis by (simp add: event_trigger_def lock_event_def)
  qed
  ultimately show ?thesis
    using k by (intro exI [of _ k] exI [of _ st'] conjI ballI) simp_all
qed

theorem event_await_keeps_locks_witness:
  "\<exists>st'. event_await (\<lambda>_ st. st) [0, 1] False demo_events = Some (1, st') \<and> event_trigger 0 st' = None"
proof -
  obtain i st' where i: "event_await (\<lambda>_ st. st) [0, 1] False demo_events = Some (int i, st')" "i < 2"
    "pending (demo_events ([0, 1] ! i)) \<noteq> 0" "\<forall>e\<in>set [0, 1]. event_trigger e st' = None"
    using event_await_keeps_locks [of "[0, 1]" demo_events 1 "\<lambda>_ st. st" False]
    by auto
  moreover from i(2,3) have "i = 1" by (cases i) auto
  ultimately show ?thesis by auto
qed

end
