(* ===== verification/Bytes.thy ===== *)
theory Bytes
  imports Memory
begin

text \<open>
  Fields of packed C structures inside byte lists: little-endian reads and writes of 16
  and 32 bits at a byte offset, and replacement of a range of bytes. The file systems, the
  partition table and the executable loader read their on-disk structures with them.
  A read past the end of the list yields zero bytes.
\<close>

definition byte_at :: "u8 list \<Rightarrow> nat \<Rightarrow> u8" where
  "byte_at bs i = (if i < length bs then bs ! i else 0)"

definition get16 :: "u8 list \<Rightarrow> nat \<Rightarrow> u16" where
  "get16 bs i = ucast (byte_at bs i) OR push_bit 8 (ucast (byte_at bs (i + 1)))"

definition get32 :: "u8 list \<Rightarrow> nat \<Rightarrow> u32" where
  "get32 bs i = ucast (get16 bs i) OR push_bit 16 (ucast (get16 bs (i + 2)))"

definition get64 :: "u8 list \<Rightarrow> nat \<Rightarrow> u64" where
  "get64 bs i = ucast (get32 bs i) OR push_bit 32 (ucast (get32 bs (i + 4)))"

definition put_list :: "u8 list \<Rightarrow> nat \<Rightarrow> u8 list \<Rightarrow> u8 list" where
  "put_list bs i xs = take i bs @ xs @ drop (i + length xs) bs"

definition put16 :: "u8 list \<Rightarrow> nat \<Rightarrow> u16 \<Rightarrow> u8 list" where
  "put16 bs i v = put_list bs i [ucast v, ucast (drop_bit 8 v)]"

definition put32 :: "u8 list \<Rightarrow> nat \<Rightarrow> u32 \<Rightarrow> u8 list" where
  "put32 bs i v = put_list bs i [ucast v, ucast (drop_bit 8 v), ucast (drop_bit 16 v), ucast (drop_bit 24 v)]"

lemma length_put_list [simp]: "i + length xs \<le> length bs \<Longrightarrow> length (put_list bs i xs) = length bs"
  by (simp add: put_list_def)

lemma length_put16 [simp]: "i + 2 \<le> length bs \<Longrightarrow> length (put16 bs i v) = length bs"
  by (simp add: put16_def)

lemma length_put32 [simp]: "i + 4 \<le> length bs \<Longrightarrow> length (put32 bs i v) = length bs"
  by (simp add: put32_def)

lemma nth_put_list:
  assumes "i + length xs \<le> length bs" and "k < length bs"
  shows "put_list bs i xs ! k = (if i \<le> k \<and> k < i + length xs then xs ! (k - i) else bs ! k)"
  using assms by (auto simp: put_list_def nth_append)

lemma byte_at_put_list:
  assumes "i + length xs \<le> length bs"
  shows "byte_at (put_list bs i xs) k = (if i \<le> k \<and> k < i + length xs then xs ! (k - i) else byte_at bs k)"
  using assms by (auto simp: byte_at_def nth_put_list)

lemma byte_at_append: "byte_at (xs @ ys) i = (if i < length xs then byte_at xs i else byte_at ys (i - length xs))"
  by (auto simp: byte_at_def nth_append)

lemma get16_bytes:
  assumes "byte_at bs i = ucast v" and "byte_at bs (i + 1) = ucast (drop_bit 8 v)"
  shows "get16 bs i = (v :: u16)"
proof (rule bit_word_eqI)
  fix n assume "n < LENGTH(16)"
  then show "bit (get16 bs i) n = bit v n"
    using assms by (cases "n < 8") (auto simp: get16_def bit_simps)
qed

lemma get32_bytes:
  assumes "byte_at bs i = ucast v" and "byte_at bs (i + 1) = ucast (drop_bit 8 v)"
    and "byte_at bs (i + 2) = ucast (drop_bit 16 v)" and "byte_at bs (i + 3) = ucast (drop_bit 24 v)"
  shows "get32 bs i = (v :: u32)"
proof (rule bit_word_eqI)
  fix n assume n: "n < LENGTH(32)"
  have eqs: "byte_at bs (Suc i) = ucast (drop_bit 8 v)" "byte_at bs (Suc (Suc i)) = ucast (drop_bit 16 v)"
    "byte_at bs (Suc (Suc (Suc i))) = ucast (drop_bit 24 v)"
    using assms(2-4) by (simp_all add: numeral_2_eq_2 numeral_3_eq_3)
  consider "n < 8" | "8 \<le> n" "n < 16" | "16 \<le> n" "n < 24" | "24 \<le> n" "n < 32"
    using n by fastforce
  then show "bit (get32 bs i) n = bit v n"
    by cases (auto simp: get32_def get16_def assms(1) eqs bit_simps)
qed

lemma get16_put16 [simp]: "i + 2 \<le> length bs \<Longrightarrow> get16 (put16 bs i v) i = v"
  by (rule get16_bytes) (simp_all add: put16_def byte_at_put_list)

lemma get32_put32 [simp]: "i + 4 \<le> length bs \<Longrightarrow> get32 (put32 bs i v) i = v"
  by (rule get32_bytes) (simp_all add: put32_def byte_at_put_list)

lemma get16_put_other:
  "i + length xs \<le> length bs \<Longrightarrow> j + 2 \<le> i \<or> i + length xs \<le> j \<Longrightarrow> get16 (put_list bs i xs) j = get16 bs j"
  by (auto simp: get16_def byte_at_put_list)

lemma get32_put_other:
  "i + length xs \<le> length bs \<Longrightarrow> j + 4 \<le> i \<or> i + length xs \<le> j \<Longrightarrow> get32 (put_list bs i xs) j = get32 bs j"
  by (auto simp: get32_def get16_put_other)

lemma take_put_list [simp]: "i \<le> length bs \<Longrightarrow> take i (put_list bs i xs) = take i bs"
  by (simp add: put_list_def)

lemma put_list_0: "length xs = length bs \<Longrightarrow> put_list bs 0 xs = xs"
  by (simp add: put_list_def)

end
