(* ===== verification/Device.thy ===== *)
theory Device
  imports Bytes
begin

text \<open>
  Block and character devices, \<^verbatim>\<open>src/src/kernel/dev/device.c\<close>, and the partition table
  reader \<^verbatim>\<open>src/src/kernel/drivers/mbr.c\<close>. A device is its structure with the driver's read
  and write functions as fields; the drivers' state (the disk) has type \<^typ>\<open>'d\<close> and is passed
  along. A driver call gets a start block and a block count; a read gives the bytes it stores
  in the caller's buffer.
\<close>

section \<open>Devices\<close>

abbreviation S_IFMT :: "'a::len word" where "S_IFMT \<equiv> 0xf000"
abbreviation S_IFREG :: "'a::len word" where "S_IFREG \<equiv> 0x8000"
abbreviation S_IFBLK :: "'a::len word" where "S_IFBLK \<equiv> 0x6000"
abbreviation S_IFDIR :: "'a::len word" where "S_IFDIR \<equiv> 0x4000"
abbreviation S_IFCHR :: "'a::len word" where "S_IFCHR \<equiv> 0x2000"
abbreviation S_IFIFO :: "'a::len word" where "S_IFIFO \<equiv> 0x1000"

definition S_ISCHR :: "'a::len word \<Rightarrow> bool" where "S_ISCHR n \<longleftrightarrow> n AND S_IFMT = S_IFCHR"
definition S_ISBLK :: "'a::len word \<Rightarrow> bool" where "S_ISBLK n \<longleftrightarrow> n AND S_IFMT = S_IFBLK"
definition S_ISDIR :: "'a::len word \<Rightarrow> bool" where "S_ISDIR n \<longleftrightarrow> n AND S_IFMT = S_IFDIR"
definition S_ISREG :: "'a::len word \<Rightarrow> bool" where "S_ISREG n \<longleftrightarrow> n AND S_IFMT = S_IFREG"

record 'd device_t =
  dev_name :: cstring
  dev_type :: u64
  dev_id :: u64
  dev_read :: "u64 \<Rightarrow> u64 \<Rightarrow> 'd \<Rightarrow> int \<times> u8 list \<times> 'd"
  dev_write :: "u64 \<Rightarrow> u64 \<Rightarrow> u8 list \<Rightarrow> 'd \<Rightarrow> int \<times> 'd"
  dev_block_size :: u64
  dev_block_count :: u64

text \<open>The table of devices, a vector of pointers.\<close>

definition device_add :: "'d device_t \<Rightarrow> 'd device_t list \<Rightarrow> int \<times> 'd device_t list" where
  "device_add dev devices = (int (length (devices @ [dev])) - 1, devices @ [dev])"

definition device_get_by_id :: "u32 \<Rightarrow> 'd device_t list \<Rightarrow> 'd device_t option" where
  "device_get_by_id i devices = find (\<lambda>d. dev_id d = ucast i) devices"

text \<open>\<^verbatim>\<open>device_get\<close> does not check the index; \<^const>\<open>None\<close> is a read outside the table.\<close>

definition device_get :: "u32 \<Rightarrow> 'd device_t list \<Rightarrow> 'd device_t option" where
  "device_get i devices = (if unat i < length devices then Some (devices ! unat i) else None)"

text \<open>The macro \<^verbatim>\<open>MIN\<close>.\<close>

definition u64_min :: "u64 \<Rightarrow> u64 \<Rightarrow> u64" where
  "u64_min x y = (if x < y then x else y)"

text \<open>
  \<^verbatim>\<open>device_read\<close> and \<^verbatim>\<open>device_write\<close> work in three stages: up to the next block boundary, whole
  blocks, and the rest of the last block. A stage passes on the start, the count still
  to do, and the state.
\<close>

definition read_head :: "'d device_t \<Rightarrow> u64 \<Rightarrow> u64 \<Rightarrow> 'd \<Rightarrow> u8 list \<times> u64 \<times> u64 \<times> 'd" where
  "read_head dev start count s =
     (let bs = dev_block_size dev in
      if start mod bs \<noteq> 0 then
        let len = u64_min (bs - start mod bs) count
        in case dev_read dev (start div bs) 1 s of (_, nbuf, s) \<Rightarrow>
             (take (unat len) (drop (unat (start mod bs)) nbuf), start + len, count - len, s)
      else ([], start, count, s))"

definition read_blocks :: "'d device_t \<Rightarrow> u64 \<Rightarrow> u64 \<Rightarrow> 'd \<Rightarrow> u8 list \<times> u64 \<times> u64 \<times> 'd" where
  "read_blocks dev start count s =
     (let bs = dev_block_size dev; blocks = count div bs in
      if blocks \<noteq> 0 then
        case dev_read dev (start div bs) blocks s of (_, buf, s) \<Rightarrow>
          (buf, start + blocks * bs, count - blocks * bs, s)
      else ([], start, count, s))"

definition read_tail :: "'d device_t \<Rightarrow> u64 \<Rightarrow> u64 \<Rightarrow> 'd \<Rightarrow> u8 list \<times> 'd" where
  "read_tail dev start count s =
     (let bs = dev_block_size dev; e = count mod bs in
      if e \<noteq> 0 then
        case dev_read dev (start div bs) 1 s of (_, nbuf, s) \<Rightarrow>
          (take (unat e) (drop (unat (start mod bs)) nbuf), s)
      else ([], s))"

definition device_read :: "'d device_t \<Rightarrow> u64 \<Rightarrow> u64 \<Rightarrow> 'd \<Rightarrow> int \<times> u8 list \<times> 'd" where
  "device_read dev start count s =
     (if S_ISBLK (dev_type dev) then
        case read_head dev start count s of (b1, start1, count1, s1) \<Rightarrow>
        if start mod dev_block_size dev \<noteq> 0 \<and> count1 = 0 then (0, b1, s1)
        else case read_blocks dev start1 count1 s1 of (b2, start2, count2, s2) \<Rightarrow>
        if count1 div dev_block_size dev \<noteq> 0 \<and> count2 = 0 then (0, b1 @ b2, s2)
        else case read_tail dev start2 count2 s2 of (b3, s3) \<Rightarrow> (0, b1 @ b2 @ b3, s3)
      else if S_ISCHR (dev_type dev) then dev_read dev start count s
      else (1, [], s))"

definition write_head :: "'d device_t \<Rightarrow> u64 \<Rightarrow> u8 list \<Rightarrow> 'd \<Rightarrow> u8 list \<times> u64 \<times> 'd" where
  "write_head dev start buf s =
     (let bs = dev_block_size dev in
      if start mod bs \<noteq> 0 then
        let len = u64_min (bs - start mod bs) (of_nat (length buf))
        in case dev_read dev (start div bs) 1 s of (_, nbuf, s) \<Rightarrow>
           case dev_write dev (start div bs) 1
                  (put_list nbuf (unat (start mod bs)) (take (unat len) buf)) s of (_, s) \<Rightarrow>
             (drop (unat len) buf, start + len, s)
      else (buf, start, s))"

definition write_blocks :: "'d device_t \<Rightarrow> u64 \<Rightarrow> u8 list \<Rightarrow> 'd \<Rightarrow> u8 list \<times> u64 \<times> 'd" where
  "write_blocks dev start buf s =
     (let bs = dev_block_size dev; blocks = of_nat (length buf) div bs in
      if blocks \<noteq> 0 then
        case dev_write dev (start div bs) blocks (take (unat (blocks * bs)) buf) s of (_, s) \<Rightarrow>
          (drop (unat (blocks * bs)) buf, start + blocks * bs, s)
      else (buf, start, s))"

definition write_tail :: "'d device_t \<Rightarrow> u64 \<Rightarrow> u8 list \<Rightarrow> 'd \<Rightarrow> 'd" where
  "write_tail dev start buf s =
     (let bs = dev_block_size dev; e = of_nat (length buf) mod bs in
      if e \<noteq> 0 then
        case dev_read dev (start div bs) 1 s of (_, nbuf, s) \<Rightarrow>
        case dev_write dev (start div bs) 1 (put_list nbuf 0 (take (unat e) buf)) s of (_, s) \<Rightarrow> s
      else s)"

text \<open>The bytes to write are the buffer, its length the count.\<close>

definition device_write :: "'d device_t \<Rightarrow> u64 \<Rightarrow> u8 list \<Rightarrow> 'd \<Rightarrow> int \<times> 'd" where
  "device_write dev start buf s =
     (if S_ISBLK (dev_type dev) then
        case write_head dev start buf s of (buf1, start1, s1) \<Rightarrow>
        if start mod dev_block_size dev \<noteq> 0 \<and> buf1 = [] then (0, s1)
        else case write_blocks dev start1 buf1 s1 of (buf2, start2, s2) \<Rightarrow>
        if of_nat (length buf1) div dev_block_size dev \<noteq> 0 \<and> buf2 = [] then (0, s2)
        else (0, write_tail dev start2 buf2 s2)
      else if S_ISCHR (dev_type dev) then dev_write dev start (of_nat (length buf)) buf s
      else (1, s))"


section \<open>The partition table\<close>

record partition_layout_t =
  partition_number :: u8
  sector_start :: u32
  length_in_sectors :: u32

text \<open>Entry \<open>num\<close> of the table at byte \<^verbatim>\<open>0x1be\<close> of the boot sector, 16 bytes each.\<close>

definition probe_mbr :: "'d device_t \<Rightarrow> nat \<Rightarrow> 'd \<Rightarrow> partition_layout_t option \<times> 'd" where
  "probe_mbr dev num s =
     (case dev_read dev 0 1 s of (_, boot_sec, s) \<Rightarrow>
        let p = 0x1be + 16 * num in
        if byte_at boot_sec (p + 4) = 0 then (None, s)
        else (Some \<lparr>partition_number = of_nat num, sector_start = get32 boot_sec (p + 8),
                    length_in_sectors = get32 boot_sec (p + 12)\<rparr>, s))"


section \<open>Byte ranges of a block device\<close>

text \<open>
  A block driver over a byte image: reading blocks gives their bytes and changes nothing,
  writing blocks replaces their bytes and nothing else.
\<close>

definition img_bytes :: "(nat \<Rightarrow> u8) \<Rightarrow> nat \<Rightarrow> nat \<Rightarrow> u8 list" where
  "img_bytes im off n = map im [off..<off + n]"

definition img_write :: "(nat \<Rightarrow> u8) \<Rightarrow> nat \<Rightarrow> u8 list \<Rightarrow> nat \<Rightarrow> u8" where
  "img_write im off bs = (\<lambda>k. if off \<le> k \<and> k < off + length bs then bs ! (k - off) else im k)"

definition block_driver :: "'d device_t \<Rightarrow> ('d \<Rightarrow> nat \<Rightarrow> u8) \<Rightarrow> bool" where
  "block_driver dev img \<longleftrightarrow>
     S_ISBLK (dev_type dev) \<and> dev_block_size dev \<noteq> 0 \<and>
     (\<forall>b n s. snd (dev_read dev b n s) =
          (img_bytes (img s) (unat b * unat (dev_block_size dev)) (unat n * unat (dev_block_size dev)), s)) \<and>
     (\<forall>b n buf s. length buf = unat n * unat (dev_block_size dev) \<longrightarrow>
        img (snd (dev_write dev b n buf s)) = img_write (img s) (unat b * unat (dev_block_size dev)) buf)"


lemma block_driver_read:
  assumes "block_driver dev img"
  obtains r where "dev_read dev b n s =
    (r, img_bytes (img s) (unat b * unat (dev_block_size dev)) (unat n * unat (dev_block_size dev)), s)"
  using assms that [of "fst (dev_read dev b n s)"] by (auto simp: block_driver_def prod_eq_iff)

lemma block_driver_write:
  assumes "block_driver dev img" and "length buf = unat n * unat (dev_block_size dev)"
  obtains r s' where "dev_write dev b n buf s = (r, s')"
    "img s' = img_write (img s) (unat b * unat (dev_block_size dev)) buf"
  using assms that [of "fst (dev_write dev b n buf s)" "snd (dev_write dev b n buf s)"]
  by (auto simp: block_driver_def)

lemma length_img_bytes [simp]: "length (img_bytes im off n) = n"
  by (simp add: img_bytes_def)

lemma img_bytes_append: "img_bytes im off m @ img_bytes im (off + m) n = img_bytes im off (m + n)"
  unfolding img_bytes_def by (metis add.assoc le_add1 map_append upt_add_eq_append)

lemma img_bytes_0 [simp]: "img_bytes im off 0 = []"
  by (simp add: img_bytes_def)

lemma take_drop_img_bytes: "i + k \<le> n \<Longrightarrow> take k (drop i (img_bytes im off n)) = img_bytes im (off + i) k"
  by (simp add: img_bytes_def take_map drop_map drop_upt take_upt)

lemma unat_u64_min: "unat (u64_min x y) = min (unat x) (unat y)"
  by (auto simp: u64_min_def word_less_nat_alt)

lemma unat_mod_le: "unat (x mod y :: u64) \<le> unat x"
  by (simp add: unat_mod)

lemma unat_sub_mod:
  fixes x y :: u64
  assumes "y \<noteq> 0"
  shows "unat (y - x mod y) = unat y - unat x mod unat y"
proof -
  have "0 < unat y" using assms by (simp add: unat_gt_0)
  then have "unat (x mod y) \<le> unat y" by (simp add: unat_mod less_imp_le)
  then show ?thesis by (simp add: nat_word unat_mod)
qed

text \<open>Each stage of a read, as the byte range it covers.\<close>

lemma read_head_range:
  assumes "block_driver dev img" and "unat start + unat count < 2 ^ 64"
  defines "B \<equiv> unat (dev_block_size dev)"
  obtains len start1 count1 where
    "read_head dev start count s = (img_bytes (img s) (unat start) len, start1, count1, s)"
    "unat start1 = unat start + len" "unat count1 = unat count - len" "len \<le> unat count"
    "count1 = 0 \<or> unat start1 mod B = 0"
proof (cases "start mod dev_block_size dev = 0")
  case True
  then have "unat start mod B = 0" by (simp add: B_def flip: unat_mod)
  with True that [of 0 start count] show thesis by (simp add: read_head_def Let_def)
next
  case False
  let ?bs = "dev_block_size dev"
  have bs: "?bs \<noteq> 0" "0 < B" using assms(1) by (simp_all add: block_driver_def B_def unat_gt_0)
  define len where "len = u64_min (?bs - start mod ?bs) count"
  have len: "unat len = min (B - unat start mod B) (unat count)"
    using bs by (simp add: len_def unat_u64_min unat_sub_mod B_def)
  have fits: "unat start mod B + unat len \<le> B"
    using len min.cobounded1 [of "B - unat start mod B" "unat count"] mod_less_divisor [OF bs(2), of "unat start"]
    by linarith
  obtain r where "dev_read dev (start div ?bs) 1 s = (r, img_bytes (img s) (unat start div B * B) B, s)"
    using block_driver_read [OF assms(1), of "start div ?bs" 1 s] by (auto simp: B_def unat_div)
  moreover have "take (unat len) (drop (unat start mod B) (img_bytes (img s) (unat start div B * B) B)) =
      img_bytes (img s) (unat start) (unat len)"
    using fits by (subst take_drop_img_bytes) simp_all
  ultimately have "read_head dev start count s =
      (img_bytes (img s) (unat start) (unat len), start + len, count - len, s)"
    using False by (simp add: read_head_def Let_def len_def unat_mod B_def)
  moreover have sum: "unat (start + len) = unat start + unat len" using assms(2) len by (simp add: nat_word)
  moreover have "unat (count - len) = unat count - unat len" using len by (simp add: nat_word)
  moreover have "count - len = 0 \<or> unat (start + len) mod B = 0"
  proof (cases "unat len = unat count")
    case True
    then have "len = count" by (simp add: word_unat_eq_iff)
    then show ?thesis by simp
  next
    case False
    then have "unat len = B - unat start mod B" using len by linarith
    moreover have "unat start mod B < B" using bs(2) by simp
    ultimately have "unat start + unat len = unat start div B * B + B"
      using div_mult_mod_eq [of "unat start" B] by linarith
    then show ?thesis unfolding sum by simp
  qed
  moreover have "unat len \<le> unat count" using len by simp
  ultimately show thesis by (intro that [of "unat len" "start + len" "count - len"])
qed

lemma read_blocks_range:
  assumes "block_driver dev img" and "unat start + unat count < 2 ^ 64"
    and "unat start mod unat (dev_block_size dev) = 0"
  defines "B \<equiv> unat (dev_block_size dev)"
  obtains start1 count1 where
    "read_blocks dev start count s = (img_bytes (img s) (unat start) (unat count div B * B), start1, count1, s)"
    "unat start1 = unat start + unat count div B * B" "unat count1 = unat count mod B"
    "unat start1 mod B = 0"
proof (cases "count div dev_block_size dev = 0")
  case True
  then have "unat count div B = 0" by (simp add: B_def flip: unat_div)
  moreover from this have "unat count mod B = unat count"
    using div_mult_mod_eq [of "unat count" B] by simp
  ultimately show thesis
    using True assms(3) that [of start count] by (simp add: read_blocks_def Let_def B_def)
next
  case False
  let ?bs = "dev_block_size dev"
  let ?k = "count div ?bs"
  have k: "unat ?k = unat count div B" by (simp add: B_def unat_div)
  have le: "unat count div B * B \<le> unat count" by simp
  then have prod: "unat (?k * ?bs) = unat count div B * B"
    using k le_less_trans [OF le, of "2 ^ 64"] by (subst unat_mult_small) (simp_all add: B_def)
  have "unat start div B * B = unat start" using assms(3) by (metis B_def add.right_neutral div_mult_mod_eq)
  then obtain r where "dev_read dev (start div ?bs) ?k s = (r, img_bytes (img s) (unat start) (unat count div B * B), s)"
    using block_driver_read [OF assms(1), of "start div ?bs" ?k s] k by (auto simp: B_def unat_div)
  then have "read_blocks dev start count s =
      (img_bytes (img s) (unat start) (unat count div B * B), start + ?k * ?bs, count - ?k * ?bs, s)"
    using False by (simp add: read_blocks_def Let_def)
  moreover have "unat (start + ?k * ?bs) = unat start + unat count div B * B"
    using prod le_less_trans [OF add_left_mono [OF le, of "unat start"]] assms(2)
    by (subst unat_add_small) simp_all
  moreover have "unat (count - ?k * ?bs) = unat count mod B"
    using prod le by (subst unat_sub_small) (simp_all add: minus_div_mult_eq_mod)
  moreover have "(unat start + unat count div B * B) mod B = 0"
    using assms(3) by (simp add: B_def)
  ultimately show thesis by (intro that [of "start + ?k * ?bs"]) simp_all
qed

lemma read_tail_range:
  assumes "block_driver dev img" and "unat start mod unat (dev_block_size dev) = 0"
    and "unat count < unat (dev_block_size dev)"
  shows "read_tail dev start count s = (img_bytes (img s) (unat start) (unat count), s)"
proof (cases "count mod dev_block_size dev = 0")
  case True
  then have "unat count = 0" using assms(3) by (simp add: word_unat_eq_iff unat_mod)
  with True show ?thesis by (simp add: read_tail_def)
next
  case False
  let ?bs = "dev_block_size dev"
  have e: "unat (count mod ?bs) = unat count" using assms(3) by (simp add: unat_mod)
  have "unat start div unat ?bs * unat ?bs = unat start" using assms(2) by (metis add.right_neutral div_mult_mod_eq)
  then obtain r where "dev_read dev (start div ?bs) 1 s = (r, img_bytes (img s) (unat start) (unat ?bs), s)"
    using block_driver_read [OF assms(1), of "start div ?bs" 1 s] by (auto simp: unat_div)
  with False e assms(2,3) show ?thesis
    by (simp add: read_tail_def Let_def unat_mod take_drop_img_bytes [where i = 0, simplified])
qed


lemma device_read_range:
  assumes "block_driver dev img" and "unat start + unat count < 2 ^ 64"
  shows "device_read dev start count s = (0, img_bytes (img s) (unat start) (unat count), s)"
proof -
  let ?B = "unat (dev_block_size dev)"
  have blk: "S_ISBLK (dev_type dev)" "0 < ?B" using assms(1) by (simp_all add: block_driver_def unat_gt_0)
  obtain len start1 count1 where h: "read_head dev start count s = (img_bytes (img s) (unat start) len, start1, count1, s)"
    "unat start1 = unat start + len" "unat count1 = unat count - len" "len \<le> unat count"
    "count1 = 0 \<or> unat start1 mod ?B = 0"
    using read_head_range [OF assms] by blast
  show ?thesis
  proof (cases "start mod dev_block_size dev \<noteq> 0 \<and> count1 = 0")
    case True
    then have "len = unat count" using h by simp
    with True h(1) blk show ?thesis by (simp add: device_read_def)
  next
    case False
    have al: "unat start1 mod ?B = 0"
    proof (cases "start mod dev_block_size dev = 0")
      case True
      then have "start1 = start" using h(1) by (simp add: read_head_def Let_def)
      with True show ?thesis by (simp flip: unat_mod)
    next
      case False
      then show ?thesis using h(5) \<open>\<not> (_ \<and> count1 = 0)\<close> by blast
    qed
    have small: "unat start1 + unat count1 < 2 ^ 64" using h assms(2) by simp
    obtain start2 count2 where b: "read_blocks dev start1 count1 s =
        (img_bytes (img s) (unat start1) (unat count1 div ?B * ?B), start2, count2, s)"
      "unat start2 = unat start1 + unat count1 div ?B * ?B" "unat count2 = unat count1 mod ?B"
      "unat start2 mod ?B = 0"
      using read_blocks_range [OF assms(1) small al] by blast
    have t: "read_tail dev start2 count2 s = (img_bytes (img s) (unat start2) (unat count2), s)"
      using b blk by (intro read_tail_range [OF assms(1)]) simp_all
    have whole: "img_bytes (img s) (unat start) len @ img_bytes (img s) (unat start1) (unat count1 div ?B * ?B) @
        img_bytes (img s) (unat start2) (unat count2) = img_bytes (img s) (unat start) (unat count)"
      using h(2-4) b(2,3) by (simp add: img_bytes_append)
    have "device_read dev start count s =
        (if count1 div dev_block_size dev \<noteq> 0 \<and> count2 = 0
         then (0, img_bytes (img s) (unat start) len @ img_bytes (img s) (unat start1) (unat count1 div ?B * ?B), s)
         else (0, img_bytes (img s) (unat start) (unat count), s))"
      unfolding device_read_def h(1) prod.case if_not_P [OF False] b(1) t if_P [OF blk(1)] whole ..
    then show ?thesis using whole by (cases "count2 = 0") simp_all
  qed
qed

lemma img_write_block:
  assumes "i + length xs \<le> n"
  shows "img_write im off (put_list (img_bytes im off n) i xs) = img_write im (off + i) xs"
  using assms by (auto simp: img_write_def nth_put_list img_bytes_def fun_eq_iff)

lemma img_write_append:
  "img_write (img_write im off xs) (off + length xs) ys = img_write im off (xs @ ys)"
  by (auto simp: img_write_def nth_append fun_eq_iff)

lemma img_write_Nil [simp]: "img_write im off [] = im"
  by (rule ext) (auto simp: img_write_def)

lemma write_head_range:
  assumes "block_driver dev img" and "unat start + length buf < 2 ^ 64"
  defines "B \<equiv> unat (dev_block_size dev)"
  obtains len start1 s1 where
    "write_head dev start buf s = (drop len buf, start1, s1)" "len \<le> length buf"
    "unat start1 = unat start + len" "img s1 = img_write (img s) (unat start) (take len buf)"
    "drop len buf = [] \<or> unat start1 mod B = 0"
proof (cases "start mod dev_block_size dev = 0")
  case True
  then have "unat start mod B = 0" by (simp add: B_def flip: unat_mod)
  with True that [of 0 start s] show thesis by (simp add: write_head_def Let_def)
next
  case False
  let ?bs = "dev_block_size dev"
  have bs: "?bs \<noteq> 0" "0 < B" using assms(1) by (simp_all add: block_driver_def B_def unat_gt_0)
  define len where "len = u64_min (?bs - start mod ?bs) (of_nat (length buf))"
  have "unat (of_nat (length buf) :: u64) = length buf" using assms(2) by (intro unat_of_nat_id) simp
  then have len: "unat len = min (B - unat start mod B) (length buf)"
    using bs by (simp add: len_def unat_u64_min unat_sub_mod B_def)
  have md: "unat start mod B < B" using bs(2) by simp
  have fits: "unat start mod B + unat len \<le> B"
    using len min.cobounded1 [of "B - unat start mod B" "length buf"] md by linarith
  obtain r where rd: "dev_read dev (start div ?bs) 1 s = (r, img_bytes (img s) (unat start div B * B) B, s)"
    using block_driver_read [OF assms(1), of "start div ?bs" 1 s] by (auto simp: B_def unat_div)
  let ?new = "put_list (img_bytes (img s) (unat start div B * B) B) (unat start mod B) (take (unat len) buf)"
  have lt: "length (take (unat len) buf) = unat len" using len by simp
  have "length ?new = unat (1 :: u64) * B" using fits lt by simp
  then obtain r' s1 where wr: "dev_write dev (start div ?bs) 1 ?new s = (r', s1)"
    "img s1 = img_write (img s) (unat start div B * B) ?new"
    using block_driver_write [OF assms(1), of ?new 1 "start div ?bs" s] by (auto simp: B_def unat_div)
  have "img s1 = img_write (img s) (unat start) (take (unat len) buf)"
    using wr(2) fits lt by (subst (asm) img_write_block) simp_all
  moreover have "write_head dev start buf s = (drop (unat len) buf, start + len, s1)"
    using False rd wr(1) by (simp add: write_head_def Let_def len_def unat_mod B_def)
  moreover have sum: "unat (start + len) = unat start + unat len" using assms(2) len by (simp add: nat_word)
  moreover have "drop (unat len) buf = [] \<or> unat (start + len) mod B = 0"
  proof (cases "unat len = length buf")
    case False
    then have "unat len = B - unat start mod B" using len by linarith
    then have "unat start + unat len = unat start div B * B + B"
      using div_mult_mod_eq [of "unat start" B] md by linarith
    then show ?thesis unfolding sum by simp
  qed simp
  moreover have "unat len \<le> length buf" using len by simp
  ultimately show thesis by (intro that [of "unat len" "start + len" s1])
qed

lemma write_blocks_range:
  assumes "block_driver dev img" and "unat start + length buf < 2 ^ 64"
    and "unat start mod unat (dev_block_size dev) = 0"
  defines "B \<equiv> unat (dev_block_size dev)"
  obtains start1 s1 where
    "write_blocks dev start buf s = (drop (length buf div B * B) buf, start1, s1)"
    "unat start1 = unat start + length buf div B * B" "unat start1 mod B = 0"
    "img s1 = img_write (img s) (unat start) (take (length buf div B * B) buf)"
proof -
  let ?bs = "dev_block_size dev" and ?n = "of_nat (length buf) :: u64"
  have n: "unat ?n = length buf" using assms(2) by (intro unat_of_nat_id) simp
  let ?k = "?n div ?bs"
  have k: "unat ?k = length buf div B" by (simp add: B_def unat_div n)
  have le: "length buf div B * B \<le> length buf" by simp
  then have prod: "unat (?k * ?bs) = length buf div B * B"
    using k le_less_trans [OF le, of "2 ^ 64"] assms(2) by (subst unat_mult_small) (simp_all add: B_def)
  show thesis
  proof (cases "?k = 0")
    case True
    then have "length buf div B = 0" using k by simp
    with True assms(3) show thesis by (intro that [of start s]) (simp_all add: write_blocks_def B_def)
  next
    case False
    have "unat start div B * B = unat start" using assms(3) by (metis B_def add.right_neutral div_mult_mod_eq)
    moreover have "length (take (length buf div B * B) buf) = unat ?k * unat ?bs"
      using k by (simp add: B_def)
    ultimately obtain r s1 where wr: "dev_write dev (start div ?bs) ?k (take (length buf div B * B) buf) s = (r, s1)"
      "img s1 = img_write (img s) (unat start) (take (length buf div B * B) buf)"
      using block_driver_write [OF assms(1), of "take (length buf div B * B) buf" ?k "start div ?bs" s]
      by (auto simp: B_def unat_div)
    have "write_blocks dev start buf s = (drop (length buf div B * B) buf, start + ?k * ?bs, s1)"
      using False wr(1) prod by (simp add: write_blocks_def Let_def)
    moreover have "unat (start + ?k * ?bs) = unat start + length buf div B * B"
      using prod le_less_trans [OF add_left_mono [OF le, of "unat start"]] assms(2)
      by (subst unat_add_small) simp_all
    moreover have "(unat start + length buf div B * B) mod B = 0" using assms(3) by (simp add: B_def)
    ultimately show thesis using wr(2) by (intro that [of "start + ?k * ?bs" s1]) simp_all
  qed
qed

lemma write_tail_range:
  assumes "block_driver dev img" and "unat start mod unat (dev_block_size dev) = 0"
    and "length buf < unat (dev_block_size dev)"
  shows "img (write_tail dev start buf s) = img_write (img s) (unat start) buf"
proof -
  let ?bs = "dev_block_size dev" and ?n = "of_nat (length buf) :: u64"
  have n: "unat ?n = length buf" using less_trans [OF assms(3) unat_lt64] by (intro unat_of_nat_id) simp
  have e: "unat (?n mod ?bs) = length buf" using assms(3) n by (simp add: unat_mod)
  show ?thesis
  proof (cases "?n mod ?bs = 0")
    case True
    then have "buf = []" using e by simp
    with True show ?thesis by (simp add: write_tail_def)
  next
    case False
    have st: "unat start div unat ?bs * unat ?bs = unat start" using assms(2) by (metis add.right_neutral div_mult_mod_eq)
    then obtain r where rd: "dev_read dev (start div ?bs) 1 s = (r, img_bytes (img s) (unat start) (unat ?bs), s)"
      using block_driver_read [OF assms(1), of "start div ?bs" 1 s] by (auto simp: unat_div)
    let ?new = "put_list (img_bytes (img s) (unat start) (unat ?bs)) 0 buf"
    obtain r' s1 where "dev_write dev (start div ?bs) 1 ?new s = (r', s1)"
      "img s1 = img_write (img s) (unat start) ?new"
      using block_driver_write [OF assms(1), of ?new 1 "start div ?bs" s] st assms(3) by (auto simp: unat_div)
    with False rd e assms(3) show ?thesis
      by (simp add: write_tail_def Let_def img_write_block)
  qed
qed


lemma device_write_range:
  assumes "block_driver dev img" and "unat start + length buf < 2 ^ 64"
  shows "\<exists>s'. device_write dev start buf s = (0, s') \<and> img s' = img_write (img s) (unat start) buf"
proof -
  let ?B = "unat (dev_block_size dev)"
  have blk: "S_ISBLK (dev_type dev)" "0 < ?B" using assms(1) by (simp_all add: block_driver_def unat_gt_0)
  obtain len start1 s1 where h: "write_head dev start buf s = (drop len buf, start1, s1)" "len \<le> length buf"
    "unat start1 = unat start + len" "img s1 = img_write (img s) (unat start) (take len buf)"
    "drop len buf = [] \<or> unat start1 mod ?B = 0"
    using write_head_range [OF assms] by blast
  show ?thesis
  proof (cases "start mod dev_block_size dev \<noteq> 0 \<and> drop len buf = []")
    case True
    then have "device_write dev start buf s = (0, s1)"
      unfolding device_write_def h(1) prod.case if_P [OF blk(1)] by (rule if_P)
    with True h(4) show ?thesis by simp
  next
    case False
    have al: "unat start1 mod ?B = 0"
    proof (cases "start mod dev_block_size dev = 0")
      case True
      then have "start1 = start" using h(1) by (simp add: write_head_def Let_def)
      with True show ?thesis by (simp flip: unat_mod)
    next
      case 2: False
      then show ?thesis using h(5) False by blast
    qed
    let ?buf1 = "drop len buf"
    let ?m = "length ?buf1 div ?B * ?B"
    have small: "unat start1 + length ?buf1 < 2 ^ 64" using h assms(2) by simp
    obtain start2 s2 where b: "write_blocks dev start1 ?buf1 s1 = (drop ?m ?buf1, start2, s2)"
      "unat start2 = unat start1 + ?m" "unat start2 mod ?B = 0"
      "img s2 = img_write (img s1) (unat start1) (take ?m ?buf1)"
      using write_blocks_range [OF assms(1) small al] by blast
    have "length (drop ?m ?buf1) < ?B"
      unfolding length_drop [of ?m] minus_div_mult_eq_mod using blk(2) by (rule mod_less_divisor)
    then have t: "img (write_tail dev start2 (drop ?m ?buf1) s2) = img_write (img s2) (unat start2) (drop ?m ?buf1)"
      using b(3) by (intro write_tail_range [OF assms(1)])
    have two: "img_write (img s1) (unat start1) (take ?m ?buf1 @ drop ?m ?buf1) =
        img_write (img s2) (unat start2) (drop ?m ?buf1)"
      using b(2,4) img_write_append [of "img s1" "unat start1" "take ?m ?buf1" "drop ?m ?buf1"] by simp
    have all: "img_write (img s1) (unat start1) ?buf1 = img_write (img s) (unat start) buf"
      using h(2-4) img_write_append [of "img s" "unat start" "take len buf" ?buf1] by simp
    have "device_write dev start buf s =
        (if of_nat (length ?buf1) div dev_block_size dev \<noteq> 0 \<and> drop ?m ?buf1 = [] then (0, s2)
         else (0, write_tail dev start2 (drop ?m ?buf1) s2))"
      unfolding device_write_def h(1) prod.case if_not_P [OF False] b(1) if_P [OF blk(1)] ..
    moreover have "img s2 = img_write (img s) (unat start) buf" if "drop ?m ?buf1 = []"
      using two all that by simp
    moreover have "img (write_tail dev start2 (drop ?m ?buf1) s2) = img_write (img s) (unat start) buf"
      using t two all by (simp only: append_take_drop_id)
    ultimately show ?thesis by (cases "drop ?m ?buf1 = []") simp_all
  qed
qed


section \<open>Properties\<close>

text \<open>
  C10: On a block driver over a byte image, \<^verbatim>\<open>device_read\<close> at any offset and of any length,
  aligned to blocks or not, returns exactly the bytes of that range and leaves the device
  as it was.
\<close>

theorem device_read_bytes:
  assumes "block_driver dev img" and "unat start + unat count < 2 ^ 64"
  shows "device_read dev start count s = (0, img_bytes (img s) (unat start) (unat count), s)"
  using assms by (rule device_read_range)

text \<open>A memory disk: the state is the image itself.\<close>

definition ram_disk :: "(nat \<Rightarrow> u8) device_t" where
  "ram_disk = \<lparr>dev_name = [], dev_type = S_IFBLK, dev_id = 0,
     dev_read = (\<lambda>b n im. (0, img_bytes im (unat b * 512) (unat n * 512), im)),
     dev_write = (\<lambda>b n buf im. (0, img_write im (unat b * 512) buf)),
     dev_block_size = 512, dev_block_count = 0\<rparr>"

lemma ram_disk_driver [simp]: "block_driver ram_disk (\<lambda>im. im)"
  by (simp add: block_driver_def ram_disk_def S_ISBLK_def)

theorem device_read_bytes_witness:
  "device_read ram_disk 510 4 of_nat = (0, [254, 255, 0, 1], of_nat)"
  using device_read_bytes [of ram_disk "\<lambda>im. im" 510 4 of_nat] by (simp add: img_bytes_def upt_rec)

text \<open>
  C11: On such a driver \<^verbatim>\<open>device_write\<close> replaces exactly the bytes of the range it is given, also
  when the range starts or ends inside a block, and a \<^verbatim>\<open>device_read\<close> of the range then gives
  back what was written.
\<close>

theorem device_write_bytes:
  assumes "block_driver dev img" and "unat start + length buf < 2 ^ 64" and "unat count = length buf"
  shows "\<exists>s'. device_write dev start buf s = (0, s') \<and> img s' = img_write (img s) (unat start) buf \<and>
    device_read dev start count s' = (0, buf, s')"
proof -
  obtain s' where s': "device_write dev start buf s = (0, s')" "img s' = img_write (img s) (unat start) buf"
    using device_write_range [OF assms(1,2)] by blast
  moreover have "img_bytes (img_write (img s) (unat start) buf) (unat start) (length buf) = buf"
    by (rule nth_equalityI) (simp_all add: img_bytes_def img_write_def)
  ultimately show ?thesis
    using device_read_range [OF assms(1), of start count s'] assms(2,3) by simp
qed

theorem device_write_bytes_witness:
  "\<exists>s'. device_write ram_disk 511 [7, 8] (\<lambda>_. 0) = (0, s') \<and> s' 511 = 7 \<and> s' 512 = 8 \<and> s' 513 = 0"
  using device_write_bytes [of ram_disk "\<lambda>im. im" 511 "[7, 8]" 2 "\<lambda>_. 0"] by (auto simp: img_write_def)

end
