(* ===== verification/Vfs.thy ===== *)
theory Vfs
  imports Device Pipe Rtc "HOL-Library.Sublist"
begin

text \<open>
  The virtual file system, \<^verbatim>\<open>src/src/kernel/fs/vfs.c\<close>. Open files, pipes and mounted file
  systems are objects at heap addresses (numbers, 0 for \<^verbatim>\<open>NULL\<close>) in a store; \<^verbatim>\<open>kmalloc\<close> of
  such an object takes the next address, \<^verbatim>\<open>kfree\<close> removes the object. The function tables of
  the file systems and the devices are an environment that every operation gets, since
  in C they are reached through pointers. \<^const>\<open>None\<close> is a call that does not return or that
  follows a null or dangling pointer. Vectors are lists.
\<close>

section \<open>Data\<close>

type_synonym ptr = nat

text \<open>
  What \<^verbatim>\<open>private_data\<close> points to: the bytes of a tmpfs file, a tmpfs directory (its file,
  children and parent), or the FAT driver's record (directory entry, index, cluster and
  directory cluster).
\<close>

datatype private_data =
    PD_null
  | PD_bytes "u8 list"
  | PD_dir ptr "ptr list" ptr
  | PD_fat "u8 list" u64 u32 u32

record fs_file_t =
  f_path :: cstring
  f_uid :: int
  f_gid :: int
  f_file_ops :: ptr
  f_fs :: ptr
  f_dev :: ptr
  f_pipe :: ptr
  f_atime :: posix_time_t
  f_mtime :: posix_time_t
  f_ctime :: posix_time_t
  f_crtime :: posix_time_t
  f_ref_count :: int
  f_mode :: u32
  f_length :: u64
  f_inode :: nat
  f_private :: private_data
  f_offset :: u64

text \<open>A mounted file system; its private data is the root file (tmpfs) or the boot sector (FAT).\<close>

datatype fs_private = FP_root ptr | FP_boot "u8 list"

record fs_t =
  fs_ops :: ptr
  fs_dev :: ptr
  fs_private :: fs_private

record 'd kstate =
  files :: "ptr \<Rightarrow> fs_file_t option"
  pipes :: "ptr \<Rightarrow> pipe_t option"
  fses :: "ptr \<Rightarrow> fs_t option"
  next_ptr :: ptr
  disk :: 'd

record dirent_t =
  de_name :: cstring
  de_serial :: nat

record stat_t =
  device_id :: u64
  file_serial :: u16
  file_mode :: u32
  hardlink_count :: u16
  user_id :: u16
  group_id :: u16
  device_type :: u64
  file_size :: u64
  last_access_time :: posix_time_t
  last_modification_time :: posix_time_t
  last_status_change_time :: posix_time_t
  creation_time :: posix_time_t
  block_size :: u64
  block_count :: u64

record 'd fs_ops_t =
  fs_name :: cstring
  fso_mount :: "(ptr \<Rightarrow> 'd kstate \<Rightarrow> (ptr \<times> 'd kstate) option) option"
  fso_open :: "ptr \<Rightarrow> cstring \<Rightarrow> 'd kstate \<Rightarrow> (ptr \<times> 'd kstate) option"
  fso_mkdir :: "ptr \<Rightarrow> cstring \<Rightarrow> u32 \<Rightarrow> int \<Rightarrow> int \<Rightarrow> 'd kstate \<Rightarrow> (ptr \<times> 'd kstate) option"
  fso_create :: "ptr \<Rightarrow> cstring \<Rightarrow> u32 \<Rightarrow> int \<Rightarrow> int \<Rightarrow> 'd kstate \<Rightarrow> (ptr \<times> 'd kstate) option"
  fso_mkfifo :: "ptr \<Rightarrow> cstring \<Rightarrow> u32 \<Rightarrow> int \<Rightarrow> int \<Rightarrow> 'd kstate \<Rightarrow> (ptr \<times> 'd kstate) option"
  fso_mknod :: "ptr \<Rightarrow> cstring \<Rightarrow> u32 \<Rightarrow> int \<Rightarrow> int \<Rightarrow> ptr \<Rightarrow> 'd kstate \<Rightarrow> (ptr \<times> 'd kstate) option"

text \<open>The arguments of an \<^verbatim>\<open>mmap\<close>: page map, file slot, address, size, offset, protection, flags.\<close>

record mmap_args =
  mm_pg :: ptr
  mm_sfile :: ptr
  mm_addr :: u64
  mm_size :: u64
  mm_offset :: u64
  mm_prot :: u32
  mm_flags :: u32

record 'd file_ops_t =
  fo_read :: "ptr \<Rightarrow> u64 \<Rightarrow> u64 \<Rightarrow> 'd kstate \<Rightarrow> (int \<times> u8 list \<times> 'd kstate) option"
  fo_write :: "ptr \<Rightarrow> u8 list \<Rightarrow> u64 \<Rightarrow> 'd kstate \<Rightarrow> (int \<times> 'd kstate) option"
  fo_rmdir :: "ptr \<Rightarrow> 'd kstate \<Rightarrow> (int \<times> 'd kstate) option"
  fo_delete :: "ptr \<Rightarrow> 'd kstate \<Rightarrow> (int \<times> 'd kstate) option"
  fo_truncate :: "ptr \<Rightarrow> u64 \<Rightarrow> 'd kstate \<Rightarrow> (int \<times> 'd kstate) option"
  fo_close :: "ptr \<Rightarrow> 'd kstate \<Rightarrow> (int \<times> 'd kstate) option"
  fo_readdir :: "ptr \<Rightarrow> dirent_t \<Rightarrow> u64 \<Rightarrow> 'd kstate \<Rightarrow> (int \<times> dirent_t \<times> 'd kstate) option"
  fo_chmod :: "ptr \<Rightarrow> u32 \<Rightarrow> 'd kstate \<Rightarrow> (int \<times> 'd kstate) option"
  fo_chown :: "ptr \<Rightarrow> int \<Rightarrow> int \<Rightarrow> 'd kstate \<Rightarrow> (int \<times> 'd kstate) option"
  fo_mmap :: "(ptr \<Rightarrow> mmap_args \<Rightarrow> 'd kstate \<Rightarrow> (u64 \<times> 'd kstate) option) option"
  fo_ioctl :: "ptr \<Rightarrow> u64 \<Rightarrow> u64 \<Rightarrow> 'd kstate \<Rightarrow> (u64 \<times> 'd kstate) option"

text \<open>
  The environment: devices, the \<^verbatim>\<open>ioctl\<close> and \<^verbatim>\<open>mmap\<close> functions of devices and the function tables
  by address, the address and the initial contents of a heap block, the entries that the
  uninitialised vector of a directory record at an address describes, and the date that \<^verbatim>\<open>rtc_get_datetime\<close> reads from the clock.
\<close>

record 'd vfs_env =
  env_dev :: "ptr \<Rightarrow> 'd device_t option"
  env_ioctl :: "ptr \<Rightarrow> u64 \<Rightarrow> u64 \<Rightarrow> 'd kstate \<Rightarrow> (u64 \<times> 'd kstate) option"
  env_mmap :: "ptr \<Rightarrow> mmap_args \<Rightarrow> 'd kstate \<Rightarrow> (u64 \<times> 'd kstate) option"
  env_fops :: "ptr \<Rightarrow> 'd file_ops_t option"
  env_fsops :: "ptr \<Rightarrow> 'd fs_ops_t option"
  env_addr :: "ptr \<Rightarrow> u64"
  env_mem :: mem
  env_kids :: "ptr \<Rightarrow> ptr list"
  env_time :: datetime_t

record vfs_mount_info_t =
  mi_path :: cstring
  mi_dev :: ptr
  mi_fs :: ptr

record 'd vfs_t =
  vfs_mounts :: "vfs_mount_info_t list"
  registered_fses :: "'d fs_ops_t list"
  root_mount :: "vfs_mount_info_t option"
  dev_fs :: "ptr \<Rightarrow> ptr"

definition ISDEV :: "fs_file_t \<Rightarrow> bool" where
  "ISDEV file \<longleftrightarrow> S_ISCHR (f_mode file) \<or> S_ISBLK (f_mode file)"

definition ISFIFO :: "fs_file_t \<Rightarrow> bool" where
  "ISFIFO file \<longleftrightarrow> f_mode file AND S_IFMT = S_IFIFO"

abbreviation slash :: u8 where "slash \<equiv> 47"

text \<open>\<^verbatim>\<open>kmalloc\<close> of a file and the assignment to it; \<^verbatim>\<open>kfree\<close>.\<close>

definition new_file :: "fs_file_t \<Rightarrow> 'd kstate \<Rightarrow> ptr \<times> 'd kstate" where
  "new_file f s = (next_ptr s,
     s\<lparr>files := (files s)(next_ptr s \<mapsto> f\<lparr>f_inode := next_ptr s\<rparr>), next_ptr := next_ptr s + 1\<rparr>)"

definition free_file :: "ptr \<Rightarrow> 'd kstate \<Rightarrow> 'd kstate" where
  "free_file p s = s\<lparr>files := (files s)(p := None)\<rparr>"

definition set_file :: "ptr \<Rightarrow> fs_file_t \<Rightarrow> 'd kstate \<Rightarrow> 'd kstate" where
  "set_file p f s = s\<lparr>files := (files s)(p \<mapsto> f)\<rparr>"

section \<open>Mounting\<close>

definition vfs_is_mounted :: "'d vfs_t \<Rightarrow> cstring \<Rightarrow> bool" where
  "vfs_is_mounted v path \<longleftrightarrow> (\<exists>mi\<in>set (vfs_mounts v). mi_path mi = path)"

text \<open>The search cuts the last character off until a mount point matches.\<close>

function find_mount_loop :: "'d vfs_t \<Rightarrow> cstring \<Rightarrow> vfs_mount_info_t option" where
  "find_mount_loop v path_dup =
     (if length path_dup > 1 then
        case find (\<lambda>mi. mi_path mi = path_dup) (vfs_mounts v) of
          Some mi \<Rightarrow> Some mi
        | None \<Rightarrow> find_mount_loop v (butlast path_dup)
      else root_mount v)"
  by pat_completeness auto
termination
  by (relation "measure (\<lambda>(v, p). length p)") auto

declare find_mount_loop.simps [simp del]

definition vfs_find_mount :: "'d vfs_t \<Rightarrow> cstring \<Rightarrow> vfs_mount_info_t option" where
  "vfs_find_mount v path = (if path = cstr ''/'' then root_mount v else find_mount_loop v path)"

fun mount_fs_loop ::
  "'d fs_ops_t list \<Rightarrow> ptr \<Rightarrow> cstring option \<Rightarrow> 'd kstate \<Rightarrow> (ptr \<times> 'd kstate) option" where
  "mount_fs_loop [] dev name s = Some (0, s)"
| "mount_fs_loop (ops # rest) dev name s =
     (case fso_mount ops of
        None \<Rightarrow> mount_fs_loop rest dev name s
      | Some mount \<Rightarrow>
          if name = None \<or> name = Some (fs_name ops) then do {
            (fs, s) \<leftarrow> mount dev s;
            if fs \<noteq> 0 then Some (fs, s) else mount_fs_loop rest dev name s
          }
          else mount_fs_loop rest dev name s)"

definition vfs_mount_fs ::
  "'d vfs_t \<Rightarrow> ptr \<Rightarrow> cstring option \<Rightarrow> 'd kstate \<Rightarrow> (ptr \<times> 'd kstate) option" where
  "vfs_mount_fs v dev name s = mount_fs_loop (registered_fses v) dev name s"

definition vfs_mount ::
  "cstring \<Rightarrow> ptr \<Rightarrow> cstring option \<Rightarrow> 'd vfs_t \<Rightarrow> 'd kstate \<Rightarrow> (int \<times> 'd vfs_t \<times> 'd kstate) option" where
  "vfs_mount path dev name v s =
     (if root_mount v = None \<and> path \<noteq> cstr ''/'' then Some (1, v, s)
      else if vfs_is_mounted v path then Some (1, v, s)
      else do {
        (fs, s) \<leftarrow> vfs_mount_fs v dev name s;
        if fs = 0 then Some (1, v, s)
        else
          let mi = \<lparr>mi_path = path, mi_dev = dev, mi_fs = fs\<rparr>;
              v = v\<lparr>vfs_mounts := vfs_mounts v @ [mi]\<rparr>;
              v = (if root_mount v = None then v\<lparr>root_mount := Some mi\<rparr> else v);
              v = (if dev \<noteq> 0 then v\<lparr>dev_fs := (dev_fs v)(dev := fs)\<rparr> else v)
          in Some (0, v, s)
      })"

definition vfs_register_fs :: "'d fs_ops_t \<Rightarrow> 'd vfs_t \<Rightarrow> 'd vfs_t" where
  "vfs_register_fs ops v = v\<lparr>registered_fses := registered_fses v @ [ops]\<rparr>"

definition init_vfs :: "'d vfs_t" where
  "init_vfs = \<lparr>vfs_mounts = [], registered_fses = [], root_mount = None, dev_fs = (\<lambda>_. 0)\<rparr>"

section \<open>Permissions\<close>

abbreviation S_IRUSR :: u32 where "S_IRUSR \<equiv> 0x100"
abbreviation S_IWUSR :: u32 where "S_IWUSR \<equiv> 0x80"
abbreviation S_IXUSR :: u32 where "S_IXUSR \<equiv> 0x40"
abbreviation S_IRGRP :: u32 where "S_IRGRP \<equiv> 0x20"
abbreviation S_IWGRP :: u32 where "S_IWGRP \<equiv> 0x10"
abbreviation S_IXGRP :: u32 where "S_IXGRP \<equiv> 0x8"
abbreviation S_IROTH :: u32 where "S_IROTH \<equiv> 0x4"
abbreviation S_IWOTH :: u32 where "S_IWOTH \<equiv> 0x2"
abbreviation S_IXOTH :: u32 where "S_IXOTH \<equiv> 0x1"

definition c_bool :: "bool \<Rightarrow> u32" where
  "c_bool b = (if b then 1 else 0)"

text \<open>
  The three checks: the logical conjunctions give 0 or 1, joined bitwise with the masked mode.
\<close>

definition vfs_check_can_read :: "fs_file_t \<Rightarrow> int \<Rightarrow> int \<Rightarrow> int" where
  "vfs_check_can_read file uid gid =
     (if uid = 0 then 0
      else if (c_bool (uid = f_uid file \<and> f_mode file AND S_IRUSR \<noteq> 0) OR
               c_bool (gid = f_gid file \<and> f_mode file AND S_IRGRP \<noteq> 0) OR
               (f_mode file AND S_IROTH)) = 0 then 1
      else 0)"

definition vfs_check_can_write :: "fs_file_t \<Rightarrow> int \<Rightarrow> int \<Rightarrow> int" where
  "vfs_check_can_write file uid gid =
     (if uid = 0 then 0
      else if (c_bool (uid = f_uid file \<and> f_mode file AND S_IWUSR \<noteq> 0) OR
               c_bool (gid = f_gid file \<and> f_mode file AND S_IWGRP \<noteq> 0) OR
               (f_mode file AND S_IWOTH)) = 0 then 1
      else 0)"

definition vfs_check_can_exec :: "fs_file_t \<Rightarrow> int \<Rightarrow> int \<Rightarrow> int" where
  "vfs_check_can_exec file uid gid =
     (if uid = 0 then 0
      else if (c_bool (uid = f_uid file \<and> f_mode file AND S_IXUSR \<noteq> 0) OR
               c_bool (gid = f_gid file \<and> f_mode file AND S_IXGRP \<noteq> 0) OR
               (f_mode file AND S_IXOTH)) = 0 then 1
      else 0)"

section \<open>Operations on open files\<close>

text \<open>
  Reading and writing a fifo repeats until the pipe returns something other than 0; with no
  other thread in between, \<^const>\<open>None\<close> is the loop that spins.
\<close>

partial_function (option) fifo_read :: "u64 \<Rightarrow> pipe_t \<Rightarrow> (int \<times> u8 list \<times> pipe_t) option" where
  "fifo_read count p =
     (case pipe_read count p of (ret, buf, p') \<Rightarrow>
        if ret = 0 then fifo_read count p' else Some (ret, buf, p'))"

partial_function (option) fifo_write :: "u8 list \<Rightarrow> pipe_t \<Rightarrow> (int \<times> pipe_t) option" where
  "fifo_write buf p =
     (case pipe_write buf p of (ret, p') \<Rightarrow>
        if ret = 0 then fifo_write buf p' else Some (ret, p'))"

definition vfs_read ::
  "'d vfs_env \<Rightarrow> ptr \<Rightarrow> u64 \<Rightarrow> u64 \<Rightarrow> 'd kstate \<Rightarrow> (int \<times> u8 list \<times> 'd kstate) option" where
  "vfs_read env fp off count s = do {
     file \<leftarrow> files s fp;
     if ISFIFO file then do {
       p \<leftarrow> pipes s (f_pipe file);
       (ret, buf, p) \<leftarrow> fifo_read count p;
       Some (ret, buf, s\<lparr>pipes := (pipes s)(f_pipe file \<mapsto> p)\<rparr>)
     }
     else if ISDEV file then do {
       dev \<leftarrow> env_dev env (f_dev file);
       case device_read dev off count (disk s) of (ret, buf, d) \<Rightarrow> Some (ret, buf, s\<lparr>disk := d\<rparr>)
     }
     else do { ops \<leftarrow> env_fops env (f_file_ops file); fo_read ops fp off count s }
   }"

definition vfs_write ::
  "'d vfs_env \<Rightarrow> ptr \<Rightarrow> u8 list \<Rightarrow> u64 \<Rightarrow> 'd kstate \<Rightarrow> (int \<times> 'd kstate) option" where
  "vfs_write env fp buf off s = do {
     file \<leftarrow> files s fp;
     if ISFIFO file then do {
       p \<leftarrow> pipes s (f_pipe file);
       (ret, p) \<leftarrow> fifo_write buf p;
       Some (ret, s\<lparr>pipes := (pipes s)(f_pipe file \<mapsto> p)\<rparr>)
     }
     else if ISDEV file then do {
       dev \<leftarrow> env_dev env (f_dev file);
       case device_write dev off buf (disk s) of (ret, d) \<Rightarrow> Some (ret, s\<lparr>disk := d\<rparr>)
     }
     else do { ops \<leftarrow> env_fops env (f_file_ops file); fo_write ops fp buf off s }
   }"

definition vfs_mmap :: "'d vfs_env \<Rightarrow> ptr \<Rightarrow> mmap_args \<Rightarrow> 'd kstate \<Rightarrow> (u64 \<times> 'd kstate) option" where
  "vfs_mmap env fp args s = do {
     file \<leftarrow> files s fp;
     if ISFIFO file then Some (0, s)
     else if ISDEV file then env_mmap env (f_dev file) args s
     else do { ops \<leftarrow> env_fops env (f_file_ops file); mmap \<leftarrow> fo_mmap ops; mmap fp args s }
   }"

text \<open>The operations that only call the file system's function.\<close>

definition file_ops_of :: "'d vfs_env \<Rightarrow> ptr \<Rightarrow> 'd kstate \<Rightarrow> 'd file_ops_t option" where
  "file_ops_of env fp s = do { file \<leftarrow> files s fp; env_fops env (f_file_ops file) }"

definition vfs_rmdir :: "'d vfs_env \<Rightarrow> ptr \<Rightarrow> 'd kstate \<Rightarrow> (int \<times> 'd kstate) option" where
  "vfs_rmdir env fp s = do { ops \<leftarrow> file_ops_of env fp s; fo_rmdir ops fp s }"

definition vfs_delete :: "'d vfs_env \<Rightarrow> ptr \<Rightarrow> 'd kstate \<Rightarrow> (int \<times> 'd kstate) option" where
  "vfs_delete env fp s = do { ops \<leftarrow> file_ops_of env fp s; fo_delete ops fp s }"

definition vfs_truncate :: "'d vfs_env \<Rightarrow> ptr \<Rightarrow> u64 \<Rightarrow> 'd kstate \<Rightarrow> (int \<times> 'd kstate) option" where
  "vfs_truncate env fp sz s = do { ops \<leftarrow> file_ops_of env fp s; fo_truncate ops fp sz s }"

definition vfs_readdir ::
  "'d vfs_env \<Rightarrow> ptr \<Rightarrow> dirent_t \<Rightarrow> u64 \<Rightarrow> 'd kstate \<Rightarrow> (int \<times> dirent_t \<times> 'd kstate) option" where
  "vfs_readdir env fp d pos s = do { ops \<leftarrow> file_ops_of env fp s; fo_readdir ops fp d pos s }"

definition vfs_chmod :: "'d vfs_env \<Rightarrow> ptr \<Rightarrow> u32 \<Rightarrow> 'd kstate \<Rightarrow> (int \<times> 'd kstate) option" where
  "vfs_chmod env fp mode s = do { ops \<leftarrow> file_ops_of env fp s; fo_chmod ops fp mode s }"

definition vfs_chown :: "'d vfs_env \<Rightarrow> ptr \<Rightarrow> int \<Rightarrow> int \<Rightarrow> 'd kstate \<Rightarrow> (int \<times> 'd kstate) option" where
  "vfs_chown env fp uid gid s = do { ops \<leftarrow> file_ops_of env fp s; fo_chown ops fp uid gid s }"

definition vfs_ioctl :: "'d vfs_env \<Rightarrow> ptr \<Rightarrow> u64 \<Rightarrow> u64 \<Rightarrow> 'd kstate \<Rightarrow> (u64 \<times> 'd kstate) option" where
  "vfs_ioctl env fp cmd arg s = do {
     file \<leftarrow> files s fp;
     if ISDEV file then env_ioctl env (f_dev file) cmd arg s
     else do { ops \<leftarrow> env_fops env (f_file_ops file); fo_ioctl ops fp cmd arg s }
   }"

text \<open>A field the initialiser does not name, as \<^verbatim>\<open>file_mode\<close>, is 0.\<close>

definition vfs_fstat :: "'d vfs_env \<Rightarrow> ptr \<Rightarrow> 'd kstate \<Rightarrow> (int \<times> stat_t) option" where
  "vfs_fstat env fp s = do {
     file \<leftarrow> files s fp;
     fs \<leftarrow> fses s (f_fs file);
     (id, type) \<leftarrow> (if fs_dev fs \<noteq> 0 then do { d \<leftarrow> env_dev env (fs_dev fs); Some (dev_id d, dev_type d) }
                   else Some (- 1, - 1));
     (bs, bc) \<leftarrow> (if f_dev file \<noteq> 0 then do { d \<leftarrow> env_dev env (f_dev file); Some (dev_block_size d, dev_block_count d) }
                 else Some (0, 0));
     Some (0, \<lparr>device_id = id, file_serial = of_nat (f_inode file), file_mode = 0, hardlink_count = 0,
               user_id = word_of_int (f_uid file), group_id = word_of_int (f_gid file),
               device_type = type, file_size = f_length file,
               last_access_time = f_atime file, last_modification_time = f_mtime file,
               last_status_change_time = f_ctime file, creation_time = f_crtime file,
               block_size = bs, block_count = bc\<rparr>)
   }"

definition vfs_close :: "'d vfs_env \<Rightarrow> ptr \<Rightarrow> 'd kstate \<Rightarrow> (int \<times> 'd kstate) option" where
  "vfs_close env fp s = do {
     file \<leftarrow> files s fp;
     let file = file\<lparr>f_ref_count := f_ref_count file - 1\<rparr>;
     let s = set_file fp file s;
     if f_ref_count file \<noteq> 0 then Some (0, s)
     else if ISFIFO file \<and> f_fs file = 0 then
       Some (0, free_file fp (s\<lparr>pipes := (pipes s)(f_pipe file := None)\<rparr>))
     else do { ops \<leftarrow> env_fops env (f_file_ops file); fo_close ops fp s }
   }"

section \<open>Operations on names\<close>

text \<open>The name inside the mounted file system: the mount point less its last character is cut off.\<close>

definition mount_relative :: "vfs_mount_info_t \<Rightarrow> cstring \<Rightarrow> cstring" where
  "mount_relative mi path =
     (if length path = length (mi_path mi) then cstr ''/'' else drop (length (mi_path mi) - 1) path)"

definition mount_of ::
  "'d vfs_env \<Rightarrow> 'd vfs_t \<Rightarrow> cstring \<Rightarrow> 'd kstate \<Rightarrow> (ptr \<times> 'd fs_ops_t \<times> cstring) option" where
  "mount_of env v path s = do {
     mi \<leftarrow> vfs_find_mount v path;
     fs \<leftarrow> fses s (mi_fs mi);
     ops \<leftarrow> env_fsops env (fs_ops fs);
     Some (mi_fs mi, ops, mount_relative mi path)
   }"

definition vfs_mknod ::
  "'d vfs_env \<Rightarrow> 'd vfs_t \<Rightarrow> cstring \<Rightarrow> u32 \<Rightarrow> int \<Rightarrow> int \<Rightarrow> ptr \<Rightarrow> 'd kstate \<Rightarrow> (ptr \<times> 'd kstate) option" where
  "vfs_mknod env v path mode uid gid dev s = do {
     (fs, ops, str) \<leftarrow> mount_of env v path s; fso_mknod ops fs str mode uid gid dev s }"

definition vfs_mkdir ::
  "'d vfs_env \<Rightarrow> 'd vfs_t \<Rightarrow> cstring \<Rightarrow> u32 \<Rightarrow> int \<Rightarrow> int \<Rightarrow> 'd kstate \<Rightarrow> (ptr \<times> 'd kstate) option" where
  "vfs_mkdir env v path mode uid gid s = do {
     (fs, ops, str) \<leftarrow> mount_of env v path s; fso_mkdir ops fs str mode uid gid s }"

definition vfs_create ::
  "'d vfs_env \<Rightarrow> 'd vfs_t \<Rightarrow> cstring \<Rightarrow> u32 \<Rightarrow> int \<Rightarrow> int \<Rightarrow> 'd kstate \<Rightarrow> (ptr \<times> 'd kstate) option" where
  "vfs_create env v path mode uid gid s = do {
     (fs, ops, str) \<leftarrow> mount_of env v path s; fso_create ops fs str mode uid gid s }"

definition vfs_open ::
  "'d vfs_env \<Rightarrow> 'd vfs_t \<Rightarrow> cstring \<Rightarrow> 'd kstate \<Rightarrow> (ptr \<times> 'd kstate) option" where
  "vfs_open env v name s = do {
     (fs, ops, str) \<leftarrow> mount_of env v name s; fso_open ops fs str s }"

text \<open>
  The loop that copies a name up to a slash or its end. The block it copies to is one byte
  too small when the name has no slash; the byte behind it is not modelled.
\<close>

fun short_name_loop :: "cstring \<Rightarrow> cstring" where
  "short_name_loop [] = []"
| "short_name_loop (c # name) = (if c = slash then [] else c # short_name_loop name)"

text \<open>The fields of a new file that all initialisers set alike; those not named are 0.\<close>

definition fresh_file :: "'d vfs_env \<Rightarrow> int \<Rightarrow> int \<Rightarrow> u32 \<Rightarrow> fs_file_t" where
  "fresh_file env uid gid mode =
     \<lparr>f_path = [], f_uid = uid, f_gid = gid, f_file_ops = 0, f_fs = 0, f_dev = 0, f_pipe = 0,
      f_atime = rtc_mktime (env_time env), f_mtime = rtc_mktime (env_time env), f_ctime = rtc_mktime (env_time env), f_crtime = rtc_mktime (env_time env),
      f_ref_count = 1, f_mode = mode, f_length = 0, f_inode = 0, f_private = PD_null, f_offset = 0\<rparr>"

text \<open>\<^verbatim>\<open>kmalloc\<close> of a pipe and \<^verbatim>\<open>pipe_init\<close>.\<close>

definition new_pipe :: "'d vfs_env \<Rightarrow> 'd kstate \<Rightarrow> ptr \<times> 'd kstate" where
  "new_pipe env s = (next_ptr s,
     s\<lparr>pipes := (pipes s)(next_ptr s \<mapsto> pipe_init (env_addr env (next_ptr s)) (env_mem env) DEFAULT_PIPE_SIZE),
       next_ptr := next_ptr s + 1\<rparr>)"

definition vfs_mkfifo ::
  "'d vfs_env \<Rightarrow> 'd vfs_t \<Rightarrow> cstring \<Rightarrow> u32 \<Rightarrow> int \<Rightarrow> int \<Rightarrow> bool \<Rightarrow> 'd kstate \<Rightarrow> (ptr \<times> 'd kstate) option" where
  "vfs_mkfifo env v name mode uid gid named s =
     (if named then do {
        (fs, ops, str) \<leftarrow> mount_of env v name s; fso_mkfifo ops fs str mode uid gid s }
      else case new_pipe env s of (p, s) \<Rightarrow>
        Some (new_file ((fresh_file env uid gid (S_IFIFO OR mode))
                          \<lparr>f_pipe := p, f_path := short_name_loop name\<rparr>) s))"

section \<open>The mount table\<close>

text \<open>
  The table's invariant: no mount point twice, and the first mount is the root, at \<^verbatim>\<open>/\<close>. The
  states of the table are those that registering and mounting reach from \<^verbatim>\<open>init_vfs\<close>.
\<close>

definition mounts_ok :: "'d vfs_t \<Rightarrow> bool" where
  "mounts_ok v \<longleftrightarrow> distinct (map mi_path (vfs_mounts v)) \<and>
     (case vfs_mounts v of
        [] \<Rightarrow> root_mount v = None
      | mi # _ \<Rightarrow> root_mount v = Some mi \<and> mi_path mi = cstr ''/'')"

inductive vfs_reach :: "'d vfs_t \<Rightarrow> bool" where
  reach_init: "vfs_reach init_vfs"
| reach_register: "vfs_reach v \<Longrightarrow> vfs_reach (vfs_register_fs ops v)"
| reach_mount: "vfs_reach v \<Longrightarrow> vfs_mount path dev name v s = Some (r, v', s') \<Longrightarrow> vfs_reach v'"

text \<open>Closing a file several times, as its descriptors are closed one by one.\<close>

primrec vfs_close_times :: "'d vfs_env \<Rightarrow> nat \<Rightarrow> ptr \<Rightarrow> 'd kstate \<Rightarrow> 'd kstate option" where
  "vfs_close_times env 0 fp s = Some s"
| "vfs_close_times env (Suc n) fp s = do { (r, s) \<leftarrow> vfs_close env fp s; vfs_close_times env n fp s }"

text \<open>A small table for the witnesses: one file system, mounted on \<^verbatim>\<open>/\<close> and on \<^verbatim>\<open>/dev/\<close>.\<close>

definition ex_time :: datetime_t where
  "ex_time = \<lparr>seconds = 0, minutes = 0, hours = 0, day = 1, month = 1, year = 122, day_of_week = 6,
     day_of_year = 0, is_daylight_savings = 0\<rparr>"

definition ex_fs_ops :: "unit fs_ops_t" where
  "ex_fs_ops = \<lparr>fs_name = cstr ''T'', fso_mount = Some (\<lambda>dev s. Some (1, s)),
     fso_open = (\<lambda>fs name s. Some (length name, s)), fso_mkdir = (\<lambda>_ _ _ _ _ s. Some (0, s)),
     fso_create = (\<lambda>_ _ _ _ _ s. Some (0, s)), fso_mkfifo = (\<lambda>_ _ _ _ _ s. Some (0, s)),
     fso_mknod = (\<lambda>_ _ _ _ _ _ s. Some (0, s))\<rparr>"

definition ex_vfs :: "unit vfs_t" where
  "ex_vfs = \<lparr>vfs_mounts = [\<lparr>mi_path = cstr ''/'', mi_dev = 0, mi_fs = 1\<rparr>,
                           \<lparr>mi_path = cstr ''/dev/'', mi_dev = 0, mi_fs = 1\<rparr>],
     registered_fses = [ex_fs_ops], root_mount = Some \<lparr>mi_path = cstr ''/'', mi_dev = 0, mi_fs = 1\<rparr>,
     dev_fs = (\<lambda>_. 0)\<rparr>"

definition ex_pipe_file :: fs_file_t where
  "ex_pipe_file = \<lparr>f_path = [], f_uid = 0, f_gid = 0, f_file_ops = 0, f_fs = 0, f_dev = 0, f_pipe = 2,
     f_atime = \<lparr>pt_seconds = 0, pt_nanoseconds = 0\<rparr>, f_mtime = \<lparr>pt_seconds = 0, pt_nanoseconds = 0\<rparr>, f_ctime = \<lparr>pt_seconds = 0, pt_nanoseconds = 0\<rparr>, f_crtime = \<lparr>pt_seconds = 0, pt_nanoseconds = 0\<rparr>,
     f_ref_count = 3, f_mode = S_IFIFO, f_length = 0, f_inode = 1, f_private = PD_null, f_offset = 0\<rparr>"

definition ex_state :: "unit kstate" where
  "ex_state = \<lparr>files = [1 \<mapsto> ex_pipe_file], pipes = [2 \<mapsto> pipe_init 4096 (\<lambda>_. 0) DEFAULT_PIPE_SIZE],
     fses = [1 \<mapsto> \<lparr>fs_ops = 1, fs_dev = 0, fs_private = FP_root 0\<rparr>], next_ptr = 3, disk = ()\<rparr>"

definition ex_env :: "unit vfs_env" where
  "ex_env = \<lparr>env_dev = (\<lambda>_. None), env_ioctl = (\<lambda>_ _ _ s. Some (0, s)), env_mmap = (\<lambda>_ _ s. Some (0, s)),
     env_fops = (\<lambda>_. None), env_fsops = (\<lambda>p. if p = 1 then Some ex_fs_ops else None),
     env_addr = (\<lambda>p. of_nat p * 4096), env_mem = (\<lambda>_. 0), env_kids = (\<lambda>_. []), env_time = ex_time\<rparr>"

lemma vfs_mount_cases:
  assumes "vfs_mount path dev name v s = Some (r, v', s')"
  obtains "v' = v" "r = 1"
  | fs where "r = 0" "fs \<noteq> 0" "\<not> vfs_is_mounted v path" "root_mount v = None \<longrightarrow> path = cstr ''/''"
      "vfs_mounts v' = vfs_mounts v @ [\<lparr>mi_path = path, mi_dev = dev, mi_fs = fs\<rparr>]"
      "root_mount v' = (if root_mount v = None then Some \<lparr>mi_path = path, mi_dev = dev, mi_fs = fs\<rparr> else root_mount v)"
  using assms by (auto simp: vfs_mount_def Let_def split: if_splits bind_splits)

lemma vfs_mount_ok:
  assumes "mounts_ok v" and "vfs_mount path dev name v s = Some (r, v', s')"
  shows "mounts_ok v'"
  using assms(2)
proof (cases rule: vfs_mount_cases)
  case 1 then show ?thesis using assms(1) by simp
next
  case (2 fs)
  then show ?thesis using assms(1)
    by (cases "vfs_mounts v") (auto simp: mounts_ok_def vfs_is_mounted_def)
qed

lemma vfs_reach_ok: "vfs_reach v \<Longrightarrow> mounts_ok v"
proof (induction rule: vfs_reach.induct)
  case reach_init show ?case by (simp add: init_vfs_def mounts_ok_def)
next
  case reach_register then show ?case by (simp add: mounts_ok_def vfs_register_fs_def split: list.splits)
next
  case reach_mount then show ?case by (blast intro: vfs_mount_ok)
qed

lemma find_mount_loop_longest:
  "(\<exists>mi. find_mount_loop v path = Some mi \<and> mi \<in> set (vfs_mounts v) \<and> 1 < length (mi_path mi) \<and>
      prefix (mi_path mi) path \<and>
      (\<forall>mi'\<in>set (vfs_mounts v). prefix (mi_path mi') path \<longrightarrow> length (mi_path mi') \<le> length (mi_path mi))) \<or>
   find_mount_loop v path = root_mount v \<and>
      (\<forall>mi'\<in>set (vfs_mounts v). prefix (mi_path mi') path \<longrightarrow> length (mi_path mi') \<le> 1)"
proof (induction v path rule: find_mount_loop.induct)
  case (1 v path)
  consider (short) "\<not> 1 < length path"
    | (hit) mi where "1 < length path" "find (\<lambda>mi. mi_path mi = path) (vfs_mounts v) = Some mi"
    | (miss) "1 < length path" "find (\<lambda>mi. mi_path mi = path) (vfs_mounts v) = None"
    by (cases "find (\<lambda>mi. mi_path mi = path) (vfs_mounts v)") auto
  then show ?case
  proof cases
    case short
    then have "length (mi_path mi') \<le> 1" if "prefix (mi_path mi') path" for mi' :: vfs_mount_info_t
      using prefix_length_le [OF that] by simp
    with short show ?thesis by (intro disjI2) (simp add: find_mount_loop.simps)
  next
    case hit
    then have "mi \<in> set (vfs_mounts v)" "mi_path mi = path" by (auto simp: find_Some_iff)
    moreover have "find_mount_loop v path = Some mi" using hit by (simp add: find_mount_loop.simps)
    ultimately show ?thesis using hit(1) prefix_length_le by auto
  next
    case miss
    then have eq: "find_mount_loop v path = find_mount_loop v (butlast path)"
      by (subst find_mount_loop.simps) simp
    have no: "mi_path mi' \<noteq> path" if "mi' \<in> set (vfs_mounts v)" for mi'
      using miss(2) that by (auto simp: find_None_iff)
    have pre: "prefix (mi_path mi') path \<longleftrightarrow> prefix (mi_path mi') (butlast path)"
      if "mi' \<in> set (vfs_mounts v)" for mi'
      using no [OF that] miss(1) prefix_snoc [of "mi_path mi'" "butlast path" "last path"]
      by (cases "path = []") auto
    have "prefix (mi_path mi) (butlast path) \<Longrightarrow> prefix (mi_path mi) path" for mi
      using prefix_order.trans prefixeq_butlast by blast
    then show ?thesis using 1 [OF miss] unfolding eq by (metis pre)
  qed
qed

lemma vfs_find_mount_spec:
  assumes "mounts_ok v" and "vfs_mounts v \<noteq> []"
  shows "\<exists>mi. vfs_find_mount v path = Some mi \<and> mi \<in> set (vfs_mounts v) \<and>
    (prefix (mi_path mi) path \<or> mi_path mi = cstr ''/'') \<and>
    (\<forall>mi'\<in>set (vfs_mounts v). prefix (mi_path mi') path \<longrightarrow> length (mi_path mi') \<le> length (mi_path mi))"
proof -
  obtain root where root: "root_mount v = Some root" "root \<in> set (vfs_mounts v)" "mi_path root = cstr ''/''"
    using assms by (cases "vfs_mounts v") (auto simp: mounts_ok_def)
  show ?thesis
  proof (cases "path = cstr ''/''")
    case True
    then have "length (mi_path mi') \<le> 1" if "prefix (mi_path mi') path" for mi'
      using prefix_length_le [OF that] by (simp add: cstr_def)
    then show ?thesis using root True by (auto simp: vfs_find_mount_def cstr_def)
  next
    case False
    then show ?thesis using find_mount_loop_longest [of v path] root
      by (auto simp: vfs_find_mount_def cstr_def)
  qed
qed

lemma mount_relative_append:
  "p \<noteq> [] \<Longrightarrow> rest \<noteq> [] \<Longrightarrow> mi_path mi = p \<Longrightarrow> mount_relative mi (p @ rest) = last p # rest"
  by (cases p rule: rev_cases) (auto simp: mount_relative_def)

lemma short_name_loop_takeWhile: "short_name_loop name = takeWhile (\<lambda>c. c \<noteq> slash) name"
  by (induction name) auto

lemma set_file_simps [simp]:
  "files (set_file p f s) = (files s)(p \<mapsto> f)" "pipes (set_file p f s) = pipes s"
  "fses (set_file p f s) = fses s" "next_ptr (set_file p f s) = next_ptr s" "disk (set_file p f s) = disk s"
  by (simp_all add: set_file_def)

lemma vfs_close_again:
  "files s fp = Some file \<Longrightarrow> f_ref_count file \<noteq> 1 \<Longrightarrow>
   vfs_close env fp s = Some (0, set_file fp (file\<lparr>f_ref_count := f_ref_count file - 1\<rparr>) s)"
  by (simp add: vfs_close_def Let_def)

lemma vfs_close_times_keeps:
  assumes "files s fp = Some f" and "f_ref_count f = int n + 1"
  shows "\<exists>s'. vfs_close_times env n fp s = Some s' \<and> files s' = (files s)(fp \<mapsto> f\<lparr>f_ref_count := 1\<rparr>) \<and>
    pipes s' = pipes s \<and> fses s' = fses s \<and> disk s' = disk s"
  using assms
proof (induction n arbitrary: s f)
  case 0
  then have "f\<lparr>f_ref_count := 1\<rparr> = f" by simp
  with 0 show ?case by (simp add: fun_upd_idem)
next
  case (Suc n)
  let ?g = "f\<lparr>f_ref_count := f_ref_count f - 1\<rparr>"
  have "vfs_close env fp s = Some (0, set_file fp ?g s)"
    using Suc.prems by (intro vfs_close_again) auto
  moreover have "files (set_file fp ?g s) fp = Some ?g" "f_ref_count ?g = int n + 1"
    using Suc.prems by simp_all
  from Suc.IH [OF this] show ?case using calculation by (auto intro!: ext)
qed

lemma perm_or_zero: "c_bool a OR c_bool b OR (m :: u32) = 0 \<longleftrightarrow> \<not> a \<and> \<not> b \<and> m = 0"
  by (simp add: c_bool_def or_eq_0_iff)

lemma mode_bit: "(m :: u32) AND 2 ^ n = 0 \<longleftrightarrow> \<not> bit m n"
  by (rule and_exp_eq_0_iff_not_bit)

lemmas mode_bits = mode_bit [of _ 0] mode_bit [of _ 1] mode_bit [of _ 2] mode_bit [of _ 3] mode_bit [of _ 4]
  mode_bit [of _ 5] mode_bit [of _ 6] mode_bit [of _ 7] mode_bit [of _ 8]

section \<open>Properties\<close>

text \<open>
  C12: Whatever sequence of registrations and mounts the kernel performs, no path is mounted
  twice, the first mount is the root mount, it is at \<^verbatim>\<open>/\<close>, and there is a root mount exactly
  when something is mounted.
\<close>

theorem vfs_mount_table_invariant:
  assumes "vfs_reach v"
  shows "distinct (map mi_path (vfs_mounts v)) \<and>
    (case vfs_mounts v of
       [] \<Rightarrow> root_mount v = None
     | mi # _ \<Rightarrow> root_mount v = Some mi \<and> mi_path mi = cstr ''/'')"
  using vfs_reach_ok [OF assms] by (simp add: mounts_ok_def)

text \<open>
  C13: Once the root is mounted, looking up a path finds a mount whose path is a prefix
  of it (or the root), and no mounted prefix of the path is longer.
\<close>

theorem vfs_find_mount_longest_prefix:
  assumes "vfs_reach v" and "vfs_mounts v \<noteq> []"
  shows "\<exists>mi. vfs_find_mount v path = Some mi \<and> mi \<in> set (vfs_mounts v) \<and>
    (prefix (mi_path mi) path \<or> mi_path mi = cstr ''/'') \<and>
    (\<forall>mi'\<in>set (vfs_mounts v). prefix (mi_path mi') path \<longrightarrow> length (mi_path mi') \<le> length (mi_path mi))"
  by (rule vfs_find_mount_spec [OF vfs_reach_ok [OF assms(1)] assms(2)])

text \<open>
  C14: A path below a mount point, with no longer mount point on the way, is opened by the
  file system mounted there, with the rest of the path after the mount point's last
  character. So the name starts with a slash exactly when the mount point ends with
  one: mounting on \<^verbatim>\<open>/dev\<close> instead of \<^verbatim>\<open>/dev/\<close> gives names such as \<^verbatim>\<open>v/tty\<close>.
\<close>

theorem vfs_open_routes:
  assumes "vfs_reach v" and "mi \<in> set (vfs_mounts v)" and "mi_path mi \<noteq> []" and "rest \<noteq> []"
    and "\<forall>mi'\<in>set (vfs_mounts v). prefix (mi_path mi') (mi_path mi @ rest) \<longrightarrow> length (mi_path mi') \<le> length (mi_path mi)"
    and "1 < length (mi_path mi) \<or> mi_path mi = cstr ''/''"
    and "fses s (mi_fs mi) = Some fs" and "env_fsops env (fs_ops fs) = Some ops"
  shows "vfs_open env v (mi_path mi @ rest) s = fso_open ops (mi_fs mi) (last (mi_path mi) # rest) s"
proof -
  have ok: "mounts_ok v" using vfs_reach_ok assms(1) .
  obtain m where m: "vfs_find_mount v (mi_path mi @ rest) = Some m" "m \<in> set (vfs_mounts v)"
      "prefix (mi_path m) (mi_path mi @ rest) \<or> mi_path m = cstr ''/''"
      "length (mi_path mi) \<le> length (mi_path m)"
    using vfs_find_mount_spec [OF ok, of "mi_path mi @ rest"] assms(2) by fastforce
  have "mi_path m = mi_path mi"
  proof (cases "prefix (mi_path m) (mi_path mi @ rest)")
    case True
    then have "length (mi_path m) = length (mi_path mi)" using assms(5) m(2,4) by force
    then show ?thesis using True by (metis append_eq_append_conv prefixE)
  next
    case False
    then have "mi_path m = cstr ''/''" using m(3) by simp
    then show ?thesis using m(4) assms(6) by auto
  qed
  then have "m = mi" using ok m(2) assms(2) by (auto simp: mounts_ok_def distinct_map inj_on_def)
  then show ?thesis
    using m(1) assms(3,4,7,8) by (simp add: vfs_open_def mount_of_def mount_relative_append)
qed

text \<open>
  C15: The permission checks grant access exactly to root, to the owner if the owner's bit is
  set, to the group if the group's bit is set, and to everyone if the others' bit is set.
\<close>

theorem vfs_permissions:
  "(vfs_check_can_read f uid gid = 0 \<longleftrightarrow>
      uid = 0 \<or> uid = f_uid f \<and> bit (f_mode f) 8 \<or> gid = f_gid f \<and> bit (f_mode f) 5 \<or> bit (f_mode f) 2) \<and>
   (vfs_check_can_write f uid gid = 0 \<longleftrightarrow>
      uid = 0 \<or> uid = f_uid f \<and> bit (f_mode f) 7 \<or> gid = f_gid f \<and> bit (f_mode f) 4 \<or> bit (f_mode f) 1) \<and>
   (vfs_check_can_exec f uid gid = 0 \<longleftrightarrow>
      uid = 0 \<or> uid = f_uid f \<and> bit (f_mode f) 6 \<or> gid = f_gid f \<and> bit (f_mode f) 3 \<or> bit (f_mode f) 0)"
  using mode_bits [of "f_mode f"]
  by (auto simp: vfs_check_can_read_def vfs_check_can_write_def vfs_check_can_exec_def perm_or_zero)

text \<open>
  An anonymous pipe with \<open>n + 1\<close> references survives \<open>n\<close> closes, its bytes untouched;
  the next close frees the file and the pipe.
\<close>

theorem vfs_close_frees_last:
  assumes "files s fp = Some f" and "f_ref_count f = int n + 1" and "ISFIFO f" and "f_fs f = 0"
  shows "\<exists>s'. vfs_close_times env n fp s = Some s' \<and> files s' fp \<noteq> None \<and> pipes s' = pipes s \<and>
    (\<exists>s''. vfs_close env fp s' = Some (0, s'') \<and> files s'' = (files s)(fp := None) \<and>
       pipes s'' = (pipes s)(f_pipe f := None))"
proof -
  from vfs_close_times_keeps [OF assms(1,2), of env] obtain s' where
    s': "vfs_close_times env n fp s = Some s'" "files s' = (files s)(fp \<mapsto> f\<lparr>f_ref_count := 1\<rparr>)" "pipes s' = pipes s"
    by blast
  have "vfs_close env fp s' =
      Some (0, free_file fp ((set_file fp (f\<lparr>f_ref_count := 0\<rparr>) s')\<lparr>pipes := (pipes s')(f_pipe f := None)\<rparr>))"
    using s'(2) assms(3,4) by (simp add: vfs_close_def Let_def ISFIFO_def)
  then show ?thesis using s' by (auto simp: free_file_def)
qed

section \<open>Witnesses\<close>

lemma ex_vfs_reach: "vfs_reach ex_vfs"
proof -
  let ?v0 = "vfs_register_fs ex_fs_ops init_vfs"
  let ?v1 = "ex_vfs\<lparr>vfs_mounts := take 1 (vfs_mounts ex_vfs)\<rparr>"
  have v1: "vfs_mount (cstr ''/'') 0 None ?v0 ex_state = Some (0, ?v1, ex_state)"
    by (simp add: vfs_mount_def vfs_mount_fs_def vfs_register_fs_def init_vfs_def ex_fs_ops_def ex_vfs_def
        vfs_is_mounted_def Let_def)
  have v2: "vfs_mount (cstr ''/dev/'') 0 None ?v1 ex_state = Some (0, ex_vfs, ex_state)"
    by (simp add: vfs_mount_def vfs_mount_fs_def ex_fs_ops_def ex_vfs_def vfs_is_mounted_def Let_def)
  show ?thesis
    by (rule reach_mount [OF reach_mount [OF reach_register [OF reach_init] v1] v2])
qed

theorem vfs_mount_table_invariant_witness:
  "vfs_reach ex_vfs \<and> root_mount ex_vfs = Some \<lparr>mi_path = cstr ''/'', mi_dev = 0, mi_fs = 1\<rparr> \<and>
   distinct (map mi_path (vfs_mounts ex_vfs))"
  using vfs_mount_table_invariant [OF ex_vfs_reach] ex_vfs_reach by (simp add: ex_vfs_def)

theorem vfs_find_mount_longest_prefix_witness:
  "vfs_reach ex_vfs \<and> vfs_mounts ex_vfs \<noteq> [] \<and>
   (\<exists>mi. vfs_find_mount ex_vfs (cstr ''/dev/tty'') = Some mi \<and> 5 \<le> length (mi_path mi))"
  using vfs_find_mount_longest_prefix [OF ex_vfs_reach, of "cstr ''/dev/tty''"] ex_vfs_reach
  by (fastforce simp: ex_vfs_def)

theorem vfs_open_routes_witness:
  "vfs_open ex_env ex_vfs (cstr ''/dev/'' @ cstr ''tty'') ex_state =
     fso_open ex_fs_ops 1 (slash # cstr ''tty'') ex_state"
  using vfs_open_routes [OF ex_vfs_reach, of "\<lparr>mi_path = cstr ''/dev/'', mi_dev = 0, mi_fs = 1\<rparr>" "cstr ''tty''"
      ex_state "\<lparr>fs_ops = 1, fs_dev = 0, fs_private = FP_root 0\<rparr>" ex_env ex_fs_ops]
  by (simp add: ex_vfs_def ex_state_def ex_env_def)

theorem vfs_close_frees_last_witness:
  "files ex_state 1 = Some ex_pipe_file \<and> ISFIFO ex_pipe_file \<and>
   (\<exists>s'. vfs_close_times ex_env 2 1 ex_state = Some s' \<and> files s' 1 \<noteq> None \<and> pipes s' = pipes ex_state)"
  using vfs_close_frees_last [of ex_state 1 ex_pipe_file 2 ex_env]
  by (auto simp: ex_state_def ex_pipe_file_def ISFIFO_def)

end
