(* ===== verification/Tmpfs.thy ===== *)
theory Tmpfs
  imports Vfs
begin

text \<open>
  The memory file system, \<^verbatim>\<open>src/src/kernel/fs/tmpfs.c\<close>, and devfs, which copies its tables
  (\<^verbatim>\<open>src/src/kernel/fs/devfs.c\<close>). A file's data is a byte list, a directory's data the addresses
  of its children. Allocation does not fail; the file records that \<^verbatim>\<open>tmpfs_open\<close> and the
  creating operations allocate and drop at once are left out, and so is the push into the new root's
  vector in \<^verbatim>\<open>tmpfs_mount\<close>, which the following assignments undo.
\<close>

section \<open>Lookup\<close>

definition dir_children :: "ptr \<Rightarrow> 'd kstate \<Rightarrow> ptr list option" where
  "dir_children p s = do {
     file \<leftarrow> files s p;
     case f_private file of PD_dir _ kids _ \<Rightarrow> Some kids | _ \<Rightarrow> None
   }"

definition tmpfs_readdir ::
  "ptr \<Rightarrow> dirent_t \<Rightarrow> u64 \<Rightarrow> 'd kstate \<Rightarrow> (int \<times> dirent_t \<times> 'd kstate) option" where
  "tmpfs_readdir fp dirent pos s =
     (if pos = 0 then Some (0, dirent\<lparr>de_name := cstr ''.''\<rparr>, s)
      else if pos = 1 then Some (0, dirent\<lparr>de_name := cstr ''.''\<rparr>, s)
      else do {
        kids \<leftarrow> dir_children fp s;
        if unat pos < length kids then do {
          child \<leftarrow> files s (kids ! unat pos);
          Some (0, dirent\<lparr>de_name := f_path child\<rparr>, s)
        }
        else Some (1, dirent, s)
      })"

fun finddir_loop :: "ptr list \<Rightarrow> cstring \<Rightarrow> 'd kstate \<Rightarrow> dirent_t option option" where
  "finddir_loop [] name s = Some None"
| "finddir_loop (c # kids) name s = do {
     child \<leftarrow> files s c;
     if name = f_path child then Some (Some \<lparr>de_name = f_path child, de_serial = f_inode child\<rparr>)
     else finddir_loop kids name s
   }"

text \<open>The entry found, or \<^term>\<open>Some None\<close> for the return value 1.\<close>

definition tmpfs_finddir :: "ptr \<Rightarrow> cstring \<Rightarrow> 'd kstate \<Rightarrow> dirent_t option option" where
  "tmpfs_finddir fp name s = do { kids \<leftarrow> dir_children fp s; finddir_loop kids name s }"

text \<open>
  The loop over the components of a path: the return value, the file stored in \<^verbatim>\<open>*ref\<close>
  and the directory stored in \<^verbatim>\<open>*parent_dir\<close>, if they are stored. The slash that ends
  a component is not skipped.
\<close>

partial_function (option) find_loop ::
  "cstring \<Rightarrow> ptr \<Rightarrow> ptr option \<Rightarrow> 'd kstate \<Rightarrow> (int \<times> ptr option \<times> ptr option) option" where
  "find_loop path root parent s =
     (if path = [] then Some (0, Some root, parent)
      else Option.bind (tmpfs_finddir root (short_name_loop path) s) (\<lambda>r.
        case r of
          None \<Rightarrow> Some (1, None, Some root)
        | Some dir \<Rightarrow> find_loop (drop (length (short_name_loop path)) path) (de_serial dir) (Some root) s))"

definition tmpfs_find :: "ptr \<Rightarrow> cstring \<Rightarrow> 'd kstate \<Rightarrow> (int \<times> ptr option \<times> ptr option) option" where
  "tmpfs_find fsp path s = do {
     fs \<leftarrow> fses s fsp;
     case fs_private fs of
       FP_root root \<Rightarrow>
         find_loop (if path \<noteq> [] \<and> hd path = slash then tl path else path) root None s
     | _ \<Rightarrow> None
   }"

section \<open>Operations on open files\<close>

definition tmpfs_mmap :: "ptr \<Rightarrow> mmap_args \<Rightarrow> 'd kstate \<Rightarrow> (u64 \<times> 'd kstate) option" where
  "tmpfs_mmap fp args s = Some (0, s)"

definition tmpfs_close :: "ptr \<Rightarrow> 'd kstate \<Rightarrow> (int \<times> 'd kstate) option" where
  "tmpfs_close fp s = Some (0, s)"

text \<open>
  The bytes of a file; a null pointer has none. Copying bytes from or into the record of a
  directory, as any other access outside the block, is \<^const>\<open>None\<close>.
\<close>

definition data_of :: "private_data \<Rightarrow> u8 list option" where
  "data_of pd = (case pd of PD_null \<Rightarrow> Some [] | PD_bytes d \<Rightarrow> Some d | _ \<Rightarrow> None)"

definition tmpfs_read :: "ptr \<Rightarrow> u64 \<Rightarrow> u64 \<Rightarrow> 'd kstate \<Rightarrow> (int \<times> u8 list \<times> 'd kstate) option" where
  "tmpfs_read fp off count s = do {
     file \<leftarrow> files s fp;
     let count = (if count + off > f_length file then f_length file - off else count);
     if count = 0 then Some (sint off, [], s)
     else do {
       d \<leftarrow> data_of (f_private file);
       if unat off + unat count \<le> length d then Some (sint off, take (unat count) (drop (unat off) d), s)
       else None
     }
   }"

text \<open>\<^verbatim>\<open>krealloc\<close> keeps the bytes that fit; the others are uninitialised.\<close>

definition krealloc_bytes :: "'d vfs_env \<Rightarrow> nat \<Rightarrow> u8 list \<Rightarrow> u8 list" where
  "krealloc_bytes env n d = map (\<lambda>i. if i < length d then d ! i else env_mem env (of_nat i)) [0..<n]"

definition tmpfs_write ::
  "'d vfs_env \<Rightarrow> ptr \<Rightarrow> u8 list \<Rightarrow> u64 \<Rightarrow> 'd kstate \<Rightarrow> (int \<times> 'd kstate) option" where
  "tmpfs_write env fp buf off s = do {
     file \<leftarrow> files s fp;
     let count = (of_nat (length buf) :: u64);
     if count + off \<le> f_length file \<and> count = 0 then Some (0, s)
     else do {
       d \<leftarrow> data_of (f_private file);
       let (d, len) = (if count + off > f_length file then (krealloc_bytes env (unat (count + off)) d, count + off)
                       else (d, f_length file));
       if count = 0 \<or> unat off + length buf \<le> length d then
         Some (sint count, set_file fp (file\<lparr>f_length := len, f_private := PD_bytes (put_list d (unat off) buf)\<rparr>) s)
       else None
     }
   }"

definition tmpfs_rmdir :: "ptr \<Rightarrow> 'd kstate \<Rightarrow> (int \<times> 'd kstate) option" where
  "tmpfs_rmdir fp s = do {
     file \<leftarrow> files s fp;
     if \<not> S_ISDIR (f_mode file) then Some (1, s)
     else do { _ \<leftarrow> dir_children fp s; Some (0, free_file fp s) }
   }"

definition tmpfs_delete :: "ptr \<Rightarrow> 'd kstate \<Rightarrow> (int \<times> 'd kstate) option" where
  "tmpfs_delete fp s = do {
     file \<leftarrow> files s fp;
     if S_ISDIR (f_mode file) then Some (1, s) else tmpfs_close fp (free_file fp s)
   }"

definition tmpfs_truncate :: "ptr \<Rightarrow> u64 \<Rightarrow> 'd kstate \<Rightarrow> (int \<times> 'd kstate) option" where
  "tmpfs_truncate fp sz s = do { file \<leftarrow> files s fp; Some (0, set_file fp (file\<lparr>f_length := sz\<rparr>) s) }"

definition tmpfs_ioctl :: "ptr \<Rightarrow> u64 \<Rightarrow> u64 \<Rightarrow> 'd kstate \<Rightarrow> (u64 \<times> 'd kstate) option" where
  "tmpfs_ioctl fp cmd arg s = Some (0, s)"

definition tmpfs_chmod :: "ptr \<Rightarrow> u32 \<Rightarrow> 'd kstate \<Rightarrow> (int \<times> 'd kstate) option" where
  "tmpfs_chmod fp mode s = do { file \<leftarrow> files s fp; Some (0, set_file fp (file\<lparr>f_mode := mode\<rparr>) s) }"

definition tmpfs_chown :: "ptr \<Rightarrow> int \<Rightarrow> int \<Rightarrow> 'd kstate \<Rightarrow> (int \<times> 'd kstate) option" where
  "tmpfs_chown fp uid gid s = do {
     file \<leftarrow> files s fp; Some (0, set_file fp (file\<lparr>f_uid := uid, f_gid := gid\<rparr>) s) }"

text \<open>The table names no \<^verbatim>\<open>mmap\<close>, so that entry is a null pointer.\<close>

definition tmpfs_file_ops :: "'d vfs_env \<Rightarrow> 'd file_ops_t" where
  "tmpfs_file_ops env = \<lparr>fo_read = tmpfs_read, fo_write = tmpfs_write env, fo_rmdir = tmpfs_rmdir,
     fo_delete = tmpfs_delete, fo_truncate = tmpfs_truncate, fo_close = tmpfs_close,
     fo_readdir = tmpfs_readdir, fo_chmod = tmpfs_chmod, fo_chown = tmpfs_chown,
     fo_mmap = None, fo_ioctl = tmpfs_ioctl\<rparr>"

section \<open>Opening and creating\<close>

text \<open>The addresses of the tables.\<close>

abbreviation tmpfs_file_ops_addr :: ptr where "tmpfs_file_ops_addr \<equiv> 1"
abbreviation tmpfs_fs_ops_addr :: ptr where "tmpfs_fs_ops_addr \<equiv> 2"

definition tmpfs_open :: "ptr \<Rightarrow> cstring \<Rightarrow> 'd kstate \<Rightarrow> (ptr \<times> 'd kstate) option" where
  "tmpfs_open fsp name s = do {
     (r, ref, _) \<leftarrow> tmpfs_find fsp name s;
     if r \<noteq> 0 then Some (0, s) else do { q \<leftarrow> ref; Some (q, s) }
   }"

text \<open>The \<^verbatim>\<open>vec_push\<close> into the directory's children.\<close>

definition push_child :: "ptr \<Rightarrow> ptr \<Rightarrow> 'd kstate \<Rightarrow> 'd kstate option" where
  "push_child dir c s = do {
     d \<leftarrow> files s dir;
     case f_private d of
       PD_dir f kids par \<Rightarrow> Some (set_file dir (d\<lparr>f_private := PD_dir f (kids @ [c]) par\<rparr>) s)
     | _ \<Rightarrow> None
   }"

definition tmpfs_create ::
  "'d vfs_env \<Rightarrow> ptr \<Rightarrow> cstring \<Rightarrow> u32 \<Rightarrow> int \<Rightarrow> int \<Rightarrow> 'd kstate \<Rightarrow> (ptr \<times> 'd kstate) option" where
  "tmpfs_create env fsp path mode uid gid s = do {
     (r, _, parent_dir) \<leftarrow> tmpfs_find fsp path s;
     if r = 0 then tmpfs_open fsp path s
     else do {
       parent_dir \<leftarrow> parent_dir;
       let file = (fresh_file env uid gid (S_IFREG OR mode))
             \<lparr>f_file_ops := tmpfs_file_ops_addr, f_fs := fsp, f_path := short_name_loop (drop 1 path)\<rparr>;
       let (fp, s) = new_file file s;
       s \<leftarrow> push_child parent_dir fp s;
       Some (fp, s)
     }
   }"

definition tmpfs_mkfifo ::
  "'d vfs_env \<Rightarrow> ptr \<Rightarrow> cstring \<Rightarrow> u32 \<Rightarrow> int \<Rightarrow> int \<Rightarrow> 'd kstate \<Rightarrow> (ptr \<times> 'd kstate) option" where
  "tmpfs_mkfifo env fsp path mode uid gid s = do {
     (r, _, parent_dir) \<leftarrow> tmpfs_find fsp path s;
     if r = 0 then tmpfs_open fsp path s
     else do {
       parent_dir \<leftarrow> parent_dir;
       let (p, s) = new_pipe env s;
       let file = (fresh_file env uid gid (S_IFIFO OR mode))
             \<lparr>f_file_ops := tmpfs_file_ops_addr, f_fs := fsp, f_pipe := p,
              f_path := short_name_loop (drop 1 path)\<rparr>;
       let (fp, s) = new_file file s;
       s \<leftarrow> push_child parent_dir fp s;
       Some (fp, s)
     }
   }"

text \<open>
  The length of the new directory's vector is not set: the entries are what the block
  holds, \<^const>\<open>env_kids\<close>.
\<close>

definition tmpfs_mkdir ::
  "'d vfs_env \<Rightarrow> ptr \<Rightarrow> cstring \<Rightarrow> u32 \<Rightarrow> int \<Rightarrow> int \<Rightarrow> 'd kstate \<Rightarrow> (ptr \<times> 'd kstate) option" where
  "tmpfs_mkdir env fsp path mode uid gid s = do {
     (r, _, parent_dir) \<leftarrow> tmpfs_find fsp path s;
     if r = 0 then tmpfs_open fsp path s
     else do {
       parent_dir \<leftarrow> parent_dir;
       let file = (fresh_file env uid gid (S_IFDIR OR mode))
             \<lparr>f_file_ops := tmpfs_file_ops_addr, f_fs := fsp, f_path := short_name_loop (drop 1 path),
              f_private := PD_dir (next_ptr s) (env_kids env (next_ptr s)) parent_dir\<rparr>;
       let (fp, s) = new_file file s;
       s \<leftarrow> push_child parent_dir fp s;
       Some (fp, s)
     }
   }"

definition tmpfs_mknod ::
  "'d vfs_env \<Rightarrow> ptr \<Rightarrow> cstring \<Rightarrow> u32 \<Rightarrow> int \<Rightarrow> int \<Rightarrow> ptr \<Rightarrow> 'd kstate \<Rightarrow> (ptr \<times> 'd kstate) option" where
  "tmpfs_mknod env fsp name mode uid gid dev s = do {
     (r, _, parent_dir) \<leftarrow> tmpfs_find fsp name s;
     if r = 0 then tmpfs_open fsp name s
     else do {
       parent_dir \<leftarrow> parent_dir;
       let file = (fresh_file env uid gid mode)
             \<lparr>f_file_ops := tmpfs_file_ops_addr, f_fs := fsp, f_dev := dev,
              f_path := short_name_loop (drop 1 name)\<rparr>;
       let (fp, s) = new_file file s;
       s \<leftarrow> push_child parent_dir fp s;
       Some (fp, s)
     }
   }"

definition tmpfs_mount :: "'d vfs_env \<Rightarrow> ptr \<Rightarrow> 'd kstate \<Rightarrow> (ptr \<times> 'd kstate) option" where
  "tmpfs_mount env dev s =
     (let fsp = next_ptr s;
          s = s\<lparr>next_ptr := fsp + 1\<rparr>;
          file = (fresh_file env 0 0 (S_IFDIR OR 0x1ff))
            \<lparr>f_file_ops := tmpfs_file_ops_addr, f_fs := fsp, f_path := cstr ''/'',
             f_private := PD_dir (next_ptr s) [] (next_ptr s)\<rparr>;
          (fp, s) = new_file file s
      in Some (fsp, s\<lparr>fses := (fses s)(fsp \<mapsto>
                 \<lparr>fs_ops = tmpfs_fs_ops_addr, fs_dev = dev, fs_private = FP_root fp\<rparr>)\<rparr>))"

definition tmpfs_fs_ops :: "'d vfs_env \<Rightarrow> 'd fs_ops_t" where
  "tmpfs_fs_ops env = \<lparr>fs_name = cstr ''TMPFS'', fso_mount = Some (tmpfs_mount env), fso_open = tmpfs_open,
     fso_mkdir = tmpfs_mkdir env, fso_create = tmpfs_create env, fso_mkfifo = tmpfs_mkfifo env,
     fso_mknod = tmpfs_mknod env\<rparr>"

definition init_tmpfs :: "'d vfs_env \<Rightarrow> 'd vfs_t \<Rightarrow> 'd vfs_t" where
  "init_tmpfs env v = vfs_register_fs (tmpfs_fs_ops env) v"

definition init_devfs :: "'d vfs_env \<Rightarrow> 'd vfs_t \<Rightarrow> 'd vfs_t" where
  "init_devfs env v = vfs_register_fs ((tmpfs_fs_ops env)\<lparr>fs_name := cstr ''DEVFS''\<rparr>) v"

section \<open>The names of the root directory\<close>

text \<open>
  \<open>tmpfs_ok\<close>: the file system has a root directory whose children are live files with their
  own address as inode and pairwise different names, and addresses from \<^const>\<open>next_ptr\<close> on are free. \<open>tmpfs_names\<close> is
  the directory as a map from names to files.
\<close>

definition tmpfs_kids :: "ptr \<Rightarrow> 'd kstate \<Rightarrow> ptr list" where
  "tmpfs_kids fsp s = (case fses s fsp of
     Some fs \<Rightarrow> (case fs_private fs of
        FP_root root \<Rightarrow> (case dir_children root s of Some kids \<Rightarrow> kids | None \<Rightarrow> [])
      | _ \<Rightarrow> [])
   | None \<Rightarrow> [])"

definition child_name :: "'d kstate \<Rightarrow> ptr \<Rightarrow> cstring" where
  "child_name s c = (case files s c of Some f \<Rightarrow> f_path f | None \<Rightarrow> [])"

definition tmpfs_names :: "ptr \<Rightarrow> 'd kstate \<Rightarrow> cstring \<Rightarrow> ptr option" where
  "tmpfs_names fsp s = map_of (map (\<lambda>c. (child_name s c, c)) (tmpfs_kids fsp s))"

definition tmpfs_ok :: "ptr \<Rightarrow> 'd kstate \<Rightarrow> bool" where
  "tmpfs_ok fsp s \<longleftrightarrow>
     (\<exists>fs root kids. fses s fsp = Some fs \<and> fs_private fs = FP_root root \<and> dir_children root s = Some kids \<and>
        root < next_ptr s \<and> root \<notin> set kids \<and>
        (\<forall>c\<in>set kids. c \<noteq> 0 \<and> c < next_ptr s \<and> (\<exists>f. files s c = Some f \<and> f_inode f = c))) \<and>
     distinct (map (child_name s) (tmpfs_kids fsp s)) \<and>
     0 < next_ptr s \<and> (\<forall>p\<ge>next_ptr s. files s p = None)"

text \<open>A name: not empty and without a slash. Its path is the name after a slash.\<close>

definition is_name :: "cstring \<Rightarrow> bool" where
  "is_name n \<longleftrightarrow> n \<noteq> [] \<and> slash \<notin> set n"

definition open_result :: "ptr \<Rightarrow> cstring \<Rightarrow> 'd kstate \<Rightarrow> ptr option" where
  "open_result fsp n s = map_option fst (tmpfs_open fsp (slash # n) s)"

text \<open>What one creating operation does: the new file, or the present one.\<close>

definition adds_name :: "ptr \<Rightarrow> cstring \<Rightarrow> 'd kstate \<Rightarrow> (ptr \<times> 'd kstate) option \<Rightarrow> bool" where
  "adds_name fsp n s r \<longleftrightarrow>
     (case tmpfs_names fsp s n of
        Some c \<Rightarrow> r = Some (c, s)
      | None \<Rightarrow> (\<exists>fp s'. r = Some (fp, s') \<and> next_ptr s \<le> fp \<and> tmpfs_ok fsp s' \<and>
                  tmpfs_names fsp s' = (tmpfs_names fsp s)(n \<mapsto> fp)))"

text \<open>A sequence of creations, one after the other.\<close>

primrec create_all :: "('n \<Rightarrow> 's \<Rightarrow> ('p \<times> 's) option) \<Rightarrow> 'n list \<Rightarrow> 's \<Rightarrow> 's option" where
  "create_all create [] s = Some s"
| "create_all create (n # ns) s = do { (p, s) \<leftarrow> create n s; create_all create ns s }"

definition open_name :: "ptr \<Rightarrow> cstring \<Rightarrow> 'd kstate \<Rightarrow> ptr option" where
  "open_name fsp n s = (case tmpfs_open fsp (slash # n) s of
     Some (p, _) \<Rightarrow> if p = 0 then None else Some p | None \<Rightarrow> None)"

text \<open>A regular file whose length is that of its data.\<close>

definition data_ok :: "fs_file_t \<Rightarrow> u8 list \<Rightarrow> bool" where
  "data_ok f d \<longleftrightarrow> data_of (f_private f) = Some d \<and> unat (f_length f) = length d"

text \<open>A small file system for the witnesses, and an environment that holds the tables.\<close>

definition ex_fs :: "unit kstate" where
  "ex_fs = (case tmpfs_mount ex_env 0 \<lparr>files = (\<lambda>_. None), pipes = (\<lambda>_. None), fses = (\<lambda>_. None),
       next_ptr = 1, disk = ()\<rparr> of Some (_, s) \<Rightarrow> s)"

definition ex_file :: fs_file_t where
  "ex_file = (fresh_file ex_env 0 0 S_IFREG)\<lparr>f_length := 2, f_private := PD_bytes [1, 2]\<rparr>"

definition ex_dir_fs :: "unit kstate" where
  "ex_dir_fs = ex_fs\<lparr>
     files := [2 \<mapsto> (fresh_file ex_env 0 0 S_IFDIR)\<lparr>f_inode := 2, f_path := cstr ''/'', f_private := PD_dir 2 [3] 2\<rparr>,
               3 \<mapsto> (fresh_file ex_env 0 0 S_IFDIR)\<lparr>f_inode := 3, f_path := cstr ''d'', f_private := PD_dir 3 [] 2\<rparr>],
     next_ptr := 4\<rparr>"

definition ex_file_fs :: "unit kstate" where
  "ex_file_fs = ex_fs\<lparr>
     files := [2 \<mapsto> (fresh_file ex_env 0 0 S_IFDIR)\<lparr>f_inode := 2, f_path := cstr ''/'', f_private := PD_dir 2 [3] 2\<rparr>,
               3 \<mapsto> (fresh_file ex_env 0 0 S_IFREG)\<lparr>f_inode := 3, f_path := cstr ''d''\<rparr>],
     next_ptr := 4\<rparr>"

section \<open>The contract of a name service\<close>

text \<open>
  A service for names: its state has a map from names to objects; opening a name looks it up, creating a
  name gives the present object or adds a new one.
\<close>

locale name_service =
  fixes inv :: "'s \<Rightarrow> bool"
    and names :: "'s \<Rightarrow> 'n \<Rightarrow> 'p option"
    and valid :: "'n \<Rightarrow> bool"
    and opn :: "'n \<Rightarrow> 's \<Rightarrow> 'p option"
    and create :: "'n \<Rightarrow> 's \<Rightarrow> ('p \<times> 's) option"
  assumes opn_names: "inv s \<Longrightarrow> valid n \<Longrightarrow> opn n s = names s n"
    and names_inj: "inv s \<Longrightarrow> names s n = Some p \<Longrightarrow> names s m = Some p \<Longrightarrow> n = m"
    and create_old: "inv s \<Longrightarrow> valid n \<Longrightarrow> names s n = Some p \<Longrightarrow> create n s = Some (p, s)"
    and create_new: "inv s \<Longrightarrow> valid n \<Longrightarrow> names s n = None \<Longrightarrow>
      \<exists>p s'. create n s = Some (p, s') \<and> inv s' \<and> names s' = (names s)(n \<mapsto> p)"
begin

lemma create_opens:
  assumes "inv s" and "valid n"
  shows "\<exists>p s'. create n s = Some (p, s') \<and> inv s' \<and> opn n s' = Some p \<and> names s \<subseteq>\<^sub>m names s' \<and>
    dom (names s') = insert n (dom (names s))"
proof (cases "names s n")
  case None
  with create_new [OF assms] obtain p s' where
    c: "create n s = Some (p, s')" "inv s'" "names s' = (names s)(n \<mapsto> p)" by blast
  then show ?thesis using opn_names [OF c(2) assms(2)] None by (auto simp: map_le_def)
next
  case (Some p)
  then show ?thesis using create_old [OF assms Some] opn_names [OF assms] assms(1) by auto
qed

lemma create_all_opens:
  assumes "inv s" and "\<forall>n\<in>set ns. valid n"
  shows "\<exists>s'. create_all create ns s = Some s' \<and> inv s' \<and> names s \<subseteq>\<^sub>m names s' \<and>
    dom (names s') = set ns \<union> dom (names s)"
  using assms
proof (induction ns arbitrary: s)
  case Nil then show ?case by simp
next
  case (Cons n ns)
  obtain p s1 where c: "create n s = Some (p, s1)" "inv s1" "names s \<subseteq>\<^sub>m names s1"
      "dom (names s1) = insert n (dom (names s))"
    using create_opens [of s n] Cons.prems by auto
  from Cons.IH [OF c(2)] Cons.prems(2) obtain s' where
    "create_all create ns s1 = Some s'" "inv s'" "names s1 \<subseteq>\<^sub>m names s'"
      "dom (names s') = set ns \<union> dom (names s1)" by auto
  with c show ?case by (auto intro: map_le_trans)
qed

text \<open>After a run of creations every name opens, different names open different objects, and what was there stays.\<close>

lemma create_all_spec:
  assumes "inv s" and "\<forall>n\<in>set ns. valid n"
  obtains s' where "create_all create ns s = Some s'" "inv s'"
    "\<And>n. valid n \<Longrightarrow> opn n s' \<noteq> None \<longleftrightarrow> n \<in> set ns \<or> opn n s \<noteq> None"
    "\<And>n p. valid n \<Longrightarrow> opn n s = Some p \<Longrightarrow> opn n s' = Some p"
    "\<And>n m p. valid n \<Longrightarrow> valid m \<Longrightarrow> opn n s' = Some p \<Longrightarrow> opn m s' = Some p \<Longrightarrow> n = m"
proof -
  obtain s' where s': "create_all create ns s = Some s'" "inv s'" "names s \<subseteq>\<^sub>m names s'"
      "dom (names s') = set ns \<union> dom (names s)"
    using create_all_opens [OF assms] by blast
  show ?thesis
  proof (rule that [OF s'(1,2)])
    show "opn n s' \<noteq> None \<longleftrightarrow> n \<in> set ns \<or> opn n s \<noteq> None" if "valid n" for n
      using opn_names [OF s'(2) that] opn_names [OF assms(1) that] s'(4) by (simp only: domIff [symmetric]) auto
    show "opn n s' = Some p" if "valid n" "opn n s = Some p" for n p
      using opn_names [OF s'(2) that(1)] opn_names [OF assms(1) that(1)] that(2) s'(3) by (metis domI map_le_def)
    show "n = m" if "valid n" "valid m" "opn n s' = Some p" "opn m s' = Some p" for n m p
      using opn_names [OF s'(2)] that names_inj [OF s'(2)] by auto
  qed
qed

end

section \<open>The directory as a map\<close>

lemma short_name_is_name [simp]: "is_name n \<Longrightarrow> short_name_loop n = n"
  unfolding short_name_loop_takeWhile is_name_def by (metis (mono_tags, lifting) takeWhile_eq_all_conv)

lemma finddir_loop_names:
  assumes "\<forall>c\<in>set kids. \<exists>f. files s c = Some f \<and> f_inode f = c"
  shows "finddir_loop kids n s =
    Some (map_option (\<lambda>c. \<lparr>de_name = n, de_serial = c\<rparr>) (map_of (map (\<lambda>c. (child_name s c, c)) kids) n))"
  using assms by (induction kids) (auto simp: child_name_def)

lemma tmpfs_okE:
  assumes "tmpfs_ok fsp s"
  obtains fs root kids rf f par where "fses s fsp = Some fs" "fs_private fs = FP_root root"
    "dir_children root s = Some kids" "files s root = Some rf" "f_private rf = PD_dir f kids par"
    "tmpfs_kids fsp s = kids" "root < next_ptr s" "root \<notin> set kids"
    "\<forall>c\<in>set kids. c \<noteq> 0 \<and> c < next_ptr s \<and> (\<exists>f. files s c = Some f \<and> f_inode f = c)"
    "distinct (map (child_name s) kids)" "0 < next_ptr s" "\<forall>p\<ge>next_ptr s. files s p = None"
proof -
  obtain fs root kids where k: "fses s fsp = Some fs" "fs_private fs = FP_root root" "dir_children root s = Some kids"
      "root < next_ptr s" "root \<notin> set kids"
      "\<forall>c\<in>set kids. c \<noteq> 0 \<and> c < next_ptr s \<and> (\<exists>f. files s c = Some f \<and> f_inode f = c)"
    using assms unfolding tmpfs_ok_def by blast
  then obtain rf f par where "files s root = Some rf" "f_private rf = PD_dir f kids par"
    by (auto simp: dir_children_def split: private_data.splits bind_splits)
  moreover have "tmpfs_kids fsp s = kids" using k(1-3) by (simp add: tmpfs_kids_def)
  ultimately show ?thesis using that k assms by (auto simp: tmpfs_ok_def)
qed

lemma tmpfs_find_name:
  assumes "tmpfs_ok fsp s" and "is_name n"
  shows "\<exists>root. (\<exists>fs. fses s fsp = Some fs \<and> fs_private fs = FP_root root) \<and> tmpfs_find fsp (slash # n) s =
    Some (case tmpfs_names fsp s n of None \<Rightarrow> (1, None, Some root) | Some c \<Rightarrow> (0, Some c, Some root))"
  using assms(1)
proof (cases rule: tmpfs_okE)
  case (1 fs root kids rf f par)
  have "finddir_loop kids n s = Some (map_option (\<lambda>c. \<lparr>de_name = n, de_serial = c\<rparr>) (tmpfs_names fsp s n))"
    using finddir_loop_names [of kids s n] 1 by (simp add: tmpfs_names_def)
  then show ?thesis using 1 assms(2)
    by (auto simp: tmpfs_find_def tmpfs_finddir_def find_loop.simps [of n] find_loop.simps [of "[]"] is_name_def
        short_name_is_name [OF assms(2)] split: option.splits)
qed

lemma tmpfs_open_name:
  assumes "tmpfs_ok fsp s" and "is_name n"
  shows "tmpfs_open fsp (slash # n) s = Some (case tmpfs_names fsp s n of None \<Rightarrow> 0 | Some c \<Rightarrow> c, s)"
  using tmpfs_find_name [OF assms] by (auto simp: tmpfs_open_def split: option.splits)

lemma map_of_snoc_fresh: "n \<notin> fst ` set xs \<Longrightarrow> map_of (xs @ [(n, v)]) = (map_of xs)(n \<mapsto> v)"
  by (induction xs) (auto simp: fun_upd_twist)

lemma child_name_upd:
  "p \<noteq> c \<Longrightarrow> child_name (set_file p f s) c = child_name s c"
  by (simp add: child_name_def)

lemma new_file_state:
  "new_file f s = (next_ptr s, (set_file (next_ptr s) (f\<lparr>f_inode := next_ptr s\<rparr>) s)\<lparr>next_ptr := next_ptr s + 1\<rparr>)"
  by (simp add: new_file_def set_file_def)

text \<open>The common end of the creating operations: a new file with the name is pushed into the root.\<close>

lemma tmpfs_push_new:
  assumes ok: "tmpfs_ok fsp s" and root: "fses s fsp = Some fs" "fs_private fs = FP_root root"
    and new: "tmpfs_names fsp s n = None" and f: "f_path f = n"
    and s0: "fses s0 = fses s" "files s0 = files s" "next_ptr s \<le> next_ptr s0"
    and nf: "new_file f s0 = (fp, s1)"
  shows "\<exists>s'. push_child root fp s1 = Some s' \<and> next_ptr s \<le> fp \<and> tmpfs_ok fsp s' \<and>
    tmpfs_names fsp s' = (tmpfs_names fsp s)(n \<mapsto> fp)"
  using ok
proof (cases rule: tmpfs_okE)
  case (1 fs' root' kids rf pf par)
  then have r: "root' = root" using root by simp
  have fp: "fp = next_ptr s0" and s1: "files s1 = (files s)(fp \<mapsto> f\<lparr>f_inode := fp\<rparr>)"
      "fses s1 = fses s" "next_ptr s1 = fp + 1"
    using nf s0 by (auto simp: new_file_state)
  have nr: "fp \<noteq> root" "fp \<notin> set kids" using 1 fp s0(3) r by fastforce+
  define s' where "s' = set_file root (rf\<lparr>f_private := PD_dir pf (kids @ [fp]) par\<rparr>) s1"
  have push: "push_child root fp s1 = Some s'"
    using 1 s1 nr r by (simp add: push_child_def s'_def)
  have kids': "tmpfs_kids fsp s' = kids @ [fp]" and dc: "dir_children root s' = Some (kids @ [fp])"
    using 1 s1 r by (simp_all add: tmpfs_kids_def dir_children_def s'_def)
  have same: "child_name s' c = child_name s c" if "c \<in> set kids" for c
    using that 1 s1 nr r by (auto simp: child_name_def s'_def)
  have self: "child_name s' fp = n" using s1 nr f by (simp add: child_name_def s'_def)
  have fresh: "n \<notin> child_name s ` set kids"
    using new 1 by (force simp: tmpfs_names_def map_of_eq_None_iff image_image)
  have map_eq: "map (\<lambda>c. (child_name s' c, c)) kids = map (\<lambda>c. (child_name s c, c)) kids"
    "map (child_name s') kids = map (child_name s) kids"
    using same by auto
  have names: "tmpfs_names fsp s' = (tmpfs_names fsp s)(n \<mapsto> fp)"
  proof -
    have "n \<notin> fst ` set (map (\<lambda>c. (child_name s c, c)) kids)" using fresh by auto
    from map_of_snoc_fresh [OF this] show ?thesis
      by (simp only: tmpfs_names_def kids' self 1(6) map_append map_eq(1) list.map)
  qed
  have "next_ptr s' = fp + 1" "files s' fp = Some (f\<lparr>f_inode := fp\<rparr>)"
    using s1 nr by (simp_all add: s'_def)
  moreover have "files s' c = files s c" "c < fp" "c \<noteq> 0" "\<exists>f. files s c = Some f \<and> f_inode f = c" if "c \<in> set kids" for c
    using that 1(8,9) s1(1) nr r fp s0(3) by (auto simp: s'_def)
  ultimately have live: "\<forall>c\<in>set (kids @ [fp]). c \<noteq> 0 \<and> c < next_ptr s' \<and> (\<exists>f. files s' c = Some f \<and> f_inode f = c)"
    using 1(11) fp s0(3) by (simp add: less_Suc_eq)
  have "tmpfs_ok fsp s'"
    unfolding tmpfs_ok_def
  proof (intro conjI)
    show "\<exists>fs root kids. fses s' fsp = Some fs \<and> fs_private fs = FP_root root \<and> dir_children root s' = Some kids \<and>
        root < next_ptr s' \<and> root \<notin> set kids \<and>
        (\<forall>c\<in>set kids. c \<noteq> 0 \<and> c < next_ptr s' \<and> (\<exists>f. files s' c = Some f \<and> f_inode f = c))"
      using root dc live 1 s1 s0(3) nr r fp
      by (intro exI [of _ fs] exI [of _ root] exI [of _ "kids @ [fp]"]) (auto simp: s'_def)
    show "distinct (map (child_name s') (tmpfs_kids fsp s'))"
      using self fresh 1(10) unfolding kids' map_append map_eq(2) by simp
    show "0 < next_ptr s'" using s1 by (simp add: s'_def)
    show "\<forall>p\<ge>next_ptr s'. files s' p = None" using s1 1 s0(3) r fp by (auto simp: s'_def)
  qed
  then show ?thesis using push names fp s0(3) by auto
qed

lemma adds_name_new:
  assumes "tmpfs_ok fsp s" "fses s fsp = Some fs" "fs_private fs = FP_root root" "tmpfs_names fsp s n = None"
    "f_path f = n" "fses s0 = fses s" "files s0 = files s" "next_ptr s \<le> next_ptr s0"
  shows "adds_name fsp n s
    (let (fp, s) = new_file f s0 in Option.bind (push_child root fp s) (\<lambda>s. Some (fp, s)))"
  using tmpfs_push_new [OF assms(1-8), of "fst (new_file f s0)" "snd (new_file f s0)"] assms(4)
  by (auto simp: adds_name_def split_beta)

text \<open>The four creating operations add the name.\<close>

lemma create_adds_name:
  assumes ok: "tmpfs_ok fsp s" and n: "is_name n"
  shows tmpfs_create_adds: "adds_name fsp n s (tmpfs_create env fsp (slash # n) mode uid gid s)"
    and tmpfs_mkfifo_adds: "adds_name fsp n s (tmpfs_mkfifo env fsp (slash # n) mode uid gid s)"
    and tmpfs_mkdir_adds: "adds_name fsp n s (tmpfs_mkdir env fsp (slash # n) mode uid gid s)"
    and tmpfs_mknod_adds: "adds_name fsp n s (tmpfs_mknod env fsp (slash # n) mode uid gid dev s)"
proof -
  obtain root fs where r: "fses s fsp = Some fs" "fs_private fs = FP_root root" and find:
    "tmpfs_find fsp (slash # n) s =
       Some (case tmpfs_names fsp s n of None \<Rightarrow> (1, None, Some root) | Some c \<Rightarrow> (0, Some c, Some root))"
    using tmpfs_find_name [OF ok n] by blast
  note add = adds_name_new [OF ok r]
  note defs = tmpfs_create_def tmpfs_mkfifo_def tmpfs_mkdir_def tmpfs_mknod_def
  note op = tmpfs_open_name [OF ok n]
  show "adds_name fsp n s (tmpfs_create env fsp (slash # n) mode uid gid s)"
  proof (cases "tmpfs_names fsp s n")
    case None from add [OF this] show ?thesis using None find n by (simp add: defs)
  qed (use find op in \<open>simp add: defs adds_name_def\<close>)
  show "adds_name fsp n s (tmpfs_mkfifo env fsp (slash # n) mode uid gid s)"
  proof (cases "tmpfs_names fsp s n")
    case None from add [OF this] show ?thesis using None find n by (simp add: defs new_pipe_def)
  qed (use find op in \<open>simp add: defs adds_name_def\<close>)
  show "adds_name fsp n s (tmpfs_mkdir env fsp (slash # n) mode uid gid s)"
  proof (cases "tmpfs_names fsp s n")
    case None from add [OF this] show ?thesis using None find n by (simp add: defs)
  qed (use find op in \<open>simp add: defs adds_name_def\<close>)
  show "adds_name fsp n s (tmpfs_mknod env fsp (slash # n) mode uid gid dev s)"
  proof (cases "tmpfs_names fsp s n")
    case None from add [OF this] show ?thesis using None find n by (simp add: defs)
  qed (use find op in \<open>simp add: defs adds_name_def\<close>)
qed

lemma tmpfs_names_in_kids:
  assumes "tmpfs_ok fsp s" and "tmpfs_names fsp s n = Some c"
  shows "c \<in> set (tmpfs_kids fsp s) \<and> child_name s c = n \<and> c \<noteq> 0"
  using assms(1)
proof (cases rule: tmpfs_okE)
  case (1 fs root kids rf f par)
  from map_of_SomeD [OF assms(2) [unfolded tmpfs_names_def]] show ?thesis using 1(6,9) by auto
qed

lemma open_name_names:
  assumes "tmpfs_ok fsp s" and "is_name n"
  shows "open_name fsp n s = tmpfs_names fsp s n"
  using tmpfs_open_name [OF assms] tmpfs_names_in_kids [OF assms(1), of n]
  by (auto simp: open_name_def split: option.splits)

lemma name_serviceI:
  assumes "\<And>n (s :: 'd kstate). tmpfs_ok fsp s \<Longrightarrow> is_name n \<Longrightarrow> adds_name fsp n s (mk n s)"
  shows "name_service (tmpfs_ok fsp) (tmpfs_names fsp) is_name (open_name fsp) mk"
proof
  fix s :: "'d kstate" and n p m
  show "open_name fsp n s = tmpfs_names fsp s n" if "tmpfs_ok fsp s" "is_name n"
    by (rule open_name_names [OF that])
  show "n = m" if "tmpfs_ok fsp s" "tmpfs_names fsp s n = Some p" "tmpfs_names fsp s m = Some p"
    using tmpfs_names_in_kids [OF that(1)] that by metis
  show "mk n s = Some (p, s)" if "tmpfs_ok fsp s" "is_name n" "tmpfs_names fsp s n = Some p"
    using assms [OF that(1,2)] that(3) by (simp add: adds_name_def)
  show "\<exists>p s'. mk n s = Some (p, s') \<and> tmpfs_ok fsp s' \<and> tmpfs_names fsp s' = (tmpfs_names fsp s)(n \<mapsto> p)"
    if "tmpfs_ok fsp s" "is_name n" "tmpfs_names fsp s n = None"
    using assms [OF that(1,2)] that(3) by (auto simp: adds_name_def)
qed

interpretation tcreate: name_service "tmpfs_ok fsp" "tmpfs_names fsp" is_name "open_name fsp"
  "\<lambda>n. tmpfs_create env fsp (slash # n) mode uid gid" for fsp env mode uid gid
  by (rule name_serviceI) (rule tmpfs_create_adds)

interpretation tmknod: name_service "tmpfs_ok fsp" "tmpfs_names fsp" is_name "open_name fsp"
  "\<lambda>n. tmpfs_mknod env fsp (slash # n) mode uid gid dev" for fsp env mode uid gid dev
  by (rule name_serviceI) (rule tmpfs_mknod_adds)

lemma tmpfs_mount_ok:
  assumes "\<forall>p\<ge>next_ptr s. files s p = None" and "tmpfs_mount env dev s = Some (fsp, s')"
  shows "tmpfs_ok fsp s' \<and> tmpfs_names fsp s' = Map.empty"
proof -
  have s': "fses s' fsp = Some \<lparr>fs_ops = 2, fs_dev = dev, fs_private = FP_root (next_ptr s + 1)\<rparr>"
      "dir_children (next_ptr s + 1) s' = Some []" "next_ptr s' = next_ptr s + 2"
      "files s' p = (if p = next_ptr s + 1 then files s' p else files s p)" for p
    using assms(2) by (auto simp: tmpfs_mount_def Let_def new_file_def dir_children_def)
  have "tmpfs_kids fsp s' = []" using s'(1,2) by (simp add: tmpfs_kids_def)
  moreover have "files s' p = None" if "p \<ge> next_ptr s'" for p
    using that s'(3) s'(4) [of p] assms(1) by simp
  ultimately show ?thesis using s'(1-3) by (simp add: tmpfs_ok_def tmpfs_names_def)
qed

lemma length_krealloc_bytes [simp]: "length (krealloc_bytes env n d) = n"
  by (simp add: krealloc_bytes_def)

lemma take_krealloc_bytes: "k \<le> length d \<Longrightarrow> k \<le> n \<Longrightarrow> take k (krealloc_bytes env n d) = take k d"
  by (rule nth_equalityI) (auto simp: krealloc_bytes_def)

lemma drop_take_put_list: "i + length xs \<le> length bs \<Longrightarrow> take (length xs) (drop i (put_list bs i xs)) = xs"
  by (simp add: put_list_def)

lemma tmpfs_write_effect:
  assumes "files s fp = Some f" and "data_ok f d" and "buf \<noteq> []" and "unat off + length buf < 2 ^ 64"
  shows "\<exists>d' f'. tmpfs_write env fp buf off s = Some (sint (of_nat (length buf) :: u64), set_file fp f' s) \<and>
    data_ok f' d' \<and> length d' = max (length d) (unat off + length buf) \<and>
    take (length buf) (drop (unat off) d') = buf \<and>
    (\<forall>k. k \<le> unat off \<longrightarrow> k \<le> length d \<longrightarrow> take k d' = take k d) \<and>
    drop (unat off + length buf) d' = drop (unat off + length buf) d"
proof -
  let ?c = "of_nat (length buf) :: u64"
  have c: "unat ?c = length buf" using assms(4) by (intro unat_of_nat_id) simp
  have co: "unat (?c + off) = length buf + unat off" using assms(4) c by (simp add: nat_word)
  have c0: "?c \<noteq> 0" using c assms(3) by (metis length_0_conv unat_0)
  have len: "unat (f_length f) = length d" and dat: "data_of (f_private f) = Some d"
    using assms(2) by (simp_all add: data_ok_def)
  define e where "e = (if ?c + off > f_length f then krealloc_bytes env (unat (?c + off)) d else d)"
  define l where "l = (if ?c + off > f_length f then ?c + off else f_length f)"
  have lene: "length e = max (length d) (unat off + length buf)" and lene': "unat l = length e"
    using co len by (auto simp: e_def l_def word_less_nat_alt)
  have fit: "unat off + length buf \<le> length e" using lene by simp
  have tk: "take k e = take k d" if "k \<le> length d" "k \<le> unat off" for k
    using that co take_krealloc_bytes [OF that(1), of "unat (?c + off)" env] by (simp add: e_def)
  have dr: "drop (unat off + length buf) e = drop (unat off + length buf) d"
    using co len by (auto simp: e_def word_less_nat_alt)
  let ?d = "put_list e (unat off) buf"
  let ?f = "f\<lparr>f_length := l, f_private := PD_bytes ?d\<rparr>"
  have "tmpfs_write env fp buf off s = Some (sint ?c, set_file fp ?f s)"
    using assms(1) dat c0 fit
    by (cases "?c + off > f_length f") (simp_all add: tmpfs_write_def Let_def e_def l_def linorder_not_less)
  moreover have "data_ok ?f ?d" using lene' fit by (simp add: data_ok_def data_of_def)
  moreover have "take k ?d = take k d" if "k \<le> unat off" "k \<le> length d" for k
    using that tk [OF that(2,1)] fit by (simp add: put_list_def)
  moreover have "drop (unat off + length buf) ?d = drop (unat off + length buf) d"
    using dr fit by (simp add: put_list_def)
  ultimately show ?thesis using lene fit drop_take_put_list [OF fit]
    by (intro exI [of _ ?d] exI [of _ ?f] conjI) auto
qed

lemma tmpfs_read_effect:
  assumes "files s fp = Some f" and "data_ok f d" and "unat off + unat n \<le> length d"
  shows "tmpfs_read fp off n s = Some (sint off, take (unat n) (drop (unat off) d), s)"
proof -
  have len: "unat (f_length f) = length d" and dat: "data_of (f_private f) = Some d"
    using assms(2) by (simp_all add: data_ok_def)
  have "unat n + unat off \<le> unat (f_length f)" using assms(3) len by simp
  from le_less_trans [OF this unat_lt64] have "unat (n + off) = unat n + unat off"
    by (intro unat_add_small) simp
  then have no: "\<not> n + off > f_length f" using assms(3) len unfolding word_less_nat_alt by simp
  show ?thesis
    using assms(1,3) dat no by (cases "n = 0") (simp_all only: tmpfs_read_def Let_def if_False, simp_all)
qed

text \<open>A path with two components: the second lookup is of the empty name.\<close>

lemma short_name_append: "slash \<notin> set a \<Longrightarrow> short_name_loop (a @ slash # b) = a"
  by (induction a) auto

lemma tmpfs_find_nested:
  assumes "tmpfs_ok fsp s" and "is_name a" and "tmpfs_names fsp s a = Some d"
    and "dir_children d s = Some kids" and "finddir_loop kids [] s = Some None"
  shows "tmpfs_find fsp (slash # a @ slash # b) s = Some (1, None, Some d)"
  using assms(1)
proof (cases rule: tmpfs_okE)
  case (1 fs root rkids rf f par)
  have "finddir_loop rkids a s = Some (Some \<lparr>de_name = a, de_serial = d\<rparr>)"
    using finddir_loop_names [of rkids s a] 1 assms(3) by (simp add: tmpfs_names_def)
  moreover have "find_loop (slash # b) d (Some root) s = Some (1, None, Some d)"
    using assms(4,5) by (subst find_loop.simps) (simp add: tmpfs_finddir_def)
  ultimately have "find_loop (a @ slash # b) root None s = Some (1, None, Some d)"
    using 1 assms(2) by (subst find_loop.simps) (simp add: tmpfs_finddir_def short_name_append is_name_def)
  then show ?thesis using 1 by (simp add: tmpfs_find_def)
qed

lemma tmpfs_ok_other_dir:
  assumes "tmpfs_ok fsp s" and "d \<in> set (tmpfs_kids fsp s)" and "files s d = Some df"
    and "fses s' = fses s" and "next_ptr s' = next_ptr s + 1"
    and "files s' = (files s)(next_ptr s \<mapsto> nf, d \<mapsto> df\<lparr>f_private := pd\<rparr>)"
  shows "tmpfs_ok fsp s' \<and> tmpfs_names fsp s' = tmpfs_names fsp s"
  using assms(1)
proof (cases rule: tmpfs_okE)
  case (1 fs root kids rf f par)
  have d: "d \<in> set kids" using assms(2) 1 by simp
  have root: "root \<noteq> d" "root \<noteq> next_ptr s" "next_ptr s \<notin> set kids" using d 1 by auto
  then have dc: "dir_children root s' = Some kids" using 1 assms(6) by (simp add: dir_children_def)
  then have kids': "tmpfs_kids fsp s' = kids" using 1 assms(4) by (simp add: tmpfs_kids_def)
  have nm: "child_name s' c = child_name s c" if "c \<in> set kids" for c
    using that root assms(3,6) by (auto simp: child_name_def)
  have mp: "map (child_name s') kids = map (child_name s) kids"
    "map (\<lambda>c. (child_name s' c, c)) kids = map (\<lambda>c. (child_name s c, c)) kids" using nm by auto
  have live: "c \<noteq> 0 \<and> c < next_ptr s' \<and> (\<exists>f. files s' c = Some f \<and> f_inode f = c)" if "c \<in> set kids" for c
    using that 1(9) assms(3,5,6) root by (cases "c = d") force+
  have "tmpfs_ok fsp s'"
    unfolding tmpfs_ok_def kids' mp(1)
  proof (intro conjI exI)
    show "fses s' fsp = Some fs" "fs_private fs = FP_root root" "dir_children root s' = Some kids"
      using 1 assms(4) dc by simp_all
    show "\<forall>p\<ge>next_ptr s'. files s' p = None" using 1 d assms(5,6) by auto
  qed (use 1 live assms(5) root in auto)
  then show ?thesis by (simp only: tmpfs_names_def 1(6) kids' mp(2))
qed

lemma tmpfs_create_nested:
  assumes ok: "tmpfs_ok fsp s" and a: "is_name a" and d: "tmpfs_names fsp s a = Some d"
    and df: "files s d = Some df" "f_private df = PD_dir self [] par"
  shows "\<exists>fp s' f. tmpfs_create env fsp (slash # a @ slash # b) mode uid gid s = Some (fp, s') \<and>
       dir_children d s' = Some [fp] \<and> files s' fp = Some f \<and> f_path f = a \<and>
       tmpfs_ok fsp s' \<and> tmpfs_names fsp s' a = Some d"
proof -
  have dk: "d \<in> set (tmpfs_kids fsp s)" using tmpfs_names_in_kids [OF ok d] by simp
  have dn: "d \<noteq> next_ptr s" using ok dk by (cases rule: tmpfs_okE) auto
  have find: "tmpfs_find fsp (slash # a @ slash # b) s = Some (1, None, Some d)"
    using tmpfs_find_nested [OF ok a d, of "[]"] df by (simp add: dir_children_def)
  define nf where "nf = (fresh_file env uid gid (S_IFREG OR mode))
    \<lparr>f_file_ops := tmpfs_file_ops_addr, f_fs := fsp, f_path := a, f_inode := next_ptr s\<rparr>"
  define s1 where "s1 = (set_file (next_ptr s) nf s)\<lparr>next_ptr := next_ptr s + 1\<rparr>"
  define s' where "s' = set_file d (df\<lparr>f_private := PD_dir self [next_ptr s] par\<rparr>) s1"
  have sn: "short_name_loop (a @ slash # b) = a" using a by (simp add: short_name_append is_name_def)
  have "tmpfs_create env fsp (slash # a @ slash # b) mode uid gid s = Some (next_ptr s, s')"
    using find df dn by (simp add: tmpfs_create_def sn new_file_state push_child_def s'_def s1_def nf_def)
  moreover have "tmpfs_ok fsp s' \<and> tmpfs_names fsp s' = tmpfs_names fsp s"
    by (rule tmpfs_ok_other_dir [OF ok dk df(1), where nf = nf and pd = "PD_dir self [next_ptr s] par"])
      (simp_all add: s'_def s1_def)
  moreover have "dir_children d s' = Some [next_ptr s]" "files s' (next_ptr s) = Some nf" "f_path nf = a"
    using dn by (simp_all add: s'_def s1_def dir_children_def nf_def)
  ultimately show ?thesis using d by auto
qed

lemma finddir_loop_freed:
  assumes "c \<in> set kids" and "files s c = None" and "\<forall>k\<in>set kids. k \<noteq> c \<longrightarrow> (\<exists>f. files s k = Some f \<and> f_path f \<noteq> n)"
  shows "finddir_loop kids n s = None"
  using assms by (induction kids) auto

section \<open>Properties\<close>



text \<open>
  C18: Writing to a tmpfs file and reading the same range gives the bytes written; the bytes
  before and after the range stay, and the file grows to the end of the range when it was
  shorter. The value the read returns is the offset, not the number of bytes.
\<close>

theorem tmpfs_write_read:
  assumes "files s fp = Some f" and "data_ok f d" and "buf \<noteq> []" and "unat off + length buf < 2 ^ 64"
  shows "\<exists>f' d' s'. tmpfs_write env fp buf off s = Some (sint (of_nat (length buf) :: u64), s') \<and>
    files s' fp = Some f' \<and> data_ok f' d' \<and> length d' = max (length d) (unat off + length buf) \<and>
    (\<forall>k. k \<le> unat off \<longrightarrow> k \<le> length d \<longrightarrow> take k d' = take k d) \<and>
    drop (unat off + length buf) d' = drop (unat off + length buf) d \<and>
    tmpfs_read fp off (of_nat (length buf)) s' = Some (sint off, buf, s')"
proof -
  obtain d' f' where w: "tmpfs_write env fp buf off s = Some (sint (of_nat (length buf) :: u64), set_file fp f' s)"
      "data_ok f' d'" "length d' = max (length d) (unat off + length buf)"
      "take (length buf) (drop (unat off) d') = buf"
      "\<forall>k. k \<le> unat off \<longrightarrow> k \<le> length d \<longrightarrow> take k d' = take k d"
      "drop (unat off + length buf) d' = drop (unat off + length buf) d"
    using tmpfs_write_effect [OF assms, of env] by blast
  have c: "unat (of_nat (length buf) :: u64) = length buf" using assms(4) by (intro unat_of_nat_id) simp
  have "tmpfs_read fp off (of_nat (length buf)) (set_file fp f' s) =
      Some (sint off, take (length buf) (drop (unat off) d'), set_file fp f' s)"
    using tmpfs_read_effect [OF _ w(2), of "set_file fp f' s" fp off "of_nat (length buf)"] w(3) by (simp add: c)
  then show ?thesis using w
    by (intro exI [of _ f'] exI [of _ d'] exI [of _ "set_file fp f' s"]) simp
qed

text \<open>
  A path with two components never opens: the slash between them is not skipped, so
  the second component that is looked up is empty. Creating such a path does not create
  the second component but a file with the first component's name inside the directory.
\<close>

theorem tmpfs_nested_path_fails:
  assumes "tmpfs_ok fsp s" and "is_name a" and "tmpfs_names fsp s a = Some d"
    and "files s d = Some df" and "f_private df = PD_dir self [] par"
  shows "tmpfs_open fsp (slash # a @ slash # b) s = Some (0, s) \<and>
    (\<exists>fp s' f. tmpfs_create env fsp (slash # a @ slash # b) mode uid gid s = Some (fp, s') \<and>
       dir_children d s' = Some [fp] \<and> files s' fp = Some f \<and> f_path f = a \<and>
       tmpfs_open fsp (slash # a @ slash # b) s' = Some (0, s'))"
proof -
  note [simp] = tmpfs_open_def
  have "tmpfs_find fsp (slash # a @ slash # b) s = Some (1, None, Some d)"
    using tmpfs_find_nested [OF assms(1-3), of "[]"] assms(4,5) by (simp add: dir_children_def)
  moreover obtain fp s' f where c: "tmpfs_create env fsp (slash # a @ slash # b) mode uid gid s = Some (fp, s')"
      "dir_children d s' = Some [fp]" "files s' fp = Some f" "f_path f = a" "tmpfs_ok fsp s'" "tmpfs_names fsp s' a = Some d"
    using tmpfs_create_nested [OF assms(1-5), of env b mode uid gid] by blast
  moreover have "tmpfs_find fsp (slash # a @ slash # b) s' = Some (1, None, Some d)"
    using c(3,4) assms(2) by (intro tmpfs_find_nested [OF c(5) assms(2) c(6,2)]) (auto simp: is_name_def)
  ultimately show ?thesis by auto
qed

text \<open>
  Deleting a file frees it but leaves its address in the directory: the next lookup
  of its name reads the freed record.
\<close>

theorem tmpfs_deleted_name_dangles:
  assumes "tmpfs_ok fsp s" and "is_name n" and "tmpfs_names fsp s n = Some c"
    and "files s c = Some f" and "\<not> S_ISDIR (f_mode f)"
  shows "\<exists>s'. tmpfs_delete c s = Some (0, s') \<and> c \<in> set (tmpfs_kids fsp s') \<and> files s' c = None \<and>
    tmpfs_open fsp (slash # n) s' = None"
  using assms(1)
proof (cases rule: tmpfs_okE)
  case (1 fs root kids rf pf par)
  let ?s = "free_file c s"
  have c: "c \<in> set kids" "child_name s c = n" using tmpfs_names_in_kids [OF assms(1,3)] 1(6) by auto
  then have root: "root \<noteq> c" using 1(8) by auto
  have del: "tmpfs_delete c s = Some (0, ?s)" using assms(4,5) by (simp add: tmpfs_delete_def tmpfs_close_def)
  have dc: "dir_children root ?s = Some kids" using 1(4,5) root by (simp add: dir_children_def free_file_def)
  then have kids': "tmpfs_kids fsp ?s = kids" using 1(1,2) by (simp add: tmpfs_kids_def free_file_def)
  have "\<exists>f. files ?s k = Some f \<and> f_path f \<noteq> n" if "k \<in> set kids" "k \<noteq> c" for k
    using that 1(9,10) c by (force simp: free_file_def child_name_def distinct_map inj_on_def)
  then have "finddir_loop kids n ?s = None"
    using c(1) by (intro finddir_loop_freed [of c]) (auto simp: free_file_def)
  then have "find_loop n root None ?s = None"
    using dc assms(2) by (subst find_loop.simps) (simp add: tmpfs_finddir_def is_name_def [of n] short_name_is_name [OF assms(2)])
  then have "tmpfs_open fsp (slash # n) ?s = None"
    using 1(1,2) by (simp add: tmpfs_open_def tmpfs_find_def free_file_def)
  then show ?thesis using del kids' c(1) by (auto simp: free_file_def)
qed

section \<open>Witnesses\<close>

lemma ex_fs_mount: "tmpfs_mount ex_env 0 \<lparr>files = (\<lambda>_. None), pipes = (\<lambda>_. None), fses = (\<lambda>_. None),
    next_ptr = 1, disk = ()\<rparr> = Some (1, ex_fs)"
  by (simp add: ex_fs_def tmpfs_mount_def Let_def new_file_def)

lemma ex_fs_ok: "tmpfs_ok 1 ex_fs" "tmpfs_names 1 ex_fs = Map.empty"
  using tmpfs_mount_ok [OF _ ex_fs_mount] by simp_all



theorem tmpfs_write_read_witness:
  "data_ok ex_file [1, 2] \<and>
   (\<exists>s'. tmpfs_write ex_env 1 [7, 8] 1 (ex_fs\<lparr>files := [1 \<mapsto> ex_file]\<rparr>) = Some (2, s') \<and>
      tmpfs_read 1 1 2 s' = Some (1, [7, 8], s'))"
  using tmpfs_write_read [of "ex_fs\<lparr>files := [1 \<mapsto> ex_file]\<rparr>" 1 ex_file "[1, 2]" "[7, 8]" 1 ex_env]
  by (auto simp: data_ok_def data_of_def ex_file_def)

lemma ex_dir_fs_ok: "tmpfs_ok 1 ex_dir_fs" "tmpfs_names 1 ex_dir_fs (cstr ''d'') = Some 3"
proof -
  have fs: "fses ex_dir_fs 1 = Some \<lparr>fs_ops = 2, fs_dev = 0, fs_private = FP_root 2\<rparr>" "next_ptr ex_dir_fs = 4"
    by (simp_all add: ex_dir_fs_def ex_fs_def tmpfs_mount_def Let_def new_file_def)
  have kids: "dir_children 2 ex_dir_fs = Some [3]" by (simp add: ex_dir_fs_def dir_children_def)
  then have k: "tmpfs_kids 1 ex_dir_fs = [3]" using fs by (simp add: tmpfs_kids_def)
  have f3: "\<exists>f. files ex_dir_fs 3 = Some f \<and> f_inode f = 3" "child_name ex_dir_fs 3 = cstr ''d''"
    by (simp_all add: ex_dir_fs_def child_name_def)
  show "tmpfs_ok 1 ex_dir_fs" using fs kids k f3 by (auto simp: tmpfs_ok_def) (simp add: ex_dir_fs_def)
  show "tmpfs_names 1 ex_dir_fs (cstr ''d'') = Some 3" using k f3 by (simp add: tmpfs_names_def)
qed

lemma ex_file_fs_ok: "tmpfs_ok 1 ex_file_fs" "tmpfs_names 1 ex_file_fs (cstr ''d'') = Some 3"
proof -
  have fs: "fses ex_file_fs 1 = Some \<lparr>fs_ops = 2, fs_dev = 0, fs_private = FP_root 2\<rparr>" "next_ptr ex_file_fs = 4"
    by (simp_all add: ex_file_fs_def ex_fs_def tmpfs_mount_def Let_def new_file_def)
  have kids: "dir_children 2 ex_file_fs = Some [3]" by (simp add: ex_file_fs_def dir_children_def)
  then have k: "tmpfs_kids 1 ex_file_fs = [3]" using fs by (simp add: tmpfs_kids_def)
  have f3: "\<exists>f. files ex_file_fs 3 = Some f \<and> f_inode f = 3" "child_name ex_file_fs 3 = cstr ''d''"
    by (simp_all add: ex_file_fs_def child_name_def)
  show "tmpfs_ok 1 ex_file_fs" using fs kids k f3 by (auto simp: tmpfs_ok_def) (simp add: ex_file_fs_def)
  show "tmpfs_names 1 ex_file_fs (cstr ''d'') = Some 3" using k f3 by (simp add: tmpfs_names_def)
qed

theorem tmpfs_nested_path_fails_witness:
  "tmpfs_ok 1 ex_dir_fs \<and> tmpfs_names 1 ex_dir_fs (cstr ''d'') = Some 3 \<and>
   tmpfs_open 1 (slash # cstr ''d'' @ slash # cstr ''f'') ex_dir_fs = Some (0, ex_dir_fs)"
  using tmpfs_nested_path_fails [OF ex_dir_fs_ok(1) _ ex_dir_fs_ok(2), of _ 3 2 "cstr ''f''" ex_env 0 0 0] ex_dir_fs_ok
  by (simp add: is_name_def ex_dir_fs_def)

theorem tmpfs_deleted_name_dangles_witness:
  "tmpfs_ok 1 ex_file_fs \<and> tmpfs_names 1 ex_file_fs (cstr ''d'') = Some 3 \<and>
   (\<exists>s'. tmpfs_delete 3 ex_file_fs = Some (0, s') \<and> tmpfs_open 1 (slash # cstr ''d'') s' = None)"
proof -
  let ?f = "(fresh_file ex_env 0 0 S_IFREG)\<lparr>f_inode := 3, f_path := cstr ''d''\<rparr>"
  have "files ex_file_fs 3 = Some ?f" "\<not> S_ISDIR (f_mode ?f)" "is_name (cstr ''d'')"
    by (simp_all add: ex_file_fs_def S_ISDIR_def fresh_file_def is_name_def)
  from tmpfs_deleted_name_dangles [OF ex_file_fs_ok(1) this(3) ex_file_fs_ok(2) this(1,2)] ex_file_fs_ok
  show ?thesis by blast
qed

end
