(* ===== verification/FatTable.thy ===== *)
theory FatTable
  imports Device
begin

text \<open>
  The first half of the FAT32 driver, \<^verbatim>\<open>src/src/kernel/fs/fat32.c\<close>: the file allocation table, chains
  of clusters and directories as arrays of entries. A volume is the device with the boot
  sector that mounting read; the driver's functions pass the state of the disk along. The
  loops along a chain may run forever on a chain with a cycle (\<^const>\<open>None\<close>). Blocks that the
  driver allocates are byte lists; that \<^verbatim>\<open>fat_chain_cluster_length\<close> reads whole clusters into a
  block of 512 bytes is not modelled.
\<close>

section \<open>The boot sector and directory entries\<close>

record 'd fat_vol =
  fv_dev :: "'d device_t"
  fv_boot :: "u8 list"

definition cluster_size :: "'d fat_vol \<Rightarrow> u8" where "cluster_size v = byte_at (fv_boot v) 13"
definition reserved_sectors :: "'d fat_vol \<Rightarrow> u16" where "reserved_sectors v = get16 (fv_boot v) 14"
definition table_count :: "'d fat_vol \<Rightarrow> u8" where "table_count v = byte_at (fv_boot v) 16"
definition table_size :: "'d fat_vol \<Rightarrow> u32" where "table_size v = get32 (fv_boot v) 36"
definition root_cluster :: "'d fat_vol \<Rightarrow> u32" where "root_cluster v = get32 (fv_boot v) 44"

text \<open>
  A directory entry; the bit fields of a time or a date share a word, \<open>get_field\<close> and \<open>set_field\<close>
  read and assign one of them.
\<close>

record dir_entry_t =
  filename :: "u8 list"
  flags :: u8
  reserved2 :: u8
  created_ticks :: u8
  created_time :: u16
  created_date :: u16
  accessed_date :: u16
  cluster_hi :: u16
  modified_time :: u16
  modified_date :: u16
  cluster_lo :: u16
  de_size :: u32

definition get_field :: "nat \<Rightarrow> nat \<Rightarrow> u16 \<Rightarrow> u16" where
  "get_field off len w = take_bit len (drop_bit off w)"

definition set_field :: "nat \<Rightarrow> nat \<Rightarrow> u16 \<Rightarrow> u16 \<Rightarrow> u16" where
  "set_field off len v w = (w AND NOT (push_bit off (mask len))) OR push_bit off (take_bit len v)"

definition decode_entry :: "u8 list \<Rightarrow> dir_entry_t" where
  "decode_entry bs = \<lparr>filename = take 11 bs, flags = byte_at bs 11, reserved2 = byte_at bs 12,
     created_ticks = byte_at bs 13, created_time = get16 bs 14, created_date = get16 bs 16,
     accessed_date = get16 bs 18, cluster_hi = get16 bs 20, modified_time = get16 bs 22,
     modified_date = get16 bs 24, cluster_lo = get16 bs 26, de_size = get32 bs 28\<rparr>"

definition bytes16 :: "u16 \<Rightarrow> u8 list" where
  "bytes16 v = [ucast v, ucast (drop_bit 8 v)]"

definition bytes32 :: "u32 \<Rightarrow> u8 list" where
  "bytes32 v = [ucast v, ucast (drop_bit 8 v), ucast (drop_bit 16 v), ucast (drop_bit 24 v)]"

definition encode_entry :: "dir_entry_t \<Rightarrow> u8 list" where
  "encode_entry e = filename e @ [flags e, reserved2 e, created_ticks e] @ bytes16 (created_time e) @
     bytes16 (created_date e) @ bytes16 (accessed_date e) @ bytes16 (cluster_hi e) @
     bytes16 (modified_time e) @ bytes16 (modified_date e) @ bytes16 (cluster_lo e) @ bytes32 (de_size e)"

definition is_directory :: "dir_entry_t \<Rightarrow> bool" where "is_directory e \<longleftrightarrow> bit (flags e) 4"
definition is_read_only :: "dir_entry_t \<Rightarrow> bool" where "is_read_only e \<longleftrightarrow> bit (flags e) 0"

text \<open>The first cluster of an entry, \<^verbatim>\<open>cluster_hi << 16 | cluster_lo\<close>.\<close>

definition entry_cluster :: "dir_entry_t \<Rightarrow> u32" where
  "entry_cluster e = push_bit 16 (ucast (cluster_hi e)) OR ucast (cluster_lo e)"

section \<open>Clusters and the table\<close>

definition fat_cluster_to_sector :: "'d fat_vol \<Rightarrow> u32 \<Rightarrow> u64" where
  "fat_cluster_to_sector v cluster =
     (let cluster = cluster - 2 in
      ucast cluster * ucast (cluster_size v) + ucast (reserved_sectors v) +
      ucast (table_count v) * ucast (table_size v))"

definition fat_sector :: "'d fat_vol \<Rightarrow> u32 \<Rightarrow> u64" where
  "fat_sector v cluster = ucast (ucast (reserved_sectors v) + (cluster * 4) div 512 :: u32)"

definition fat_get_next_cluster :: "'d fat_vol \<Rightarrow> u32 \<Rightarrow> 'd \<Rightarrow> u32 \<times> 'd" where
  "fat_get_next_cluster v cluster d =
     (case dev_read (fv_dev v) (fat_sector v cluster) 1 d of (_, buf, d) \<Rightarrow>
        (get32 buf (unat ((cluster * 4) mod 512)) AND 0xfffffff, d))"

definition fat_read_cluster :: "'d fat_vol \<Rightarrow> u32 \<Rightarrow> 'd \<Rightarrow> u32 \<times> u8 list \<times> 'd" where
  "fat_read_cluster v cluster d =
     (case dev_read (fv_dev v) (fat_cluster_to_sector v cluster) (ucast (cluster_size v)) d of (_, buf, d) \<Rightarrow>
      case fat_get_next_cluster v cluster d of (next, d) \<Rightarrow> (next, buf, d))"

abbreviation in_chain :: "u32 \<Rightarrow> bool" where
  "in_chain cluster \<equiv> cluster \<ge> 2 \<and> cluster < 0xffffff7"

partial_function (option) fat_read_cluster_chain :: "'d fat_vol \<Rightarrow> u32 \<Rightarrow> 'd \<Rightarrow> (u8 list \<times> 'd) option" where
  "fat_read_cluster_chain v cluster d =
     (if in_chain cluster then
        case fat_read_cluster v cluster d of (next, buf, d) \<Rightarrow>
        Option.bind (fat_read_cluster_chain v next d) (\<lambda>(rest, d). Some (buf @ rest, d))
      else Some ([], d))"

partial_function (option) chain_length_loop :: "'d fat_vol \<Rightarrow> u32 \<Rightarrow> u64 \<Rightarrow> 'd \<Rightarrow> (u64 \<times> 'd) option" where
  "chain_length_loop v cluster count d =
     (if in_chain cluster then
        case fat_read_cluster v cluster d of (next, _, d) \<Rightarrow> chain_length_loop v next (count + 1) d
      else Some (count, d))"

definition fat_chain_cluster_length :: "'d fat_vol \<Rightarrow> u32 \<Rightarrow> 'd \<Rightarrow> (u64 \<times> 'd) option" where
  "fat_chain_cluster_length v cluster d = chain_length_loop v cluster 0 d"

text \<open>The buffer is an array of bytes, so the assignment keeps the low byte of the new value.\<close>

definition fat_change_fat_value :: "'d fat_vol \<Rightarrow> u32 \<Rightarrow> u32 \<Rightarrow> 'd \<Rightarrow> 'd" where
  "fat_change_fat_value v current_cluster next_cluster d =
     (case dev_read (fv_dev v) (fat_sector v current_cluster) 1 d of (_, buf, d) \<Rightarrow>
      let buf = buf[unat ((current_cluster * 4) mod 512) := ucast next_cluster] in
      snd (dev_write (fv_dev v) (fat_sector v current_cluster) 1 buf d))"

text \<open>The search for a zero entry: over the 128 entries of a sector, and over the sectors.\<close>

definition free_in_sector :: "u8 list \<Rightarrow> nat option" where
  "free_in_sector buf = find (\<lambda>j. get32 buf (4 * j) = 0) [0..<128]"

fun find_free_loop :: "'d fat_vol \<Rightarrow> nat list \<Rightarrow> 'd \<Rightarrow> u32 \<times> 'd" where
  "find_free_loop v [] d = (0xfffffff, d)"
| "find_free_loop v (i # is) d =
     (case dev_read (fv_dev v) (ucast (reserved_sectors v) + of_nat i) 1 d of (_, buf, d) \<Rightarrow>
      case free_in_sector buf of
        Some j \<Rightarrow> (ucast (of_nat i * 128 + of_nat j :: u64) AND 0xfffffff, d)
      | None \<Rightarrow> find_free_loop v is d)"

definition fat_find_free_cluster :: "'d fat_vol \<Rightarrow> 'd \<Rightarrow> u32 \<times> 'd" where
  "fat_find_free_cluster v d = find_free_loop v [0..<unat (table_size v)] d"

fun free_chain_loop :: "'d fat_vol \<Rightarrow> nat \<Rightarrow> u32 \<Rightarrow> u32 \<Rightarrow> 'd \<Rightarrow> u32 \<times> 'd" where
  "free_chain_loop v 0 start previous d = (start, d)"
| "free_chain_loop v (Suc sz) start previous d =
     (case fat_find_free_cluster v d of (current, d) \<Rightarrow>
      let d = (if previous \<noteq> 0 then fat_change_fat_value v previous current d else d);
          d = fat_change_fat_value v current 0xffffff8 d;
          start = (if start = 0 then current else start)
      in free_chain_loop v sz start current d)"

text \<open>\<^const>\<open>None\<close> is the division by a cluster size of 0.\<close>

definition fat_find_free_cluster_chain :: "'d fat_vol \<Rightarrow> u64 \<Rightarrow> 'd \<Rightarrow> (u32 \<times> 'd) option" where
  "fat_find_free_cluster_chain v sz d =
     (let cs = ucast (cluster_size v) * 512 :: u64 in
      if cs = 0 then None
      else Some (free_chain_loop v (unat ((sz + (cs - 1)) div cs)) 0 0 d))"

partial_function (option) fat_free_chain :: "'d fat_vol \<Rightarrow> u32 \<Rightarrow> 'd \<Rightarrow> 'd option" where
  "fat_free_chain v cluster d =
     (case fat_get_next_cluster v cluster d of (next, d) \<Rightarrow>
      if next = 0 \<or> next = 0xffffff8 then Some d
      else fat_free_chain v next (fat_change_fat_value v cluster 0 d))"

section \<open>Directories\<close>

definition dir_size :: "'d fat_vol \<Rightarrow> u64 \<Rightarrow> u64" where
  "dir_size v clusters = clusters * ucast (cluster_size v) * 512"

text \<open>Entry \<open>i\<close> of a directory that was read.\<close>

definition entry_bytes :: "u8 list \<Rightarrow> nat \<Rightarrow> u8 list" where
  "entry_bytes entries i = take 32 (drop (32 * i) entries)"

definition entry_is_free :: "u8 list \<Rightarrow> nat \<Rightarrow> bool" where
  "entry_is_free entries i \<longleftrightarrow> byte_at entries (32 * i) = 0 \<or> byte_at entries (32 * i) = 0xe5"

definition fat_get_free_dir_entry :: "'d fat_vol \<Rightarrow> u32 \<Rightarrow> 'd \<Rightarrow> (u32 \<times> 'd) option" where
  "fat_get_free_dir_entry v directory d = do {
     let directory = (if directory = 0 then root_cluster v else directory);
     (n, d) \<leftarrow> fat_chain_cluster_length v directory d;
     (entries, d) \<leftarrow> fat_read_cluster_chain v directory d;
     Some (case find (entry_is_free entries) [0..<unat (dir_size v n div 32)] of
             Some i \<Rightarrow> of_nat i
           | None \<Rightarrow> 0xfffffff, d)
   }"

fun free_entry_loop :: "'d fat_vol \<Rightarrow> u32 \<Rightarrow> nat \<Rightarrow> u32 \<Rightarrow> u32 \<Rightarrow> 'd \<Rightarrow> (u32 \<times> u32 \<times> 'd) option" where
  "free_entry_loop v directory 0 start old_cluster d = Some (start, old_cluster, d)"
| "free_entry_loop v directory (Suc n) start old_cluster d = do {
     (new_cluster, d) \<leftarrow> fat_get_free_dir_entry v directory d;
     let d = (if old_cluster \<noteq> 0 then fat_change_fat_value v old_cluster new_cluster d else d);
     let start = (if start = 0 then new_cluster else start);
     free_entry_loop v directory n start new_cluster d
   }"

text \<open>With a count of 0 the last cluster is uninitialised (\<^const>\<open>None\<close>).\<close>

definition fat_get_free_dir_entry_chain :: "'d fat_vol \<Rightarrow> u32 \<Rightarrow> nat \<Rightarrow> 'd \<Rightarrow> (u32 \<times> 'd) option" where
  "fat_get_free_dir_entry_chain v directory count d = do {
     (start, new_cluster, d) \<leftarrow> free_entry_loop v directory count 0 0 d;
     if count = 0 then None else Some (start, fat_change_fat_value v new_cluster 0xffffff8 d)
   }"

definition fat_write_cluster :: "'d fat_vol \<Rightarrow> u8 list \<Rightarrow> u32 \<Rightarrow> 'd \<Rightarrow> u32 \<times> 'd" where
  "fat_write_cluster v buffer cluster d =
     (let d = snd (dev_write (fv_dev v) (fat_cluster_to_sector v cluster) (ucast (cluster_size v))
                     (take (unat (cluster_size v) * 512) buffer) d)
      in fat_get_next_cluster v cluster d)"

partial_function (option) fat_write_cluster_chain :: "'d fat_vol \<Rightarrow> u8 list \<Rightarrow> u32 \<Rightarrow> 'd \<Rightarrow> 'd option" where
  "fat_write_cluster_chain v buffer cluster d =
     (if in_chain cluster then
        case fat_write_cluster v buffer cluster d of (next, d) \<Rightarrow>
        fat_write_cluster_chain v (drop (unat (cluster_size v) * 512) buffer) next d
      else Some d)"

text \<open>An index equal to the number of entries passes the check; the store behind the block is \<^const>\<open>None\<close>.\<close>

definition fat_set_dir_entry :: "'d fat_vol \<Rightarrow> u32 \<Rightarrow> u64 \<Rightarrow> u8 list \<Rightarrow> 'd \<Rightarrow> 'd option" where
  "fat_set_dir_entry v directory index entry d = do {
     let directory = (if directory = 0 then root_cluster v else directory);
     (n, d) \<leftarrow> fat_chain_cluster_length v directory d;
     let sz = dir_size v n;
     if index > sz div 32 then Some d
     else do {
       (entries, d) \<leftarrow> fat_read_cluster_chain v directory d;
       if 32 * unat index + 32 > unat sz then None
       else fat_write_cluster_chain v (put_list entries (32 * unat index) entry) directory d
     }
   }"

text \<open>The sum is reduced to a byte at each assignment.\<close>

definition fat_get_short_filename_checksum :: "u8 list \<Rightarrow> u8" where
  "fat_get_short_filename_checksum name =
     fold (\<lambda>c sum. push_bit 7 (sum AND 1) + drop_bit 1 sum + c) (take 11 name) 0"

section \<open>The table and the chains on a disk image\<close>

text \<open>
  The driver runs on an image with sectors of 512 bytes. \<open>fat_entry\<close> is the table's entry of a cluster, \<open>is_chain\<close>
  the list of clusters that following the table from a cluster gives, \<open>cluster_bytes\<close> the data of
  a cluster.
\<close>

definition fat_driver :: "'d fat_vol \<Rightarrow> ('d \<Rightarrow> nat \<Rightarrow> u8) \<Rightarrow> bool" where
  "fat_driver v img \<longleftrightarrow> block_driver (fv_dev v) img \<and> dev_block_size (fv_dev v) = 512"

definition entry_addr :: "'d fat_vol \<Rightarrow> u32 \<Rightarrow> nat" where
  "entry_addr v c = unat (fat_sector v c) * 512 + unat ((c * 4) mod 512)"

definition fat_entry :: "'d fat_vol \<Rightarrow> (nat \<Rightarrow> u8) \<Rightarrow> u32 \<Rightarrow> u32" where
  "fat_entry v im c = get32 (img_bytes im (entry_addr v c) 4) 0"

fun is_chain :: "'d fat_vol \<Rightarrow> (nat \<Rightarrow> u8) \<Rightarrow> u32 \<Rightarrow> u32 list \<Rightarrow> bool" where
  "is_chain v im c [] \<longleftrightarrow> \<not> in_chain c"
| "is_chain v im c (x # xs) \<longleftrightarrow> in_chain c \<and> x = c \<and> is_chain v im (fat_entry v im c AND 0xfffffff) xs"

definition cluster_addr :: "'d fat_vol \<Rightarrow> u32 \<Rightarrow> nat" where
  "cluster_addr v c = unat (fat_cluster_to_sector v c) * 512"

definition cluster_len :: "'d fat_vol \<Rightarrow> nat" where
  "cluster_len v = unat (cluster_size v) * 512"

definition cluster_bytes :: "'d fat_vol \<Rightarrow> (nat \<Rightarrow> u8) \<Rightarrow> u32 \<Rightarrow> u8 list" where
  "cluster_bytes v im c = img_bytes im (cluster_addr v c) (cluster_len v)"

definition chain_bytes :: "'d fat_vol \<Rightarrow> (nat \<Rightarrow> u8) \<Rightarrow> u32 list \<Rightarrow> u8 list" where
  "chain_bytes v im cs = concat (map (cluster_bytes v im) cs)"

text \<open>A cluster that the table has an entry for, on a volume with at least one table.\<close>

definition in_table :: "'d fat_vol \<Rightarrow> u32 \<Rightarrow> bool" where
  "in_table v c \<longleftrightarrow> in_chain c \<and> unat c < 128 * unat (table_size v) \<and> table_count v \<noteq> 0"

text \<open>
  A small volume for the witnesses: one reserved sector, one table of one sector, clusters of one
  sector; cluster 2 is the root directory, all of whose bytes are 0, and cluster 3 is free.
\<close>

definition ex_boot :: "u8 list" where
  "ex_boot = (replicate 512 0)[13 := 1, 14 := 1, 16 := 1, 36 := 1, 44 := 2]"

definition ex_vol :: "(nat \<Rightarrow> u8) fat_vol" where
  "ex_vol = \<lparr>fv_dev = ram_disk, fv_boot = ex_boot\<rparr>"

definition ex_image :: "nat \<Rightarrow> u8" where
  "ex_image = (\<lambda>_. 0)(512 := 0xf8, 516 := 0xf8, 520 := 0xf8, 521 := 0xff, 522 := 0xff, 523 := 0x0f)"

lemma byte_at_img_bytes: "i < n \<Longrightarrow> byte_at (img_bytes im off n) i = im (off + i)"
  by (simp add: byte_at_def img_bytes_def)

lemma get32_img_bytes: "i + 4 \<le> n \<Longrightarrow> get32 (img_bytes im off n) i = get32 (img_bytes im (off + i) 4) 0"
  by (simp add: get32_def get16_def byte_at_img_bytes algebra_simps)

lemma mod512: "unat ((c * 4 :: u32) mod 512) + 4 \<le> 512"
proof -
  have "unat (c * 4) = (unat c * 4) mod 2 ^ 32" by (simp add: unat_word_ariths)
  then have "4 dvd unat (c * 4)" by (simp only:) (rule dvd_mod, simp_all)
  then have "4 dvd unat ((c * 4 :: u32) mod 512)" unfolding unat_mod by (rule dvd_mod) simp
  moreover have "unat ((c * 4 :: u32) mod 512) < 512" by (simp add: unat_mod)
  ultimately show ?thesis by (elim dvdE) simp
qed

lemma next_cluster_img:
  assumes "fat_driver v img"
  shows "fat_get_next_cluster v c d = (fat_entry v (img d) c AND 0xfffffff, d)"
proof -
  obtain r where "dev_read (fv_dev v) (fat_sector v c) 1 d = (r, img_bytes (img d) (unat (fat_sector v c) * 512) 512, d)"
    using assms block_driver_read [of "fv_dev v" img "fat_sector v c" 1 d] by (auto simp: fat_driver_def)
  then show ?thesis
    using get32_img_bytes [OF mod512 [of c], of "img d" "unat (fat_sector v c) * 512"]
    by (simp add: fat_get_next_cluster_def fat_entry_def entry_addr_def)
qed

lemma unat_ucast_less:
  assumes "LENGTH('a) \<le> LENGTH('b)"
  shows "unat (ucast (b :: 'a::len word) :: 'b::len word) = unat b"
  using less_le_trans [OF unsigned_less [of b, where 'a = nat] power_increasing [OF assms]]
  by (simp add: unsigned_ucast_eq take_bit_nat_eq_self_iff)

lemma unat_ucast_u8: "unat (ucast (b :: u8) :: u64) = unat b"
  by (rule unat_ucast_less) simp

lemma read_cluster_img:
  assumes "fat_driver v img"
  shows "fat_read_cluster v c d = (fat_entry v (img d) c AND 0xfffffff, cluster_bytes v (img d) c, d)"
proof -
  obtain r where "dev_read (fv_dev v) (fat_cluster_to_sector v c) (ucast (cluster_size v)) d =
      (r, cluster_bytes v (img d) c, d)"
    using assms block_driver_read [of "fv_dev v" img "fat_cluster_to_sector v c" "ucast (cluster_size v)" d]
    by (auto simp: fat_driver_def cluster_bytes_def cluster_addr_def cluster_len_def unat_ucast_u8)
  then show ?thesis by (simp add: fat_read_cluster_def next_cluster_img [OF assms])
qed

lemma read_chain_img:
  assumes "fat_driver v img" and "is_chain v (img d) c cs"
  shows "fat_read_cluster_chain v c d = Some (chain_bytes v (img d) cs, d)"
  using assms(2)
proof (induction cs arbitrary: c)
  case Nil then show ?case by (subst fat_read_cluster_chain.simps) (auto simp: chain_bytes_def)
next
  case (Cons x cs) then show ?case
    by (subst fat_read_cluster_chain.simps) (simp add: read_cluster_img [OF assms(1)] chain_bytes_def)
qed

lemma chain_length_img:
  assumes "fat_driver v img" and "is_chain v (img d) c cs"
  shows "chain_length_loop v c n d = Some (n + of_nat (length cs), d)"
  using assms(2)
proof (induction cs arbitrary: c n)
  case Nil then show ?case by (subst chain_length_loop.simps) auto
next
  case (Cons x cs) then show ?case
    by (subst chain_length_loop.simps) (simp add: read_cluster_img [OF assms(1)] algebra_simps)
qed

lemma read_chain_returns:
  assumes "fat_driver v img" and "fat_read_cluster_chain v c d = Some r"
  shows "\<exists>cs. is_chain v (img d) c cs"
  using assms(1)
proof (rule fat_read_cluster_chain.raw_induct [where P = "\<lambda>v c d r. fat_driver v img \<longrightarrow> (\<exists>cs. is_chain v (img d) c cs)",
      OF _ assms(2), THEN mp, rotated])
  fix rec :: "'a fat_vol \<Rightarrow> u32 \<Rightarrow> 'a \<Rightarrow> (u8 list \<times> 'a) option" and v c d r
  assume IH: "\<And>v c d r. rec v c d = Some r \<Longrightarrow> fat_driver v img \<longrightarrow> (\<exists>cs. is_chain v (img d) c cs)"
    and run: "(if in_chain c then case fat_read_cluster v c d of (next, buf, d) \<Rightarrow>
        Option.bind (rec v next d) (\<lambda>(rest, d). Some (buf @ rest, d)) else Some ([], d)) = Some r"
  show "fat_driver v img \<longrightarrow> (\<exists>cs. is_chain v (img d) c cs)"
  proof
    assume drv: "fat_driver v img"
    show "\<exists>cs. is_chain v (img d) c cs"
    proof (cases "in_chain c")
      case True
      then obtain r' where "rec v (fat_entry v (img d) c AND 0xfffffff) d = Some r'"
        using run by (auto simp: read_cluster_img [OF drv] split: bind_splits)
      with IH drv obtain cs where "is_chain v (img d) (fat_entry v (img d) c AND 0xfffffff) cs" by blast
      then have "is_chain v (img d) c (c # cs)" using True by simp
      then show ?thesis by blast
    next
      case False then have "is_chain v (img d) c []" by simp
      then show ?thesis by blast
    qed
  qed
qed

lemma entry_addr_eq:
  assumes "unat c < 2 ^ 28"
  shows "entry_addr v c = unat (reserved_sectors v) * 512 + 4 * unat c"
proof -
  have c4: "unat (c * 4) = unat c * 4" using assms by (simp add: unat_word_ariths)
  have r: "unat (ucast (reserved_sectors v) :: u32) = unat (reserved_sectors v)" "unat (reserved_sectors v) < 2 ^ 16"
    using unsigned_less [of "reserved_sectors v", where 'a = nat] by (simp_all add: unat_ucast_less)
  have "unat (c * 4 div 512) = unat c * 4 div 512" by (simp add: unat_div c4)
  moreover have "unat c * 4 div 512 < 2 ^ 28" using assms by simp
  moreover have "unat (reserved_sectors v) + unat c * 4 div 512 < 2 ^ 32"
    by (rule less_le_trans [OF add_strict_mono [OF r(2) calculation(2)]]) simp
  ultimately have "unat (ucast (reserved_sectors v) + c * 4 div 512 :: u32) = unat (reserved_sectors v) + unat c * 4 div 512"
    using r(1) by (subst unat_add_lem [THEN iffD1]) simp_all
  then have "unat (fat_sector v c) = unat (reserved_sectors v) + unat c * 4 div 512"
    by (simp add: fat_sector_def unat_ucast_less)
  then have "entry_addr v c = unat (reserved_sectors v) * 512 + (unat c * 4 div 512 * 512 + unat c * 4 mod 512)"
    by (simp only: entry_addr_def unat_mod c4 add_mult_distrib) simp
  then show ?thesis unfolding div_mult_mod_eq mult.commute [of 4 "unat c"] .
qed

lemma cluster_addr_eq:
  assumes "2 \<le> c"
  shows "cluster_addr v c = ((unat c - 2) * unat (cluster_size v) + unat (reserved_sectors v) +
    unat (table_count v) * unat (table_size v)) * 512"
proof -
  have "unat (c - 2) = unat c - 2" using assms by (simp add: unat_sub)
  then have a: "unat (ucast (c - 2) :: u64) = unat c - 2" by (simp add: unat_ucast_less)
  have b: "unat c < 2 ^ 32" "unat (cluster_size v) < 2 ^ 8" "unat (reserved_sectors v) < 2 ^ 16"
      "unat (table_count v) < 2 ^ 8" "unat (table_size v) < 2 ^ 32"
    using unsigned_less [of c, where 'a = nat] unsigned_less [of "cluster_size v", where 'a = nat]
      unsigned_less [of "reserved_sectors v", where 'a = nat] unsigned_less [of "table_count v", where 'a = nat]
      unsigned_less [of "table_size v", where 'a = nat] by simp_all
  have m1: "(unat c - 2) * unat (cluster_size v) < 2 ^ 32 * 2 ^ 8"
    by (rule mult_strict_mono [OF le_less_trans [OF diff_le_self b(1)] b(2)]) simp_all
  have m2: "unat (table_count v) * unat (table_size v) < 2 ^ 8 * 2 ^ 32"
    by (rule mult_strict_mono [OF b(4,5)]) simp_all
  have p1: "unat (ucast (c - 2) * ucast (cluster_size v) :: u64) = (unat c - 2) * unat (cluster_size v)"
    using m1 a by (subst unat_mult_lem [THEN iffD1]) (simp_all add: unat_ucast_less)
  have p2: "unat (ucast (table_count v) * ucast (table_size v) :: u64) = unat (table_count v) * unat (table_size v)"
    using m2 by (subst unat_mult_lem [THEN iffD1]) (simp_all add: unat_ucast_less)
  have "unat (fat_cluster_to_sector v c) = (unat c - 2) * unat (cluster_size v) + unat (reserved_sectors v) +
      unat (table_count v) * unat (table_size v)"
    unfolding fat_cluster_to_sector_def Let_def
  proof -
    let ?A = "(unat c - 2) * unat (cluster_size v)" and ?R = "unat (reserved_sectors v)"
    have s1: "?A + ?R < 2 ^ 32 * 2 ^ 8 + 2 ^ 16" by (rule add_strict_mono [OF m1 b(3)])
    have s2: "?A + ?R + unat (table_count v) * unat (table_size v) < 2 ^ 64"
      by (rule less_le_trans [OF add_strict_mono [OF s1 m2]]) simp
    have "unat (ucast (c - 2) * ucast (cluster_size v) + ucast (reserved_sectors v) :: u64) = ?A + ?R"
      using less_le_trans [OF s1, of "2 ^ 64"] p1 by (subst unat_add_small) (simp_all add: unat_ucast_less)
    then show "unat (ucast (c - 2) * ucast (cluster_size v) + ucast (reserved_sectors v) +
        ucast (table_count v) * ucast (table_size v) :: u64) = ?A + ?R + unat (table_count v) * unat (table_size v)"
      using s2 p2 by (subst unat_add_small) simp_all
  qed
  then show ?thesis by (simp add: cluster_addr_def)
qed

lemma in_chain_bounds: "in_chain c \<Longrightarrow> unat c < 2 ^ 28"
  by (simp add: word_less_nat_alt)

lemma img_write_update:
  "k < n \<Longrightarrow> img_write im off ((img_bytes im off n)[k := x]) = im(off + k := x)"
  by (rule ext) (auto simp: img_write_def img_bytes_def nth_list_update)

lemma change_fat_img:
  assumes "fat_driver v img"
  shows "img (fat_change_fat_value v c n d) = (img d)(entry_addr v c := ucast n)"
proof -
  let ?s = "fat_sector v c" and ?k = "unat ((c * 4) mod 512)"
  let ?b = "img_bytes (img d) (unat ?s * 512) 512"
  have k: "?k < 512" using mod512 [of c] by simp
  obtain r where rd: "dev_read (fv_dev v) ?s 1 d = (r, ?b, d)"
    using assms block_driver_read [of "fv_dev v" img ?s 1 d] by (auto simp: fat_driver_def)
  obtain r' d' where "dev_write (fv_dev v) ?s 1 (?b[?k := ucast n]) d = (r', d')"
      "img d' = img_write (img d) (unat ?s * 512) (?b[?k := ucast n])"
    using assms block_driver_write [of "fv_dev v" img "?b[?k := ucast n]" 1 ?s d] by (auto simp: fat_driver_def)
  then show ?thesis
    using rd img_write_update [OF k, of "img d" "unat ?s * 512"]
    by (simp add: fat_change_fat_value_def entry_addr_def Let_def)
qed

lemma write_cluster_img:
  assumes "fat_driver v img" and "cluster_len v \<le> length buf"
  obtains d' where "fat_write_cluster v buf c d = (fat_entry v (img d') c AND 0xfffffff, d')"
    "img d' = img_write (img d) (cluster_addr v c) (take (cluster_len v) buf)"
proof -
  have "length (take (unat (cluster_size v) * 512) buf) = unat (ucast (cluster_size v) :: u64) * unat (dev_block_size (fv_dev v))"
    using assms by (simp add: fat_driver_def cluster_len_def unat_ucast_u8)
  from block_driver_write [OF _ this, of img "fat_cluster_to_sector v c" d] assms(1) obtain r d' where
    "dev_write (fv_dev v) (fat_cluster_to_sector v c) (ucast (cluster_size v)) (take (unat (cluster_size v) * 512) buf) d = (r, d')"
    "img d' = img_write (img d) (cluster_addr v c) (take (cluster_len v) buf)"
    by (auto simp: fat_driver_def cluster_addr_def cluster_len_def)
  then show ?thesis
    using that [of d'] next_cluster_img [OF assms(1), of c d'] by (simp add: fat_write_cluster_def)
qed

text \<open>The table lies before the data, and different clusters do not overlap.\<close>

lemma entry_before_cluster:
  assumes "in_table v c" and "2 \<le> x" and "i < 4"
  shows "entry_addr v c + i < cluster_addr v x"
proof -
  have c: "unat c + 1 \<le> 128 * unat (table_size v)" "1 \<le> unat (table_count v)"
    using assms(1) by (auto simp: in_table_def unat_gt_0 Suc_le_eq)
  have e: "entry_addr v c = unat (reserved_sectors v) * 512 + 4 * unat c"
    using assms(1) by (intro entry_addr_eq in_chain_bounds) (simp add: in_table_def)
  have "1 * unat (table_size v) \<le> unat (table_count v) * unat (table_size v)" using c(2) by (rule mult_le_mono1)
  then have "unat (reserved_sectors v) + unat (table_size v) \<le> (unat x - 2) * unat (cluster_size v) +
      unat (reserved_sectors v) + unat (table_count v) * unat (table_size v)" by linarith
  then have "(unat (reserved_sectors v) + unat (table_size v)) * 512 \<le> cluster_addr v x"
    unfolding cluster_addr_eq [OF assms(2)] by (rule mult_le_mono1)
  moreover have "4 * unat c + i < 512 * unat (table_size v)" using c(1) assms(3) by simp
  ultimately show ?thesis unfolding e by simp
qed

lemma clusters_disjoint:
  assumes "2 \<le> c" and "2 \<le> x" and "c \<noteq> x" and "i < cluster_len v" and "j < cluster_len v"
  shows "cluster_addr v c + i \<noteq> cluster_addr v x + j"
proof -
  have lt: "cluster_addr v a + i < cluster_addr v b" if "2 \<le> a" "a < b" "i < cluster_len v" for a b i
  proof -
    have "unat a + 1 \<le> unat b" "2 \<le> unat a" using that by (simp_all add: word_less_nat_alt word_le_nat_alt)
    then have "(unat a - 2 + 1) * unat (cluster_size v) \<le> (unat b - 2) * unat (cluster_size v)"
      by (intro mult_le_mono1) simp
    moreover have "2 \<le> b" using that by simp
    ultimately show ?thesis
      using that unfolding cluster_addr_eq [OF that(1)] cluster_addr_eq [OF \<open>2 \<le> b\<close>] cluster_len_def
      by (simp add: algebra_simps)
  qed
  consider "c < x" | "x < c" using assms(3) by (metis neq_iff)
  then show ?thesis using lt [of c x i] lt [of x c j] assms by cases auto
qed

lemma img_bytes_cong: "(\<And>i. i < n \<Longrightarrow> im (a + i) = im' (a + i)) \<Longrightarrow> img_bytes im a n = img_bytes im' a n"
  by (rule nth_equalityI) (simp_all add: img_bytes_def)

lemma fat_entry_cong: "(\<And>i. i < 4 \<Longrightarrow> im (entry_addr v c + i) = im' (entry_addr v c + i)) \<Longrightarrow> fat_entry v im c = fat_entry v im' c"
  unfolding fat_entry_def by (subst img_bytes_cong) auto

lemma is_chain_cong:
  "(\<And>x. x \<in> set cs \<Longrightarrow> fat_entry v im x = fat_entry v im' x) \<Longrightarrow> is_chain v im c cs = is_chain v im' c cs"
  by (induction cs arbitrary: c) auto

lemma write_chain_img:
  assumes drv: "fat_driver v img" and "is_chain v (img d) c cs" and "distinct cs" and "\<forall>x\<in>set cs. in_table v x"
    and "length buf = length cs * cluster_len v"
  shows "\<exists>d'. fat_write_cluster_chain v buf c d = Some d' \<and> chain_bytes v (img d') cs = buf \<and>
    (\<forall>a. (\<forall>x\<in>set cs. \<forall>i<cluster_len v. a \<noteq> cluster_addr v x + i) \<longrightarrow> img d' a = img d a)"
  using assms(2-)
proof (induction cs arbitrary: c d buf)
  case Nil
  then show ?case by (subst fat_write_cluster_chain.simps) (auto simp: chain_bytes_def)
next
  case (Cons y cs)
  let ?n = "cluster_len v"
  have c: "in_chain c" "y = c" and rest: "is_chain v (img d) (fat_entry v (img d) c AND 0xfffffff) cs"
    using Cons.prems(1) by auto
  have tab: "in_table v c" "\<forall>x\<in>set cs. in_table v x" and len: "?n \<le> length buf" and new: "c \<notin> set cs"
    using Cons.prems(2-4) c(2) by auto
  obtain d1 where w: "fat_write_cluster v buf c d = (fat_entry v (img d1) c AND 0xfffffff, d1)"
      "img d1 = img_write (img d) (cluster_addr v c) (take ?n buf)"
    using write_cluster_img [OF drv len] by blast
  have same: "img d1 a = img d a" if "\<forall>i<?n. a \<noteq> cluster_addr v c + i" for a
    using that len w(2) unfolding img_write_def by (metis le_add_diff_inverse length_take min.absorb2 nat_add_left_cancel_less)
  have ge: "2 \<le> x" if "x \<in> set cs" for x using tab(2) that by (simp add: in_table_def)
  have ent: "fat_entry v (img d1) x = fat_entry v (img d) x" if "in_table v x" for x
    using entry_before_cluster [OF that, of c] c(1) by (intro fat_entry_cong same) fastforce
  have "is_chain v (img d1) (fat_entry v (img d1) c AND 0xfffffff) cs"
    using rest ent tab is_chain_cong [of cs v "img d1" "img d"] by simp
  from Cons.IH [OF this, of "drop ?n buf"] Cons.prems(2,4) tab(2) obtain d' where
    d': "fat_write_cluster_chain v (drop ?n buf) (fat_entry v (img d1) c AND 0xfffffff) d1 = Some d'"
      "chain_bytes v (img d') cs = drop ?n buf"
      "\<forall>a. (\<forall>x\<in>set cs. \<forall>i<?n. a \<noteq> cluster_addr v x + i) \<longrightarrow> img d' a = img d1 a"
    by auto
  have run: "fat_write_cluster_chain v buf c d = Some d'"
    using c(1) w(1) d'(1) by (subst fat_write_cluster_chain.simps) (simp add: cluster_len_def)
  have "img d' (cluster_addr v c + i) = take ?n buf ! i" if "i < ?n" for i
  proof -
    have "cluster_addr v c + i \<noteq> cluster_addr v x + j" if "x \<in> set cs" "j < ?n" for x j
      using clusters_disjoint [of c x i v j] c(1) ge [OF that(1)] new that \<open>i < ?n\<close> by auto
    then show ?thesis using d'(3) w(2) len that by (simp add: img_write_def)
  qed
  then have "cluster_bytes v (img d') c = take ?n buf"
    using len by (intro nth_equalityI) (simp_all add: cluster_bytes_def img_bytes_def)
  then have "chain_bytes v (img d') (y # cs) = buf" using d'(2) c(2) by (simp add: chain_bytes_def)
  moreover have "img d' a = img d a" if "\<forall>x\<in>set (y # cs). \<forall>i<?n. a \<noteq> cluster_addr v x + i" for a
    using that d'(3) same [of a] c(2) by simp
  ultimately show ?case using run by blast
qed

text \<open>The clusters of a chain that is written stay a chain, so it can be read back.\<close>

lemma write_chain_entries:
  assumes "\<forall>a. (\<forall>x\<in>set cs. \<forall>i<cluster_len v. a \<noteq> cluster_addr v x + i) \<longrightarrow> im' a = im a"
    and "\<forall>x\<in>set cs. in_table v x" and "in_table v y"
  shows "fat_entry v im' y = fat_entry v im y"
proof (rule fat_entry_cong)
  fix i :: nat assume "i < 4"
  then have "entry_addr v y + i < cluster_addr v x" if "x \<in> set cs" for x
    using entry_before_cluster [OF assms(3)] assms(2) that by (simp add: in_table_def)
  then have "\<forall>x\<in>set cs. \<forall>j<cluster_len v. entry_addr v y + i \<noteq> cluster_addr v x + j"
    by (metis not_add_less1)
  then show "im' (entry_addr v y + i) = im (entry_addr v y + i)" using assms(1) by blast
qed

section \<open>Free clusters and changed entries\<close>

lemma find_append: "find P (xs @ ys) = (case find P xs of Some x \<Rightarrow> Some x | None \<Rightarrow> find P ys)"
  by (induction xs) auto

lemma find_map: "find P (map f xs) = map_option f (find (P \<circ> f) xs)"
  by (induction xs) auto

lemma free_in_sector_img:
  assumes "i < 2 ^ 21"
  shows "free_in_sector (img_bytes im ((unat (reserved_sectors v) + i) * 512) 512) =
    find (\<lambda>j. fat_entry v im (of_nat (128 * i + j)) = 0) [0..<128]"
  unfolding free_in_sector_def
proof (rule find_cong)
  fix j assume "j \<in> set [0..<128]"
  then have j: "j < 128" by simp
  then have lt: "128 * i + j < 2 ^ 28" using assms by simp
  then have u: "unat (of_nat (128 * i + j) :: u32) = 128 * i + j" by (intro unat_of_nat_id) simp
  then have "entry_addr v (of_nat (128 * i + j)) = (unat (reserved_sectors v) + i) * 512 + 4 * j"
    using lt by (subst entry_addr_eq) (simp_all only: u, simp)
  then show "(get32 (img_bytes im ((unat (reserved_sectors v) + i) * 512) 512) (4 * j) = 0) =
      (fat_entry v im (of_nat (128 * i + j)) = 0)"
    using get32_img_bytes [of "4 * j" 512 im] j by (simp add: fat_entry_def)
qed simp

lemma of_nat_and_mask:
  assumes "n < 2 ^ 28"
  shows "(of_nat n :: u32) AND 0xfffffff = of_nat n"
proof -
  have "(of_nat n :: u32) AND 0xfffffff = take_bit 28 (of_nat n)"
    by (simp add: take_bit_eq_mask mask_eq_exp_minus_1)
  also have "\<dots> = of_nat n" using assms by (simp add: word_unat_eq_iff unsigned_take_bit_eq unsigned_of_nat take_bit_take_bit take_bit_nat_eq_self)
  finally show ?thesis .
qed

lemma ucast_of_nat_u64: "(ucast (of_nat n :: u64) :: u32) = of_nat n"
  by (simp add: word_unat_eq_iff unsigned_ucast_eq unsigned_of_nat take_bit_take_bit)

lemma find_free_img:
  assumes drv: "fat_driver v img" and "\<forall>i\<in>set is. i < 2 ^ 21"
  shows "find_free_loop v is d =
    (case find (\<lambda>c. fat_entry v (img d) (of_nat c) = 0) (concat (map (\<lambda>i. map (\<lambda>j. 128 * i + j) [0..<128]) is)) of
       Some c \<Rightarrow> (of_nat c, d) | None \<Rightarrow> (0xfffffff, d))"
  using assms(2)
proof (induction "is")
  case Nil show ?case by simp
next
  case (Cons i "is")
  have i: "i < 2 ^ 21" using Cons.prems by simp
  have r: "unat (reserved_sectors v) < 2 ^ 16" using unsigned_less [of "reserved_sectors v", where 'a = nat] by simp
  have s: "unat (ucast (reserved_sectors v) + of_nat i :: u64) = unat (reserved_sectors v) + i"
    using i less_trans [OF add_strict_mono [OF r i], of "2 ^ 64"]
    by (subst unat_add_small) (simp_all add: unat_ucast_less unat_of_nat_id)
  obtain ret where rd: "dev_read (fv_dev v) (ucast (reserved_sectors v) + of_nat i) 1 d =
      (ret, img_bytes (img d) ((unat (reserved_sectors v) + i) * 512) 512, d)"
    using drv block_driver_read [of "fv_dev v" img "ucast (reserved_sectors v) + of_nat i" 1 d] s
    by (auto simp: fat_driver_def)
  have fs: "free_in_sector (img_bytes (img d) ((unat (reserved_sectors v) + i) * 512) 512) =
      find (\<lambda>j. fat_entry v (img d) (of_nat (128 * i + j)) = 0) [0..<128]"
    using i by (rule free_in_sector_img)
  show ?case
  proof (cases "find (\<lambda>j. fat_entry v (img d) (of_nat (128 * i + j)) = 0) [0..<128]")
    case None
    then show ?thesis using Cons rd fs by (simp add: find_append find_map comp_def del: upt_conv_Cons)
  next
    case (Some j)
    then have j: "j < 128" by (auto simp: find_Some_iff)
    have lt: "128 * i + j < 2 ^ 28" using i j by simp
    have "(of_nat i * 128 + of_nat j :: u64) = of_nat (128 * i + j)" by simp
    then have "ucast (of_nat i * 128 + of_nat j :: u64) AND (0xfffffff :: u32) = of_nat (128 * i + j)"
      using of_nat_and_mask [OF lt] by (simp only: ucast_of_nat_u64)
    then show ?thesis using Some rd fs by (simp add: find_append find_map comp_def del: upt_conv_Cons of_nat_add of_nat_mult)
  qed
qed

lemma concat_blocks: "concat (map (\<lambda>i. map (\<lambda>j. m * i + j) [0..<m]) [0..<n]) = [0..<m * n]"
proof (induction n)
  case 0 show ?case by simp
next
  case (Suc n)
  have "map (\<lambda>j. m * n + j) [0..<m] = [m * n..<m * n + m]"
    using map_add_upt [of "m * n" m] by (simp add: add.commute)
  then show ?case using Suc upt_add_eq_append [of 0 "m * n" m] by (simp add: add.commute)
qed

lemma get32_replace_low:
  assumes "byte_at bs' i = b" and "\<And>k. k \<noteq> i \<Longrightarrow> byte_at bs' k = byte_at bs k"
  shows "get32 bs' i = (get32 bs i AND NOT 0xff) OR ucast b"
proof (rule bit_word_eqI)
  fix n assume "n < LENGTH(32)"
  have m: "(0xff :: u32) = mask 8" by (simp add: mask_eq_exp_minus_1)
  have eqs: "byte_at bs' (Suc i) = byte_at bs (Suc i)" "get16 bs' (Suc (Suc i)) = get16 bs (Suc (Suc i))"
    by (simp_all add: assms(2) get16_def)
  show "bit (get32 bs' i) n = bit ((get32 bs i AND NOT 0xff) OR ucast b) n"
    using \<open>n < LENGTH(32)\<close>
    by (cases "n < 8") (auto simp: get32_def get16_def [of _ i] m assms(1) eqs bit_simps dest: bit_imp_le_length)
qed

lemma ucast_end_mark: "(ucast (0xffffff8 :: u32) :: u8) = 0xf8"
  by (simp add: word_unat_eq_iff unsigned_ucast_eq take_bit_eq_mod)

lemma fat_entry_changed:
  "fat_entry v (im(entry_addr v c := b)) c = (fat_entry v im c AND NOT 0xff) OR ucast b"
  unfolding fat_entry_def
  by (rule get32_replace_low) (auto simp: byte_at_def img_bytes_def)

lemma fat_entry_other:
  assumes "unat c < 2 ^ 28" and "unat x < 2 ^ 28" and "c \<noteq> x"
  shows "fat_entry v (im(entry_addr v c := b)) x = fat_entry v im x"
proof (rule fat_entry_cong)
  fix i :: nat assume i: "i < 4"
  have "unat c \<noteq> unat x" using assms(3) by (simp add: word_unat_eq_iff)
  then have "4 * unat c \<noteq> 4 * unat x + i" using i by presburger
  then show "(im(entry_addr v c := b)) (entry_addr v x + i) = im (entry_addr v x + i)"
    using assms(1,2) by (simp add: entry_addr_eq)
qed

section \<open>Directory entries\<close>

lemma take_drop_put_list_other:
  assumes "i + length e \<le> length bs" and "j + n \<le> i \<or> i + length e \<le> j" and "j + n \<le> length bs"
  shows "take n (drop j (put_list bs i e)) = take n (drop j bs)"
  using assms by (intro nth_equalityI) (auto simp: nth_put_list)

lemma entry_bytes_put:
  assumes "32 * i + 32 \<le> length bs" and "32 * j + 32 \<le> length bs" and "length e = 32"
  shows "entry_bytes (put_list bs (32 * i) e) j = (if j = i then e else entry_bytes bs j)"
proof (cases "j = i")
  case True then show ?thesis using assms by (simp add: entry_bytes_def put_list_def)
next
  case False
  then have "32 * j + 32 \<le> 32 * i \<or> 32 * i + length e \<le> 32 * j" using assms(3) by arith
  then show ?thesis using assms False unfolding entry_bytes_def by (subst take_drop_put_list_other) simp_all
qed

lemma length_chain_bytes [simp]: "length (chain_bytes v im cs) = length cs * cluster_len v"
  by (induction cs) (auto simp: chain_bytes_def cluster_bytes_def)

lemma dir_size_img:
  assumes "length cs * cluster_len v < 2 ^ 64"
  shows "unat (dir_size v (of_nat (length cs))) = length cs * cluster_len v"
proof (cases "cluster_size v = 0")
  case True then show ?thesis by (simp add: dir_size_def cluster_len_def)
next
  case False
  then have "1 \<le> unat (cluster_size v)" by (simp add: unat_gt_0 Suc_le_eq)
  then have p: "length cs * 1 \<le> length cs * unat (cluster_size v)" by (rule mult_le_mono2)
  have q: "length cs * unat (cluster_size v) * 512 < 2 ^ 64" using assms by (simp add: cluster_len_def)
  then have r: "length cs * unat (cluster_size v) < 2 ^ 64" by linarith
  have "unat (of_nat (length cs) * ucast (cluster_size v) :: u64) = length cs * unat (cluster_size v)"
    using r le_less_trans [OF p r] by (subst unat_mult_small) (simp_all add: unat_ucast_u8 unat_of_nat_id)
  then show ?thesis using q unfolding dir_size_def by (subst unat_mult_small) (simp_all add: cluster_len_def)
qed

lemma set_dir_entry_img:
  assumes drv: "fat_driver v img" and dir: "directory' = (if directory = 0 then root_cluster v else directory)"
    and ch: "is_chain v (img d) directory' cs" "distinct cs" "\<forall>x\<in>set cs. in_table v x"
    and sz: "length cs * cluster_len v < 2 ^ 64" and i: "32 * unat index + 32 \<le> length cs * cluster_len v" and e: "length e = 32"
  shows "\<exists>d'. fat_set_dir_entry v directory index e d = Some d' \<and> is_chain v (img d') directory' cs \<and>
    chain_bytes v (img d') cs = put_list (chain_bytes v (img d) cs) (32 * unat index) e \<and>
    (\<forall>x. in_table v x \<longrightarrow> fat_entry v (img d') x = fat_entry v (img d) x) \<and>
    (\<forall>a. (\<forall>x\<in>set cs. \<forall>i<cluster_len v. a \<noteq> cluster_addr v x + i) \<longrightarrow> img d' a = img d a)"
proof -
  let ?b = "put_list (chain_bytes v (img d) cs) (32 * unat index) e"
  have n: "unat (dir_size v (of_nat (length cs))) = length cs * cluster_len v" by (rule dir_size_img [OF sz])
  then have idx: "\<not> index > dir_size v (of_nat (length cs)) div 32"
    using i by (simp add: word_less_nat_alt unat_div)
  have "length ?b = length cs * cluster_len v" using i e by simp
  from write_chain_img [OF drv ch this] obtain d' where w:
    "fat_write_cluster_chain v ?b directory' d = Some d'" "chain_bytes v (img d') cs = ?b"
    "\<forall>a. (\<forall>x\<in>set cs. \<forall>i<cluster_len v. a \<noteq> cluster_addr v x + i) \<longrightarrow> img d' a = img d a" by blast
  have ent: "fat_entry v (img d') x = fat_entry v (img d) x" if "in_table v x" for x
    by (rule write_chain_entries [OF w(3) ch(3) that])
  then have "is_chain v (img d') directory' cs"
    using ch is_chain_cong [of cs v "img d'" "img d"] by simp
  moreover have "fat_set_dir_entry v directory index e d = Some d'"
    using chain_length_img [OF drv ch(1), of 0] read_chain_img [OF drv ch(1)] idx n i w(1)
    by (simp add: fat_set_dir_entry_def fat_chain_cluster_length_def dir [symmetric] Let_def)
  ultimately show ?thesis using w(2,3) ent by blast
qed

section \<open>Encoding of entries\<close>

lemma get16_low: "ucast (get16 bs i) = byte_at bs i" "ucast (drop_bit 8 (get16 bs i)) = byte_at bs (i + 1)"
  by (rule bit_word_eqI, auto simp: get16_def bit_simps dest: bit_imp_le_length)+

lemma get32_low: "ucast (get32 bs i) = byte_at bs i" "ucast (drop_bit 8 (get32 bs i)) = byte_at bs (i + 1)"
  "ucast (drop_bit 16 (get32 bs i)) = byte_at bs (i + 2)" "ucast (drop_bit 24 (get32 bs i)) = byte_at bs (i + 3)"
proof -
  have "ucast (get32 bs i) = (ucast (get16 bs i) :: u8)" "ucast (drop_bit 8 (get32 bs i)) = (ucast (drop_bit 8 (get16 bs i)) :: u8)"
    "ucast (drop_bit 16 (get32 bs i)) = (ucast (get16 bs (i + 2)) :: u8)"
    "ucast (drop_bit 24 (get32 bs i)) = (ucast (drop_bit 8 (get16 bs (i + 2))) :: u8)"
    by (rule bit_word_eqI, auto simp: get32_def bit_simps dest: bit_imp_le_length)+
  then show "ucast (get32 bs i) = byte_at bs i" "ucast (drop_bit 8 (get32 bs i)) = byte_at bs (i + 1)"
    "ucast (drop_bit 16 (get32 bs i)) = byte_at bs (i + 2)" "ucast (drop_bit 24 (get32 bs i)) = byte_at bs (i + 3)"
    by (simp_all only: get16_low add.assoc numeral_plus_one add_num_simps)
qed

lemma map_byte_at: "map (byte_at bs) [0..<length bs] = bs"
  by (rule nth_equalityI) (simp_all add: byte_at_def)

lemma encode_decode:
  assumes "length bs = 32"
  shows "encode_entry (decode_entry bs) = bs"
proof -
  have "take 11 bs = map (byte_at bs) [0..<11]"
    using assms by (intro nth_equalityI) (simp_all add: byte_at_def)
  then have "encode_entry (decode_entry bs) = map (byte_at bs) [0..<32]"
    by (simp add: encode_entry_def decode_entry_def bytes16_def bytes32_def get16_low get32_low upt_rec)
      (simp add: eval_nat_numeral)
  then show ?thesis using map_byte_at [of bs] assms by simp
qed

lemma decode_encode:
  assumes "length (filename e) = 11"
  shows "decode_entry (encode_entry e) = e"
proof -
  note bytes = byte_at_def encode_entry_def nth_append assms bytes16_def bytes32_def
  have "get16 (encode_entry e) 14 = created_time e" "get16 (encode_entry e) 16 = created_date e"
    "get16 (encode_entry e) 18 = accessed_date e" "get16 (encode_entry e) 20 = cluster_hi e"
    "get16 (encode_entry e) 22 = modified_time e" "get16 (encode_entry e) 24 = modified_date e"
    "get16 (encode_entry e) 26 = cluster_lo e"
    by (rule get16_bytes; simp add: bytes)+
  moreover have "get32 (encode_entry e) 28 = de_size e" by (rule get32_bytes; simp add: bytes)
  moreover have "take 11 (encode_entry e) = filename e" using assms by (simp add: encode_entry_def)
  ultimately show ?thesis unfolding decode_entry_def by (simp add: bytes)
qed

section \<open>Properties\<close>

text \<open>
  C19: Reading a chain of clusters returns exactly when following the table from its first
  cluster comes to an end, and then it returns the data of the clusters on the way, in
  order, and the disk is as before. On a cycle in the table it never returns.
\<close>

theorem fat_read_chain:
  assumes "fat_driver v img"
  shows "fat_read_cluster_chain v c d = Some r \<longleftrightarrow>
    (\<exists>cs. is_chain v (img d) c cs \<and> r = (concat (map (cluster_bytes v (img d)) cs), d))"
  using read_chain_img [OF assms, of d c] read_chain_returns [OF assms, of c d] unfolding chain_bytes_def
  by (metis option.inject)

text \<open>
  C20: Writing a buffer to a chain of different clusters and reading the chain gives the buffer
  back, and the file allocation table is as before.
\<close>

theorem fat_write_read_chain:
  assumes "fat_driver v img" and "is_chain v (img d) c cs" and "distinct cs" and "\<forall>x\<in>set cs. in_table v x"
    and "length buf = length cs * cluster_len v"
  shows "\<exists>d'. fat_write_cluster_chain v buf c d = Some d' \<and> fat_read_cluster_chain v c d' = Some (buf, d') \<and>
    (\<forall>x. in_table v x \<longrightarrow> fat_get_next_cluster v x d' = (fst (fat_get_next_cluster v x d), d'))"
proof -
  obtain d' where w: "fat_write_cluster_chain v buf c d = Some d'" "chain_bytes v (img d') cs = buf"
    "\<forall>a. (\<forall>x\<in>set cs. \<forall>i<cluster_len v. a \<noteq> cluster_addr v x + i) \<longrightarrow> img d' a = img d a"
    using write_chain_img [OF assms] by blast
  note same = write_chain_entries [OF w(3) assms(4)]
  then have "is_chain v (img d') c cs" using assms(2,4) is_chain_cong [of cs v "img d'" "img d"] by simp
  then show ?thesis
    using w(1,2) same read_chain_img [OF assms(1)] by (auto simp: next_cluster_img [OF assms(1)])
qed

text \<open>
  The search for a free cluster returns the lowest cluster number whose entry in the table
  is 0, and \<^verbatim>\<open>0xfffffff\<close> when there is none.
\<close>

theorem fat_find_free_first:
  assumes "fat_driver v img" and "unat (table_size v) \<le> 2 ^ 21"
  shows "fat_find_free_cluster v d =
    (case find (\<lambda>c. fat_entry v (img d) (of_nat c) = 0) [0..<128 * unat (table_size v)] of
       Some c \<Rightarrow> (of_nat c, d) | None \<Rightarrow> (0xfffffff, d))"
  unfolding fat_find_free_cluster_def concat_blocks [symmetric]
  using assms by (intro find_free_img) auto



text \<open>
  Allocating a cluster does not end its chain. The free entry should become the end mark
  \<^verbatim>\<open>0xffffff8\<close>, but only its low byte is stored, so the entry becomes \<^verbatim>\<open>0xf8\<close> and the chain goes on at cluster 248.
\<close>

theorem fat_new_chain_continues_at_248:
  assumes "fat_driver v img" and "unat (table_size v) \<le> 2 ^ 21" and "cluster_size v \<noteq> 0"
    and "find (\<lambda>c. fat_entry v (img d) (of_nat c) = 0) [0..<128 * unat (table_size v)] = Some c"
  shows "\<exists>d'. fat_find_free_cluster_chain v 1 d = Some (of_nat c, d') \<and>
    fat_get_next_cluster v (of_nat c) d' = (248, d') \<and>
    (\<forall>x. unat x < 2 ^ 28 \<longrightarrow> x \<noteq> of_nat c \<longrightarrow> fat_entry v (img d') x = fat_entry v (img d) x)"
proof -
  let ?cs = "ucast (cluster_size v) * 512 :: u64"
  have "unat (cluster_size v) < 2 ^ 8" using unsigned_less [of "cluster_size v", where 'a = nat] by simp
  then have "unat (cluster_size v) * 512 < 2 ^ 8 * 512" by (rule mult_strict_right_mono) simp
  then have "unat (cluster_size v) * 512 < 2 ^ 64" by (rule less_trans) simp
  then have "unat ?cs = unat (cluster_size v) * 512"
    by (subst unat_mult_small) (simp_all add: unat_ucast_u8)
  then have pos: "0 < unat ?cs" using assms(3) by (simp add: unat_gt_0)
  then have one: "unat ((1 + (?cs - 1)) div ?cs) = 1" by (simp add: unat_div)
  have c: "fat_entry v (img d) (of_nat c) = 0" "c < 128 * unat (table_size v)"
    using assms(4) by (auto simp: find_Some_iff)
  then have u: "unat (of_nat c :: u32) < 2 ^ 28" using assms(2) by (subst unat_of_nat_id) simp_all
  let ?d = "fat_change_fat_value v (of_nat c) 0xffffff8 d"
  have im: "img ?d = (img d)(entry_addr v (of_nat c) := 0xf8)"
    using change_fat_img [OF assms(1), of "of_nat c" "0xffffff8" d] by (simp only: ucast_end_mark)
  have "fat_find_free_cluster v d = (of_nat c, d)"
    unfolding fat_find_free_cluster_def using find_free_img [OF assms(1), of "[0..<unat (table_size v)]" d] assms(2,4)
    by (simp add: concat_blocks)
  then have "fat_find_free_cluster_chain v 1 d = Some (of_nat c, ?d)"
    using one pos by (auto simp: fat_find_free_cluster_chain_def Let_def numeral_1_eq_Suc_0)
  moreover have "fat_get_next_cluster v (of_nat c) ?d = (248, ?d)"
    by (simp add: next_cluster_img [OF assms(1)] im fat_entry_changed c(1))
  ultimately show ?thesis using im fat_entry_other [OF u, of _ v "img d" "0xf8"] by auto
qed

section \<open>Witnesses\<close>

lemma ex_vol_simps [simp]:
  "cluster_size ex_vol = 1" "reserved_sectors ex_vol = 1" "table_count ex_vol = 1" "table_size ex_vol = 1"
  "root_cluster ex_vol = 2" "cluster_len ex_vol = 512" "fat_driver ex_vol (\<lambda>im. im)"
  by (simp_all add: ex_vol_def ex_boot_def cluster_size_def reserved_sectors_def table_count_def table_size_def
      root_cluster_def cluster_len_def byte_at_def get16_def get32_def nth_list_update fat_driver_def ram_disk_driver)
    (simp add: ram_disk_def)

lemma ex_entries:
  "fat_entry ex_vol ex_image 0 = 0xf8" "fat_entry ex_vol ex_image 1 = 0xf8"
  "fat_entry ex_vol ex_image 2 = 0xffffff8" "fat_entry ex_vol ex_image 3 = 0"
  by (simp_all add: fat_entry_def entry_addr_eq ex_image_def img_bytes_def get32_def get16_def byte_at_def upt_rec)

lemma ex_chain: "is_chain ex_vol ex_image 2 [2]" "in_table ex_vol 2"
  by (simp_all add: ex_entries in_table_def)

lemma ex_root: "cluster_bytes ex_vol ex_image 2 = img_bytes ex_image 1024 512"
  by (simp add: cluster_bytes_def cluster_addr_eq)

theorem fat_read_chain_witness:
  "fat_read_cluster_chain ex_vol 2 ex_image = Some (img_bytes ex_image 1024 512, ex_image)"
proof -
  have "is_chain ex_vol ex_image 2 [2] \<and>
      (img_bytes ex_image 1024 512, ex_image) = (concat (map (cluster_bytes ex_vol ex_image) [2]), ex_image)"
    using ex_chain(1) ex_root by (simp only: list.map concat.simps append_Nil2)
  then show ?thesis by (intro fat_read_chain [OF ex_vol_simps(7), THEN iffD2] exI)
qed

theorem fat_write_read_chain_witness:
  "\<exists>d'. fat_write_cluster_chain ex_vol (img_bytes (\<lambda>_. 7) 0 512) 2 ex_image = Some d' \<and>
     fat_read_cluster_chain ex_vol 2 d' = Some (img_bytes (\<lambda>_. 7) 0 512, d')"
proof -
  have "length (img_bytes (\<lambda>_. 7) 0 512) = length [2 :: u32] * cluster_len ex_vol" by simp
  from fat_write_read_chain [OF ex_vol_simps(7) ex_chain(1) _ _ this] ex_chain(2) show ?thesis by force
qed

lemma ex_find: "find (\<lambda>c. fat_entry ex_vol ex_image (of_nat c) = 0) [0..<128] = Some 3"
proof -
  have "[0..<128] = [0, 1, 2, 3] @ [4..<128]" by (simp add: upt_rec)
  then show ?thesis by (simp only: find_append) (simp add: ex_entries del: upt_rec_numeral)
qed

theorem fat_find_free_first_witness:
  "fat_find_free_cluster ex_vol ex_image = (3, ex_image)"
proof -
  have "unat (table_size ex_vol) \<le> 2 ^ 21" "128 * unat (table_size ex_vol) = 128" by simp_all
  from fat_find_free_first [OF ex_vol_simps(7) this(1), of ex_image] show ?thesis
    unfolding \<open>128 * unat (table_size ex_vol) = 128\<close> ex_find by simp
qed



theorem fat_new_chain_continues_at_248_witness:
  "\<exists>d'. fat_find_free_cluster_chain ex_vol 1 ex_image = Some (3, d') \<and> fat_get_next_cluster ex_vol 3 d' = (248, d')"
proof -
  have t: "unat (table_size ex_vol) \<le> 2 ^ 21" "cluster_size ex_vol \<noteq> 0" by simp_all
  have "find (\<lambda>c. fat_entry ex_vol ex_image (of_nat c) = 0) [0..<128 * unat (table_size ex_vol)] = Some 3"
    using ex_find by (simp only: ex_vol_simps unsigned_1 mult_1_right)
  from fat_new_chain_continues_at_248 [OF ex_vol_simps(7) t this] show ?thesis by (auto simp only: of_nat_numeral)
qed

end
