(* ===== verification/Fat32.thy ===== *)
theory Fat32
  imports FatTable Vfs
begin

text \<open>
  The second half of the FAT32 driver, \<^verbatim>\<open>src/src/kernel/fs/fat32.c\<close>: looking up paths, the operations on
  open files, creating files and directories, and mounting. A path is the memory at
  its address, a function from offsets to bytes, since the lookup also moves back in it;
  the bytes around a path come from the environment. The driver's \<^verbatim>\<open>dev->fs\<close> is the file system
  that the operation was called for. Freed blocks keep their contents; writes past the
  end of a heap block are left out where the text says so.
\<close>

section \<open>Paths\<close>

type_synonym chars = "int \<Rightarrow> u8"

definition raw_chars :: "'d vfs_env \<Rightarrow> u8 list \<Rightarrow> chars" where
  "raw_chars env bs = (\<lambda>i. if 0 \<le> i \<and> i < int (length bs) then bs ! nat i else env_mem env (word_of_int i))"

definition path_chars :: "'d vfs_env \<Rightarrow> cstring \<Rightarrow> chars" where
  "path_chars env name = raw_chars env (name @ [0])"

abbreviation dot :: u8 where "dot \<equiv> 46"
abbreviation space :: u8 where "space \<equiv> 32"

definition upper :: "u8 \<Rightarrow> u8" where
  "upper c = (if c \<ge> 97 \<and> c \<le> 122 then (c - 97) + 65 else c)"

text \<open>
  The loop that makes the 11 characters of a short name, as the functions have it: whether it
  stops at a slash (\<^verbatim>\<open>fat_find\<close>), moves a dot to position 8 (not in \<^verbatim>\<open>fat_mkdir\<close>), and
  puts \<^verbatim>\<open>~0\<close> at position 6 (long names). It returns where it stopped, the position in the
  short name and the short name.
\<close>

partial_function (option) short_loop ::
  "bool \<Rightarrow> bool \<Rightarrow> bool \<Rightarrow> chars \<Rightarrow> int \<Rightarrow> nat \<Rightarrow> u8 list \<Rightarrow> (int \<times> nat \<times> u8 list) option" where
  "short_loop stops dots tilde str p pos sn =
     (if str p = 0 \<or> pos = 11 \<or> (stops \<and> str p = slash) then Some (p, pos, sn)
      else
        let sn = (if tilde \<and> pos > 6 then sn[6 := 126, 7 := 48] else sn) in
        if dots \<and> str p = dot then short_loop stops dots tilde str (p + 1) (if pos < 8 then 8 else pos) sn
        else short_loop stops dots tilde str (p + 1) (pos + 1) (sn[pos := upper (str p)]))"

definition blank_name :: "u8 list" where "blank_name = replicate 11 space"

partial_function (option) strlen_chars :: "chars \<Rightarrow> int \<Rightarrow> nat \<Rightarrow> nat option" where
  "strlen_chars str p n = (if str p = 0 then Some n else strlen_chars str (p + 1) (n + 1))"

section \<open>Long names in a directory\<close>

text \<open>
  How many entries after index \<open>i\<close> the long name goes on, up to one whose first byte is 1 or
  0x41; \<^const>\<open>None\<close> past the end of the directory.
\<close>

function lfn_count :: "u8 list \<Rightarrow> nat \<Rightarrow> nat \<Rightarrow> nat option" where
  "lfn_count buffer i count =
     (if 32 * (i + count) + 32 > length buffer then None
      else if byte_at buffer (32 * (i + count)) \<noteq> 0x1 \<and> byte_at buffer (32 * (i + count)) \<noteq> 0x41
      then lfn_count buffer i (count + 1)
      else Some count)"
  by pat_completeness auto
termination
  by (relation "measure (\<lambda>(buffer, i, count). length buffer - 32 * (i + count))") auto

declare lfn_count.simps [simp del]

text \<open>The 13 characters of an entry, the low bytes of its 16-bit characters.\<close>

definition lfn_chars :: "u8 list \<Rightarrow> u8 list" where
  "lfn_chars e = map (\<lambda>x. byte_at e (1 + 2 * x)) [0..<5] @ map (\<lambda>x. byte_at e (14 + 2 * x)) [0..<6] @
     map (\<lambda>x. byte_at e (28 + 2 * x)) [0..<2]"

text \<open>The long name: the entries from the last to the first.\<close>

definition lfn_name :: "u8 list \<Rightarrow> nat \<Rightarrow> nat \<Rightarrow> u8 list" where
  "lfn_name buffer i count =
     concat (map (\<lambda>j. lfn_chars (entry_bytes buffer (i + count - 1 - j))) [0..<count])"

partial_function (option) path_name_loop ::
  "chars \<Rightarrow> int \<Rightarrow> u8 \<Rightarrow> (nat \<Rightarrow> u8) \<Rightarrow> (int \<times> u8 \<times> (nat \<Rightarrow> u8)) option" where
  "path_name_loop str p pos buf =
     (if str p = 0 \<or> str p = slash then Some (p, pos, buf(unat pos := 0))
      else path_name_loop str (p + 1) (pos + 1) (buf(unat pos := str p)))"

section \<open>Lookup\<close>

text \<open>
  The loop over a directory: the index of the entry found and where in the path the
  search stands, \<^term>\<open>Some None\<close> if there is none. \<open>p\<close> and \<open>pos\<close> are the path and the position that the
  comparison with long names changes.
\<close>

function find_in_dir ::
  "chars \<Rightarrow> u8 list \<Rightarrow> nat \<Rightarrow> u8 list \<Rightarrow> nat \<Rightarrow> int \<Rightarrow> u8 \<Rightarrow> (nat \<times> int) option option" where
  "find_in_dir str buffer sz sn i p pos =
     (if i \<ge> sz then Some None
      else if entry_is_free buffer i then find_in_dir str buffer sz sn (i + 1) p pos
      else if byte_at buffer (32 * i + 11) = 0xf then
        (case lfn_count buffer i 0 of None \<Rightarrow> None | Some extra \<Rightarrow>
         let count = extra + 1 in
         (case path_name_loop str (p - int (unat pos)) 0 (\<lambda>_. 0xff) of None \<Rightarrow> None | Some (p, pos, path_name) \<Rightarrow>
            if map path_name [0..<count * 13] = lfn_name buffer i count then
              if i + count < sz then Some (Some (i + count, p)) else None
            else find_in_dir str buffer sz sn (i + count) p pos))
      else if take 11 sn = take 11 (drop (32 * i) buffer) then Some (Some (i, p))
      else find_in_dir str buffer sz sn (i + 1) p pos)"
  by pat_completeness auto
termination
  by (relation "measure (\<lambda>(str, buffer, sz, sn, i, p, pos). sz - i)") auto

declare find_in_dir.simps [simp del]

text \<open>The output parameters of \<^verbatim>\<open>fat_find\<close>; \<^const>\<open>None\<close> when it has not assigned them.\<close>

record fat_out =
  o_entry :: "u8 list option"
  o_dir :: "u32 option"
  o_index :: "u64 option"

definition no_out :: fat_out where
  "no_out = \<lparr>o_entry = None, o_dir = None, o_index = None\<rparr>"

partial_function (option) fat_find ::
  "'d fat_vol \<Rightarrow> u32 \<Rightarrow> chars \<Rightarrow> int \<Rightarrow> fat_out \<Rightarrow> 'd \<Rightarrow> (u32 \<times> fat_out \<times> 'd) option" where
  "fat_find v directory str p out d =
     (if directory \<ge> 0xffffff7 then Some (0xfffffff, out, d)
      else
        let directory = (if directory = 0 then root_cluster v else directory);
            out = out\<lparr>o_dir := Some directory\<rparr> in
        if str p = 0 then Some (directory, out, d)
        else if str p = space \<or> str p = slash then fat_find v directory str (p + 1) out d
        else
          Option.bind (short_loop True True False str (if str p = dot then p + 2 else p) 0 (replicate 12 space)) (\<lambda>(p, pos, short_name).
          Option.bind (fat_chain_cluster_length v directory d) (\<lambda>(n, d).
          Option.bind (fat_read_cluster_chain v directory d) (\<lambda>(buffer, d).
          Option.bind (find_in_dir str buffer (unat (dir_size v n div 32)) short_name 0 p (of_nat pos)) (\<lambda>r.
            case r of
              None \<Rightarrow> Some (0xfffffff, out, d)
            | Some (i, p) \<Rightarrow>
                let cluster = decode_entry (entry_bytes buffer i); cluster_no = entry_cluster cluster in
                if str p = slash \<and> is_directory cluster then
                  if str (p + 2) \<noteq> dot \<and> str (p + 3) \<noteq> dot then fat_find v cluster_no str (p + 1) out d
                  else Option.bind (o_dir out) (\<lambda>dir. fat_find v dir str (p + 4) out d)
                else Some (cluster_no, out\<lparr>o_entry := Some (entry_bytes buffer i), o_index := Some (of_nat i),
                                           o_dir := Some directory\<rparr>, d))))))"

section \<open>Operations on open files\<close>

definition fat_ioctl :: "ptr \<Rightarrow> u64 \<Rightarrow> u64 \<Rightarrow> 'd kstate \<Rightarrow> (u64 \<times> 'd kstate) option" where
  "fat_ioctl fp cmd arg s = Some (0, s)"

definition fat_chmod :: "ptr \<Rightarrow> u32 \<Rightarrow> 'd kstate \<Rightarrow> (int \<times> 'd kstate) option" where
  "fat_chmod fp mode s = do { file \<leftarrow> files s fp; Some (0, set_file fp (file\<lparr>f_mode := mode\<rparr>) s) }"

definition fat_chown :: "ptr \<Rightarrow> int \<Rightarrow> int \<Rightarrow> 'd kstate \<Rightarrow> (int \<times> 'd kstate) option" where
  "fat_chown fp uid gid s = do {
     file \<leftarrow> files s fp; Some (0, set_file fp (file\<lparr>f_uid := uid, f_gid := gid\<rparr>) s) }"

definition fat_mknod ::
  "ptr \<Rightarrow> cstring \<Rightarrow> u32 \<Rightarrow> int \<Rightarrow> int \<Rightarrow> ptr \<Rightarrow> 'd kstate \<Rightarrow> (ptr \<times> 'd kstate) option" where
  "fat_mknod fsp name mode uid gid dev s = Some (0, s)"

definition fat_mmap :: "ptr \<Rightarrow> mmap_args \<Rightarrow> 'd kstate \<Rightarrow> (u64 \<times> 'd kstate) option" where
  "fat_mmap fp args s = Some (0, s)"

definition fat_mkfifo ::
  "ptr \<Rightarrow> cstring \<Rightarrow> u32 \<Rightarrow> int \<Rightarrow> int \<Rightarrow> 'd kstate \<Rightarrow> (ptr \<times> 'd kstate) option" where
  "fat_mkfifo fsp path mode uid gid s = Some (0, s)"

text \<open>The volume of a file system, and the private record of an open file with it.\<close>

definition fat_vol_of :: "'d vfs_env \<Rightarrow> ptr \<Rightarrow> 'd kstate \<Rightarrow> 'd fat_vol option" where
  "fat_vol_of env fsp s = do {
     fs \<leftarrow> fses s fsp;
     dev \<leftarrow> env_dev env (fs_dev fs);
     case fs_private fs of FP_boot boot \<Rightarrow> Some \<lparr>fv_dev = dev, fv_boot = boot\<rparr> | _ \<Rightarrow> None
   }"

definition fat_file ::
  "'d vfs_env \<Rightarrow> ptr \<Rightarrow> 'd kstate \<Rightarrow> ('d fat_vol \<times> dir_entry_t \<times> u64 \<times> u32 \<times> u32) option" where
  "fat_file env fp s = do {
     file \<leftarrow> files s fp;
     v \<leftarrow> fat_vol_of env (f_fs file) s;
     case f_private file of
       PD_fat entry index cluster parent_cluster \<Rightarrow> Some (v, decode_entry entry, index, cluster, parent_cluster)
     | _ \<Rightarrow> None
   }"

text \<open>The date fields as the functions assign them; \<open>set_accessed\<close> gets the year as the function has it.\<close>

definition set_date :: "datetime_t \<Rightarrow> u16 \<Rightarrow> u16 \<Rightarrow> u16" where
  "set_date t yr w = set_field 9 7 (yr - 1980) (set_field 5 4 (ucast (month t)) (set_field 0 5 (ucast (day t)) w))"

definition set_time :: "datetime_t \<Rightarrow> u16 \<Rightarrow> u16" where
  "set_time t w = set_field 0 5 (ucast (seconds t div 2)) (set_field 5 6 (ucast (minutes t)) (set_field 11 5 (ucast (hours t)) w))"

partial_function (option) truncate_loop :: "'d fat_vol \<Rightarrow> u32 \<Rightarrow> 'd \<Rightarrow> 'd option" where
  "truncate_loop v cluster d =
     (case fat_get_next_cluster v cluster d of (next, d) \<Rightarrow>
      if next = 0 \<or> next = 0xffffff8 then Some (fat_change_fat_value v cluster 0xffffff8 d)
      else truncate_loop v next d)"

text \<open>
  Growing passes the file system's private data where a device is expected: the call follows the
  boot sector's bytes as function pointers (\<^const>\<open>None\<close>).
\<close>

definition fat_truncate :: "'d vfs_env \<Rightarrow> ptr \<Rightarrow> u64 \<Rightarrow> 'd kstate \<Rightarrow> (int \<times> 'd kstate) option" where
  "fat_truncate env fp sz s = do {
     (v, entry, index, cluster, dir) \<leftarrow> fat_file env fp s;
     let cs = (ucast (cluster_size v) :: u64);
     let old = (ucast (de_size entry) :: u64);
     if cs = 0 then None
     else do {
       d \<leftarrow> (if old div cs > sz div cs then truncate_loop v cluster (disk s)
             else if old div cs < sz div cs then None
             else Some (disk s));
       d \<leftarrow> fat_set_dir_entry v dir index (encode_entry (entry\<lparr>de_size := ucast sz\<rparr>)) d;
       Some (0, s\<lparr>disk := d\<rparr>)
     }
   }"

text \<open>The block for the file has \<^verbatim>\<open>entry.size\<close> bytes, the whole chain is read into it; the bytes behind are left out.\<close>

definition fat_read ::
  "'d vfs_env \<Rightarrow> ptr \<Rightarrow> u64 \<Rightarrow> u64 \<Rightarrow> 'd kstate \<Rightarrow> (int \<times> u8 list \<times> 'd kstate) option" where
  "fat_read env fp off count s = do {
     let time = env_time env;
     (v, entry, index, _, dir) \<leftarrow> fat_file env fp s;
     let entry = entry\<lparr>accessed_date := set_date time (year time + 1900) (accessed_date entry)\<rparr>;
     d \<leftarrow> fat_set_dir_entry v dir index (encode_entry entry) (disk s);
     let s = s\<lparr>disk := d\<rparr>;
     if is_directory entry then Some (0, [], s)
     else do {
       let count = (if ucast (de_size entry) < off + count then ucast (de_size entry) - off else count);
       if count = 0 then Some (0, [], s)
       else do {
         (file_buffer, d) \<leftarrow> fat_read_cluster_chain v (entry_cluster entry) (disk s);
         if unat off + unat count > length file_buffer then None
         else Some (sint count, take (unat count) (drop (unat off) file_buffer), s\<lparr>disk := d\<rparr>)
       }
     }
   }"

text \<open>
  The loop that makes the chain long enough, with the inner loop to the last cluster; both
  compute the length of the chain anew each time.
\<close>

partial_function (option) last_entry_loop ::
  "'d fat_vol \<Rightarrow> u32 \<Rightarrow> u64 \<Rightarrow> u32 \<Rightarrow> 'd \<Rightarrow> (u32 \<times> 'd) option" where
  "last_entry_loop v writing_cluster i last_entry d =
     Option.bind (fat_chain_cluster_length v writing_cluster d) (\<lambda>(n, d).
       if i < n - 1 then
         case fat_get_next_cluster v last_entry d of (next, d) \<Rightarrow> last_entry_loop v writing_cluster (i + 1) next d
       else Some (last_entry, d))"

partial_function (option) extend_loop :: "'d fat_vol \<Rightarrow> u64 \<Rightarrow> u32 \<Rightarrow> u32 \<Rightarrow> 'd \<Rightarrow> 'd option" where
  "extend_loop v bytes writing_cluster first d =
     Option.bind (fat_chain_cluster_length v writing_cluster d) (\<lambda>(n, d).
       if bytes > n * ucast (cluster_size v) * 512 then
         Option.bind (last_entry_loop v writing_cluster 0 first d) (\<lambda>(last_entry, d).
           case fat_find_free_cluster v d of (free_entry, d) \<Rightarrow>
             extend_loop v bytes writing_cluster first
               (fat_change_fat_value v free_entry 0xffffff8 (fat_change_fat_value v last_entry free_entry d)))
       else Some d)"

definition fat_write ::
  "'d vfs_env \<Rightarrow> ptr \<Rightarrow> u8 list \<Rightarrow> u64 \<Rightarrow> 'd kstate \<Rightarrow> (int \<times> 'd kstate) option" where
  "fat_write env fp buf off s = do {
     let time = env_time env;
     file \<leftarrow> files s fp;
     (v, entry, index, writing_cluster, dir) \<leftarrow> fat_file env fp s;
     let count = (of_nat (length buf) :: u64);
     let entry = entry\<lparr>accessed_date := set_date time (year time) (accessed_date entry)\<rparr>;
     if count = 0 then Some (0, s)
     else if is_directory entry then Some (0, s)
     else do {
       d \<leftarrow> extend_loop v (count + off) writing_cluster (entry_cluster entry) (disk s);
       (_, d) \<leftarrow> fat_chain_cluster_length v writing_cluster d;
       (file_buffer, d) \<leftarrow> fat_read_cluster_chain v writing_cluster d;
       if unat off + length buf > length file_buffer then None
       else do {
         d \<leftarrow> fat_write_cluster_chain v (put_list file_buffer (unat off) buf) writing_cluster d;
         let entry = entry\<lparr>modified_date := set_date time (year time) (modified_date entry),
                           modified_time := set_time time (modified_time entry)\<rparr>;
         let grows = off + count > ucast (de_size entry);
         let entry = (if grows then entry\<lparr>de_size := ucast (off + count)\<rparr> else entry);
         let s = (if grows then set_file fp (file\<lparr>f_length := off + count\<rparr>) s else s);
         d \<leftarrow> fat_set_dir_entry v dir index (encode_entry entry) d;
         Some (sint count, s\<lparr>disk := d\<rparr>)
       }
     }
   }"

text \<open>\<^verbatim>\<open>strcat\<close> appends to what the caller's name holds.\<close>

definition fat_readdir ::
  "'d vfs_env \<Rightarrow> ptr \<Rightarrow> dirent_t \<Rightarrow> u64 \<Rightarrow> 'd kstate \<Rightarrow> (int \<times> dirent_t \<times> 'd kstate) option" where
  "fat_readdir env fp dirent pos s = do {
     let time = env_time env;
     (v, _, _, current_dir, cluster) \<leftarrow> fat_file env fp s;
     (n, d) \<leftarrow> fat_chain_cluster_length v cluster (disk s);
     (entries, d) \<leftarrow> fat_read_cluster_chain v cluster d;
     if 32 * unat pos + 32 > length entries then None
     else if byte_at entries (32 * unat pos + 11) = 0xf then do {
       extra \<leftarrow> lfn_count entries (unat pos) 0;
       let long_filename = lfn_name entries (unat pos) (extra + 1);
       Some (0, dirent\<lparr>de_name := de_name dirent @ takeWhile (\<lambda>c. c \<noteq> 0) long_filename\<rparr>, s\<lparr>disk := d\<rparr>)
     }
     else do {
       let entry = decode_entry (entry_bytes entries (unat pos));
       let entry = entry\<lparr>accessed_date := set_date time (year time + 1900) (accessed_date entry)\<rparr>;
       let per_cluster = ((ucast (cluster_size v) * 512) div 32 :: u64);
       if per_cluster = 0 then None
       else do {
         d \<leftarrow> fat_set_dir_entry v current_dir (pos mod per_cluster) (encode_entry entry) d;
         Some (0, dirent\<lparr>de_name := take 11 (de_name dirent @
                   takeWhile (\<lambda>c. c \<noteq> 0) (encode_entry entry @ drop (32 * unat pos + 32) entries))\<rparr>, s\<lparr>disk := d\<rparr>)
       }
     }
   }"

definition fat_close :: "ptr \<Rightarrow> 'd kstate \<Rightarrow> (int \<times> 'd kstate) option" where
  "fat_close fp s = do { _ \<leftarrow> files s fp; Some (0, free_file fp s) }"

text \<open>\<^verbatim>\<open>fat_delete\<close> and \<^verbatim>\<open>fat_rmdir\<close> call the directory's cluster the file's and the file's the directory's.\<close>

definition fat_delete :: "'d vfs_env \<Rightarrow> ptr \<Rightarrow> 'd kstate \<Rightarrow> (int \<times> 'd kstate) option" where
  "fat_delete env fp s = do {
     (v, entry, index, dir, cluster) \<leftarrow> fat_file env fp s;
     if is_directory entry then Some (1, s)
     else do {
       d \<leftarrow> fat_free_chain v cluster (disk s);
       d \<leftarrow> fat_set_dir_entry v dir index (encode_entry (entry\<lparr>filename := (filename entry)[0 := 0xe5]\<rparr>)) d;
       fat_close fp (s\<lparr>disk := d\<rparr>)
     }
   }"

definition fat_rmdir :: "'d vfs_env \<Rightarrow> ptr \<Rightarrow> 'd kstate \<Rightarrow> (int \<times> 'd kstate) option" where
  "fat_rmdir env fp s = do {
     (v, entry, index, dir, cluster) \<leftarrow> fat_file env fp s;
     if \<not> is_directory entry then Some (1, s)
     else do {
       d \<leftarrow> fat_free_chain v cluster (disk s);
       d \<leftarrow> fat_set_dir_entry v dir index (encode_entry (entry\<lparr>filename := (filename entry)[0 := 0xe5]\<rparr>)) d;
       fat_close fp (s\<lparr>disk := d\<rparr>)
     }
   }"

definition fat_file_ops :: "'d vfs_env \<Rightarrow> 'd file_ops_t" where
  "fat_file_ops env = \<lparr>fo_read = fat_read env, fo_write = fat_write env, fo_rmdir = fat_rmdir env,
     fo_delete = fat_delete env, fo_truncate = fat_truncate env, fo_close = fat_close,
     fo_readdir = fat_readdir env, fo_chmod = fat_chmod, fo_chown = fat_chown,
     fo_mmap = Some fat_mmap, fo_ioctl = fat_ioctl\<rparr>"

section \<open>Opening\<close>

abbreviation fat_file_ops_addr :: ptr where "fat_file_ops_addr \<equiv> 3"
abbreviation fat_fs_ops_addr :: ptr where "fat_fs_ops_addr \<equiv> 4"

text \<open>The bytes of a block from the heap that were not assigned.\<close>

definition junk_bytes :: "'d vfs_env \<Rightarrow> nat \<Rightarrow> u8 list" where
  "junk_bytes env n = map (\<lambda>i. env_mem env (of_nat i)) [0..<n]"

definition entry_datetime :: "u16 \<Rightarrow> u16 \<Rightarrow> u8 \<Rightarrow> datetime_t" where
  "entry_datetime date time ticks =
     \<lparr>seconds = ucast (get_field 0 5 time) * 2 + ticks, minutes = ucast (get_field 5 6 time),
      hours = ucast (get_field 11 5 time), day = ucast (get_field 0 5 date), month = ucast (get_field 5 4 date),
      year = get_field 9 7 date + 1980, day_of_week = 0, day_of_year = 0, is_daylight_savings = 0\<rparr>"

definition fat_mode :: "dir_entry_t \<Rightarrow> u32" where
  "fat_mode e = 0x124 OR 0x49 OR (if is_directory e then S_IFDIR else S_IFREG) OR
     (if \<not> is_read_only e then 0x92 else 0)"

definition fat_open :: "'d vfs_env \<Rightarrow> ptr \<Rightarrow> cstring \<Rightarrow> 'd kstate \<Rightarrow> (ptr \<times> 'd kstate) option" where
  "fat_open env fsp path s = do {
     v \<leftarrow> fat_vol_of env fsp s;
     (cluster, out, d) \<leftarrow> fat_find v 0 (path_chars env path) 0 no_out (disk s);
     let s = s\<lparr>disk := d\<rparr>;
     if cluster = 0xfffffff then Some (0, s)
     else do {
       let entry = (case o_entry out of Some e \<Rightarrow> e | None \<Rightarrow> junk_bytes env 32);
       let index = (case o_index out of Some i \<Rightarrow> i | None \<Rightarrow> get64 (junk_bytes env 40) 32);
       parent_cluster \<leftarrow> o_dir out;
       let dir = decode_entry entry;
       let file =
         \<lparr>f_path = path, f_uid = 0, f_gid = 0, f_file_ops = fat_file_ops_addr, f_fs = fsp, f_dev = 0, f_pipe = 0,
          f_atime = rtc_mktime (entry_datetime (accessed_date dir) 0 0),
          f_mtime = rtc_mktime (entry_datetime (modified_date dir) (modified_time dir) 0),
          f_ctime = rtc_mktime (entry_datetime (modified_date dir) (modified_time dir) 0),
          f_crtime = rtc_mktime (entry_datetime (created_date dir) (created_time dir) (created_ticks dir mod 2)),
          f_ref_count = 1, f_mode = fat_mode dir, f_length = ucast (de_size dir), f_inode = unat cluster,
          f_private = PD_fat entry index cluster parent_cluster, f_offset = 0\<rparr>;
       Some (next_ptr s, s\<lparr>files := (files s)(next_ptr s \<mapsto> file), next_ptr := next_ptr s + 1\<rparr>)
     }
   }"

section \<open>Creating files and directories\<close>

text \<open>The offset behind the last slash of a path.\<close>

definition base_offset :: "cstring \<Rightarrow> int option" where
  "base_offset path =
     (if slash \<in> set path then Some (int (length path - length (takeWhile (\<lambda>c. c \<noteq> slash) (rev path)))) else None)"

fun is_long_loop :: "cstring \<Rightarrow> nat \<Rightarrow> bool" where
  "is_long_loop [] name_length = False"
| "is_long_loop (c # path) name_length =
     (if c = dot then is_long_loop path name_length
      else if name_length > 10 then True
      else is_long_loop path (name_length + 1))"

text \<open>
  The search for a short name that is not in use: the character at position 6 is increased until the
  lookup fails. The 13-byte block has no terminator.
\<close>

partial_function (option) unused_name_loop ::
  "'d vfs_env \<Rightarrow> 'd fat_vol \<Rightarrow> u32 \<Rightarrow> u8 list \<Rightarrow> 'd \<Rightarrow> (u8 \<times> 'd) option" where
  "unused_name_loop env v parent_cluster tmp_short_name d =
     Option.bind (fat_find v parent_cluster (raw_chars env tmp_short_name) 0 no_out d) (\<lambda>(r, _, d).
       if r \<noteq> 0xfffffff then
         unused_name_loop env v parent_cluster (tmp_short_name[7 := byte_at tmp_short_name 7 + 1]) d
       else Some (byte_at tmp_short_name 7, d))"

text \<open>
  One long-name entry: 13 characters from the path, then a zero, then \<^verbatim>\<open>0xffff\<close>. The flag says whether the
  end of the path has been stored.
\<close>

fun lfn_fill :: "chars \<Rightarrow> nat \<Rightarrow> bool \<Rightarrow> int \<Rightarrow> u16 list \<times> bool \<times> int" where
  "lfn_fill str 0 done_flag p = ([], done_flag, p)"
| "lfn_fill str (Suc n) done_flag p =
     (if \<not> done_flag then
        if str p = 0 then (case lfn_fill str n True p of (cs, r) \<Rightarrow> (0 # cs, r))
        else (case lfn_fill str n False (p + 1) of (cs, r) \<Rightarrow> (scast (str p) # cs, r))
      else (case lfn_fill str n True p of (cs, r) \<Rightarrow> (0xffff # cs, r)))"

definition lfn_encode :: "u16 list \<Rightarrow> u8 \<Rightarrow> u8 \<Rightarrow> u8 list" where
  "lfn_encode cs placement checksum =
     [placement] @ concat (map bytes16 (take 5 cs)) @ [0xf, 0, checksum] @
     concat (map bytes16 (take 6 (drop 5 cs))) @ [0, 0] @ concat (map bytes16 (take 2 (drop 11 cs)))"

definition next_placement :: "nat \<Rightarrow> u8 \<Rightarrow> u8" where
  "next_placement len placement =
     (if unat placement = len - 1 then (placement + 1) OR 0x40 else placement + 1)"

text \<open>The loop over the \<open>len\<close> entries; \<open>n\<close> counts down.\<close>

fun write_lfn_loop ::
  "'d fat_vol \<Rightarrow> u32 \<Rightarrow> u64 \<Rightarrow> nat \<Rightarrow> u8 \<Rightarrow> chars \<Rightarrow> nat \<Rightarrow> u8 \<Rightarrow> bool \<Rightarrow> int \<Rightarrow> 'd \<Rightarrow> 'd option" where
  "write_lfn_loop v parent index len checksum str 0 placement done_flag p d = Some d"
| "write_lfn_loop v parent index len checksum str (Suc n) placement done_flag p d =
     (case lfn_fill str 13 done_flag p of (cs, done_flag, p) \<Rightarrow>
      Option.bind (fat_set_dir_entry v parent (index + of_nat n) (lfn_encode cs placement checksum) d) (\<lambda>d.
        write_lfn_loop v parent index len checksum str n (next_placement len placement) done_flag p d))"

definition zero_entry :: dir_entry_t where
  "zero_entry = \<lparr>filename = replicate 11 0, flags = 0, reserved2 = 0, created_ticks = 0, created_time = 0,
     created_date = 0, accessed_date = 0, cluster_hi = 0, modified_time = 0, modified_date = 0,
     cluster_lo = 0, de_size = 0\<rparr>"

definition set_cluster :: "u32 \<Rightarrow> dir_entry_t \<Rightarrow> dir_entry_t" where
  "set_cluster c e = e\<lparr>cluster_lo := ucast c, cluster_hi := ucast (drop_bit 16 c)\<rparr>"

text \<open>The entry of a new file or directory, with all dates set to now.\<close>

definition new_entry :: "datetime_t \<Rightarrow> u32 \<Rightarrow> u8 list \<Rightarrow> u8 \<Rightarrow> u8 \<Rightarrow> dir_entry_t" where
  "new_entry time cluster name ticks fl =
     set_cluster cluster (zero_entry\<lparr>filename := name, flags := fl, created_ticks := ticks,
       accessed_date := set_date time (year time + 1900) 0,
       created_date := set_date time (year time + 1900) 0, created_time := set_time time 0,
       modified_date := set_date time (year time + 1900) 0, modified_time := set_time time 0\<rparr>)"

text \<open>
  The part that \<^verbatim>\<open>fat_create\<close> and \<^verbatim>\<open>fat_mkdir\<close> share for a long name: the short name, the long-name entries; the result
  is the short name and the index of the entry behind them.
\<close>

definition make_long_name ::
  "'d vfs_env \<Rightarrow> 'd fat_vol \<Rightarrow> u32 \<Rightarrow> bool \<Rightarrow> chars \<Rightarrow> int \<Rightarrow> 'd \<Rightarrow> (u8 list \<times> u64 \<times> 'd) option" where
  "make_long_name env v parent_cluster dots str p d = do {
     (p, pos, short_path) \<leftarrow> short_loop False dots True str p 0 blank_name;
     (c, d) \<leftarrow> unused_name_loop env v parent_cluster (slash # short_path @ junk_bytes env 1) d;
     let short_path = short_path[6 := c];
     let p = p - int pos;
     n \<leftarrow> strlen_chars str p 0;
     let len = n div 13 + 1;
     (index, d) \<leftarrow> fat_get_free_dir_entry_chain v parent_cluster len d;
     d \<leftarrow> write_lfn_loop v parent_cluster (ucast index) len (fat_get_short_filename_checksum short_path) str len 1 False p d;
     Some (short_path, ucast index + of_nat len, d)
   }"

definition create_long ::
  "'d vfs_env \<Rightarrow> 'd fat_vol \<Rightarrow> u32 \<Rightarrow> chars \<Rightarrow> int \<Rightarrow> 'd \<Rightarrow> 'd option" where
  "create_long env v parent_cluster str p d = do {
     let time = env_time env;
     (short_path, index, d) \<leftarrow> make_long_name env v parent_cluster True str p d;
     (new_writing_cluster, d) \<leftarrow> fat_find_free_cluster_chain v 1 d;
     let dir = new_entry time new_writing_cluster short_path (seconds time mod 2) 0;
     fat_set_dir_entry v parent_cluster index (encode_entry dir) d
   }"

definition create_short ::
  "'d vfs_env \<Rightarrow> 'd fat_vol \<Rightarrow> u32 \<Rightarrow> chars \<Rightarrow> int \<Rightarrow> 'd \<Rightarrow> 'd option" where
  "create_short env v parent_cluster str p d = do {
     let time = env_time env;
     (_, _, short_path) \<leftarrow> short_loop False True False str p 0 blank_name;
     (index, d) \<leftarrow> fat_get_free_dir_entry_chain v parent_cluster 1 d;
     (new_writing_cluster, d) \<leftarrow> fat_find_free_cluster_chain v 1 d;
     let dir = new_entry time new_writing_cluster short_path (seconds time mod 2) 0;
     fat_set_dir_entry v parent_cluster (ucast index) (encode_entry dir) d
   }"

definition fat_create ::
  "'d vfs_env \<Rightarrow> ptr \<Rightarrow> cstring \<Rightarrow> u32 \<Rightarrow> int \<Rightarrow> int \<Rightarrow> 'd kstate \<Rightarrow> (ptr \<times> 'd kstate) option" where
  "fat_create env fsp path mode uid gid s = do {
     v \<leftarrow> fat_vol_of env fsp s;
     let str = path_chars env path;
     (r, out, d) \<leftarrow> fat_find v 0 str 0 no_out (disk s);
     let s = s\<lparr>disk := d\<rparr>;
     if r \<noteq> 0xfffffff then fat_open env fsp path s
     else case base_offset path of
       None \<Rightarrow> Some (0, s)
     | Some p \<Rightarrow> do {
         parent_cluster \<leftarrow> o_dir out;
         d \<leftarrow> (if is_long_loop (drop (nat p) path) 0 then create_long env v parent_cluster str p d
               else create_short env v parent_cluster str p d);
         fat_open env fsp path (s\<lparr>disk := d\<rparr>)
       }
   }"

definition dot_name :: "u8 list" where "dot_name = dot # replicate 10 space"
definition dotdot_name :: "u8 list" where "dotdot_name = dot # dot # replicate 9 space"

text \<open>The two entries of a new directory, both with the new cluster.\<close>

definition mkdir_long ::
  "'d vfs_env \<Rightarrow> 'd fat_vol \<Rightarrow> u32 \<Rightarrow> chars \<Rightarrow> int \<Rightarrow> 'd \<Rightarrow> 'd option" where
  "mkdir_long env v parent_cluster str p d = do {
     let time = env_time env;
     (short_path, index, d) \<leftarrow> make_long_name env v parent_cluster False str p d;
     (new_writing_cluster, d) \<leftarrow> fat_find_free_cluster_chain v 1 d;
     let dir = new_entry time new_writing_cluster short_path ((seconds time mod 2) * 100) 0x10;
     d \<leftarrow> fat_set_dir_entry v parent_cluster index (encode_entry dir) d;
     let dot_dir = set_cluster new_writing_cluster (zero_entry\<lparr>flags := 0x10\<rparr>);
     d \<leftarrow> fat_set_dir_entry v new_writing_cluster 0 (encode_entry (dot_dir\<lparr>filename := dot_name\<rparr>)) d;
     fat_set_dir_entry v new_writing_cluster 1 (encode_entry (dot_dir\<lparr>filename := dotdot_name\<rparr>)) d
   }"

definition mkdir_short ::
  "'d vfs_env \<Rightarrow> 'd fat_vol \<Rightarrow> u32 \<Rightarrow> chars \<Rightarrow> int \<Rightarrow> 'd \<Rightarrow> 'd option" where
  "mkdir_short env v parent_cluster str p d = do {
     let time = env_time env;
     (_, _, short_path) \<leftarrow> short_loop False False False str p 0 blank_name;
     (index, d) \<leftarrow> fat_get_free_dir_entry_chain v parent_cluster 1 d;
     (new_writing_cluster, d) \<leftarrow> fat_find_free_cluster_chain v 1 d;
     let dir = new_entry time new_writing_cluster short_path ((seconds time mod 2) * 100) 0x10;
     d \<leftarrow> fat_set_dir_entry v parent_cluster (ucast index) (encode_entry dir) d;
     (i, d) \<leftarrow> fat_get_free_dir_entry_chain v new_writing_cluster 1 d;
     d \<leftarrow> fat_set_dir_entry v new_writing_cluster (ucast i) (encode_entry (dir\<lparr>filename := dot_name\<rparr>)) d;
     (i, d) \<leftarrow> fat_get_free_dir_entry_chain v new_writing_cluster 1 d;
     fat_set_dir_entry v new_writing_cluster (ucast i) (encode_entry (dir\<lparr>filename := dotdot_name\<rparr>)) d
   }"

definition fat_mkdir ::
  "'d vfs_env \<Rightarrow> ptr \<Rightarrow> cstring \<Rightarrow> u32 \<Rightarrow> int \<Rightarrow> int \<Rightarrow> 'd kstate \<Rightarrow> (ptr \<times> 'd kstate) option" where
  "fat_mkdir env fsp path mode uid gid s = do {
     v \<leftarrow> fat_vol_of env fsp s;
     let str = path_chars env path;
     (r, out, d) \<leftarrow> fat_find v 0 str 0 no_out (disk s);
     let s = s\<lparr>disk := d\<rparr>;
     if r \<noteq> 0xfffffff then fat_open env fsp path s
     else case base_offset path of
       None \<Rightarrow> Some (0, s)
     | Some p \<Rightarrow> do {
         parent_cluster \<leftarrow> o_dir out;
         d \<leftarrow> (if is_long_loop (drop (nat p) path) 0 then mkdir_long env v parent_cluster str p d
               else mkdir_short env v parent_cluster str p d);
         fat_open env fsp path (s\<lparr>disk := d\<rparr>)
       }
   }"

section \<open>Mounting\<close>

definition fat_mount :: "'d vfs_env \<Rightarrow> ptr \<Rightarrow> 'd kstate \<Rightarrow> (ptr \<times> 'd kstate) option" where
  "fat_mount env dev s = do {
     dv \<leftarrow> env_dev env dev;
     case dev_read dv 0 1 (disk s) of (_, bios_block, d) \<Rightarrow>
       let s = s\<lparr>disk := d\<rparr> in
       if byte_at bios_block 66 \<noteq> 0x28 \<and> byte_at bios_block 66 \<noteq> 0x29 then Some (0, s)
       else
         let fsp = next_ptr s
         in Some (fsp, s\<lparr>fses := (fses s)(fsp \<mapsto> \<lparr>fs_ops = fat_fs_ops_addr, fs_dev = dev, fs_private = FP_boot bios_block\<rparr>),
                         next_ptr := fsp + 1\<rparr>)
   }"

definition fat_fs_ops :: "'d vfs_env \<Rightarrow> 'd fs_ops_t" where
  "fat_fs_ops env = \<lparr>fs_name = cstr ''FAT32'', fso_mount = Some (fat_mount env), fso_open = fat_open env,
     fso_mkdir = fat_mkdir env, fso_create = fat_create env, fso_mkfifo = fat_mkfifo, fso_mknod = fat_mknod\<rparr>"

definition init_fat :: "'d vfs_env \<Rightarrow> 'd vfs_t \<Rightarrow> 'd vfs_t" where
  "init_fat env v = vfs_register_fs (fat_fs_ops env) v"

section \<open>Short names\<close>

text \<open>\<open>chars_at\<close>: the bytes of a list are in the path at an offset. \<open>plain\<close>: no terminator, slash or dot.\<close>

definition chars_at :: "chars \<Rightarrow> int \<Rightarrow> u8 list \<Rightarrow> bool" where
  "chars_at str p xs \<longleftrightarrow> (\<forall>i<length xs. str (p + int i) = xs ! i)"

definition plain :: "cstring \<Rightarrow> bool" where
  "plain xs \<longleftrightarrow> 0 \<notin> set xs \<and> slash \<notin> set xs \<and> dot \<notin> set xs"

definition pad :: "nat \<Rightarrow> u8 list \<Rightarrow> u8 list" where
  "pad n xs = xs @ replicate (n - length xs) space"

text \<open>The 11 bytes of a name with at most 8 characters and an extension with at most 3.\<close>

definition name_8_3 :: "cstring \<Rightarrow> cstring \<Rightarrow> u8 list" where
  "name_8_3 base ext = pad 8 (map upper base) @ pad 3 (map upper ext)"

text \<open>The 16-bit characters of all the entries of a long name, one chunk of 13 after the other.\<close>

fun lfn_chunks :: "chars \<Rightarrow> nat \<Rightarrow> bool \<Rightarrow> int \<Rightarrow> u16 list list" where
  "lfn_chunks str 0 done_flag p = []"
| "lfn_chunks str (Suc n) done_flag p =
     (case lfn_fill str 13 done_flag p of (cs, done_flag, p) \<Rightarrow> cs # lfn_chunks str n done_flag p)"

text \<open>
  For the witnesses, the small volume with a file \<^verbatim>\<open>A.TXT\<close> of 5 bytes in cluster 3, mounted as file system 1,
  and that file opened.
\<close>

definition ex_entry :: "u8 list" where
  "ex_entry = [65, 32, 32, 32, 32, 32, 32, 32, 84, 88, 84, 0, 0, 0, 0, 0, 0, 0, 0, 0, 0, 0, 0, 0, 0, 0, 3, 0, 5, 0, 0, 0]"

definition ex_fat_disk :: "nat \<Rightarrow> u8" where
  "ex_fat_disk = (\<lambda>a. if 1024 \<le> a \<and> a < 1056 then ex_entry ! (a - 1024)
     else if 524 \<le> a \<and> a < 528 then ex_image (a - 4) else ex_image a)"

definition ex_fat_env :: "(nat \<Rightarrow> u8) vfs_env" where
  "ex_fat_env = \<lparr>env_dev = (\<lambda>_. Some ram_disk), env_ioctl = (\<lambda>_ _ _ s. Some (0, s)), env_mmap = (\<lambda>_ _ s. Some (0, s)),
     env_fops = (\<lambda>_. None), env_fsops = (\<lambda>_. None), env_addr = of_nat, env_mem = (\<lambda>_. 0), env_kids = (\<lambda>_. []),
     env_time = ex_time\<rparr>"

definition ex_fat_file :: fs_file_t where
  "ex_fat_file = (fresh_file ex_fat_env 0 0 S_IFREG)\<lparr>f_fs := 1, f_private := PD_fat ex_entry 0 3 2\<rparr>"

definition ex_fat_state :: "(nat \<Rightarrow> u8) kstate" where
  "ex_fat_state = \<lparr>files = [5 \<mapsto> ex_fat_file], pipes = (\<lambda>_. None),
     fses = [1 \<mapsto> \<lparr>fs_ops = 4, fs_dev = 1, fs_private = FP_boot ex_boot\<rparr>], next_ptr = 6, disk = ex_fat_disk\<rparr>"

lemma chars_at_Nil [simp]: "chars_at str p []"
  by (simp add: chars_at_def)

lemma chars_at_Cons: "chars_at str p (x # xs) \<longleftrightarrow> str p = x \<and> chars_at str (p + 1) xs"
  by (simp add: chars_at_def All_less_Suc2 algebra_simps)

lemma chars_at_append: "chars_at str p (xs @ ys) \<longleftrightarrow> chars_at str p xs \<and> chars_at str (p + int (length xs)) ys"
  by (induction xs arbitrary: p) (auto simp: chars_at_Cons algebra_simps)

lemma chars_at_path: "chars_at (path_chars env xs) 0 (xs @ [0])"
  by (simp add: chars_at_def path_chars_def raw_chars_def del: length_append)

lemma short_loop_run:
  assumes "chars_at str p xs" and "plain xs" and "pos + length xs \<le> 11" and "11 \<le> length sn"
  shows "short_loop True True False str p pos sn =
    short_loop True True False str (p + int (length xs)) (pos + length xs) (put_list sn pos (map upper xs))"
  using assms
proof (induction xs arbitrary: p pos sn)
  case Nil then show ?case by (simp add: put_list_def)
next
  case (Cons x xs)
  have x: "str p = x" "x \<noteq> 0" "x \<noteq> slash" "x \<noteq> dot" "pos < 11" "chars_at str (p + 1) xs" "plain xs"
    using Cons.prems by (auto simp: chars_at_Cons plain_def)
  have pl: "put_list (sn[pos := upper x]) (Suc pos) (map upper xs) = put_list sn pos (map upper (x # xs))"
    using x(5) Cons.prems(4) by (simp add: put_list_def take_Suc_conv_app_nth drop_update_cancel)
  have "short_loop True True False str p pos sn = short_loop True True False str (p + 1) (Suc pos) (sn[pos := upper x])"
    using x by (subst short_loop.simps) (simp add: Let_def)
  also have "\<dots> = short_loop True True False str (p + 1 + int (length xs)) (Suc pos + length xs)
      (put_list (sn[pos := upper x]) (Suc pos) (map upper xs))"
    using Cons.prems x by (intro Cons.IH) auto
  finally show ?case unfolding pl by (simp add: algebra_simps)
qed

lemma short_loop_stop:
  "str p = 0 \<or> str p = slash \<Longrightarrow> short_loop True True False str p pos sn = Some (p, pos, sn)"
  by (subst short_loop.simps) auto

lemma put_name_8_3:
  assumes "length base \<le> 8" and "length ext \<le> 3"
  shows "put_list (put_list (replicate 12 space) 0 (map upper base)) 8 (map upper ext) = name_8_3 base ext @ [space]"
proof -
  have "4 - length ext = Suc (3 - length ext)" using assms(2) by simp
  then have "replicate (4 - length ext) space = replicate (3 - length ext) space @ [space]"
    by (simp add: replicate_append_same)
  moreover have "min (8 - length base) (12 - length base) = 8 - length base" by simp
  moreover have "12 - length base - (8 + length ext - length base) = 4 - length ext" using assms by simp
  ultimately show ?thesis
    using assms by (simp add: put_list_def name_8_3_def pad_def take_append drop_append)
qed

lemma short_loop_8_3:
  assumes "chars_at str p (base @ dot # ext)" and "plain base" and "plain ext"
    and "length base \<le> 8" and "length ext \<le> 3"
    and "str (p + int (length base) + 1 + int (length ext)) \<in> {0, slash}"
  shows "short_loop True True False str p 0 (replicate 12 space) =
    Some (p + int (length base) + 1 + int (length ext), 8 + length ext, name_8_3 base ext @ [space])"
proof -
  let ?sn = "put_list (replicate 12 space) 0 (map upper base)"
  have at: "chars_at str p base" "str (p + int (length base)) = dot" "chars_at str (p + int (length base) + 1) ext"
    using assms(1) by (auto simp: chars_at_append chars_at_Cons)
  have "short_loop True True False str p 0 (replicate 12 space) =
      short_loop True True False str (p + int (length base)) (length base) ?sn"
    using short_loop_run [OF at(1) assms(2), of 0 "replicate 12 space"] assms(4) by simp
  also have "\<dots> = short_loop True True False str (p + int (length base) + 1) 8 ?sn"
    using at(2) assms(4) by (subst short_loop.simps) (auto simp: Let_def)
  also have "\<dots> = short_loop True True False str (p + int (length base) + 1 + int (length ext)) (8 + length ext)
      (put_list ?sn 8 (map upper ext))"
    using assms(4,5) by (intro short_loop_run [OF at(3) assms(3)]) auto
  also have "\<dots> = Some (p + int (length base) + 1 + int (length ext), 8 + length ext, put_list ?sn 8 (map upper ext))"
    using assms(6) by (intro short_loop_stop) auto
  also have "put_list ?sn 8 (map upper ext) = name_8_3 base ext @ [space]"
    using assms(4,5) by (rule put_name_8_3)
  finally show ?thesis .
qed

section \<open>Lookup of a short name\<close>

text \<open>
  Entry \<open>k\<close> is the first one with the name in a directory without long names up to there.
\<close>

definition first_entry :: "u8 list \<Rightarrow> nat \<Rightarrow> u8 list \<Rightarrow> nat \<Rightarrow> bool" where
  "first_entry buffer sz nm k \<longleftrightarrow> k < sz \<and> \<not> entry_is_free buffer k \<and> byte_at buffer (32 * k + 11) \<noteq> 0xf \<and>
     take 11 (drop (32 * k) buffer) = nm \<and>
     (\<forall>i<k. entry_is_free buffer i \<or> byte_at buffer (32 * i + 11) \<noteq> 0xf \<and> take 11 (drop (32 * i) buffer) \<noteq> nm)"

definition no_entry :: "u8 list \<Rightarrow> nat \<Rightarrow> u8 list \<Rightarrow> bool" where
  "no_entry buffer sz nm \<longleftrightarrow>
     (\<forall>i < sz. entry_is_free buffer i \<or> byte_at buffer (32 * i + 11) \<noteq> 0xf \<and> take 11 (drop (32 * i) buffer) \<noteq> nm)"

lemma find_in_dir_first:
  assumes "first_entry buffer sz (take 11 sn) k" and "j \<le> k"
  shows "find_in_dir str buffer sz sn j p pos = Some (Some (k, p))"
  using assms(2)
proof (induction "k - j" arbitrary: j)
  case 0
  then show ?case using assms(1) by (subst find_in_dir.simps) (auto simp: first_entry_def)
next
  case (Suc n)
  then have "j < k" by simp
  moreover have "find_in_dir str buffer sz sn (j + 1) p pos = Some (Some (k, p))" using Suc by simp
  ultimately show ?case using assms(1) by (subst find_in_dir.simps) (auto simp: first_entry_def)
qed

lemma find_in_dir_none:
  assumes "no_entry buffer sz (take 11 sn)"
  shows "find_in_dir str buffer sz sn j p pos = Some None"
proof (induction "sz - j" arbitrary: j)
  case 0 then show ?case by (subst find_in_dir.simps) simp
next
  case (Suc n)
  then have "j < sz" by simp
  moreover have "find_in_dir str buffer sz sn (j + 1) p pos = Some None" using Suc by simp
  ultimately show ?case using assms by (subst find_in_dir.simps) (auto simp: no_entry_def)
qed

text \<open>A volume in a state: the disk, the root directory's chain and the directory as bytes.\<close>

definition root_dir :: "'d fat_vol \<Rightarrow> ('d \<Rightarrow> nat \<Rightarrow> u8) \<Rightarrow> 'd \<Rightarrow> u32 list \<Rightarrow> u8 list \<Rightarrow> bool" where
  "root_dir v img d cs buffer \<longleftrightarrow> fat_driver v img \<and> root_cluster v < 0xffffff7 \<and> root_cluster v \<noteq> 0 \<and>
     is_chain v (img d) (root_cluster v) cs \<and> buffer = chain_bytes v (img d) cs \<and> length cs * cluster_len v < 2 ^ 64"

lemma length_name_8_3: "length base \<le> 8 \<Longrightarrow> length ext \<le> 3 \<Longrightarrow> length (name_8_3 base ext) = 11"
  by (simp add: name_8_3_def pad_def)

lemma fat_find_8_3:
  assumes rd: "root_dir v img d cs buffer" and nm: "plain base" "plain ext" "length base \<le> 8" "length ext \<le> 3"
      "base \<noteq> []" "hd base \<noteq> space"
    and str: "str = path_chars env (slash # base @ dot # ext)"
  shows "first_entry buffer (length buffer div 32) (name_8_3 base ext) k \<Longrightarrow>
      fat_find v 0 str 0 out d =
        Some (entry_cluster (decode_entry (entry_bytes buffer k)),
              out\<lparr>o_entry := Some (entry_bytes buffer k), o_index := Some (of_nat k), o_dir := Some (root_cluster v)\<rparr>, d)"
    and "no_entry buffer (length buffer div 32) (name_8_3 base ext) \<Longrightarrow>
      fat_find v 0 str 0 out d = Some (0xfffffff, out\<lparr>o_dir := Some (root_cluster v)\<rparr>, d)"
proof -
  let ?root = "root_cluster v" and ?fin = "1 + int (length base) + 1 + int (length ext)"
  have "chars_at str 0 (slash # base @ (dot # ext) @ [0])"
    using chars_at_path [of env "slash # base @ dot # ext"] str by simp
  then have at: "str 0 = slash" "chars_at str 1 (base @ dot # ext)" "str ?fin = 0"
    by (auto simp: chars_at_Cons chars_at_append algebra_simps)
  have s1: "str 1 = hd base" "hd base \<in> set base" using at(2) nm(5) by (cases base; simp add: chars_at_Cons)+
  then have c1: "str 1 \<noteq> 0" "str 1 \<noteq> slash" "str 1 \<noteq> dot" "str 1 \<noteq> space" using nm(1,6) by (auto simp: plain_def)
  have sl: "short_loop True True False str 1 0 (replicate 12 space) = Some (?fin, 8 + length ext, name_8_3 base ext @ [space])"
    using short_loop_8_3 [OF at(2) nm(1-4)] at(3) by simp
  have drv: "fat_driver v img" and r: "\<not> ?root \<ge> 0xffffff7" "?root \<noteq> 0" and ch: "is_chain v (img d) ?root cs"
    and buf: "buffer = chain_bytes v (img d) cs" and sz: "length cs * cluster_len v < 2 ^ 64"
    using rd by (auto simp: root_dir_def)
  have n: "unat (dir_size v (of_nat (length cs)) div 32) = length buffer div 32"
    using dir_size_img [OF sz] buf by (simp add: unat_div)
  have len: "fat_chain_cluster_length v ?root d = Some (of_nat (length cs), d)"
    using chain_length_img [OF drv ch, of 0] by (simp add: fat_chain_cluster_length_def)
  have rdc: "fat_read_cluster_chain v ?root d = Some (buffer, d)" using read_chain_img [OF drv ch] buf by simp
  have t11: "take 11 (name_8_3 base ext @ [space]) = name_8_3 base ext" using length_name_8_3 [OF nm(3,4)] by simp
  have step1: "fat_find v 0 str 0 out d = fat_find v ?root str 1 (out\<lparr>o_dir := Some ?root\<rparr>) d"
    using at(1) by (subst fat_find.simps) (simp add: Let_def)
  show "fat_find v 0 str 0 out d =
        Some (entry_cluster (decode_entry (entry_bytes buffer k)),
              out\<lparr>o_entry := Some (entry_bytes buffer k), o_index := Some (of_nat k), o_dir := Some ?root\<rparr>, d)"
    if k: "first_entry buffer (length buffer div 32) (name_8_3 base ext) k"
    unfolding step1 using find_in_dir_first [of buffer "length buffer div 32" "name_8_3 base ext @ [space]" k 0 str ?fin] k
      c1 r sl len rdc n at(3) t11
    by (subst fat_find.simps) (simp add: Let_def)
  show "fat_find v 0 str 0 out d = Some (0xfffffff, out\<lparr>o_dir := Some ?root\<rparr>, d)"
    if k: "no_entry buffer (length buffer div 32) (name_8_3 base ext)"
    unfolding step1 using find_in_dir_none [of buffer "length buffer div 32" "name_8_3 base ext @ [space]" str 0 ?fin] k
      c1 r sl len rdc n t11
    by (subst fat_find.simps) (simp add: Let_def)
qed

section \<open>Reading a file\<close>

lemma chain_bytes_frame:
  assumes "\<forall>a. (\<forall>x\<in>set ds. \<forall>i<cluster_len v. a \<noteq> cluster_addr v x + i) \<longrightarrow> im' a = im a"
    and "set cs \<inter> set ds = {}" and "\<forall>x\<in>set cs \<union> set ds. in_table v x"
  shows "chain_bytes v im' cs = chain_bytes v im cs"
proof -
  have "cluster_bytes v im' c = cluster_bytes v im c" if c: "c \<in> set cs" for c
    unfolding cluster_bytes_def
  proof (rule img_bytes_cong)
    fix i assume "i < cluster_len v"
    then have "\<forall>x\<in>set ds. \<forall>j<cluster_len v. cluster_addr v c + i \<noteq> cluster_addr v x + j"
      using clusters_disjoint [of c _ i v] assms(2,3) c by (auto simp: in_table_def)
    then show "im' (cluster_addr v c + i) = im (cluster_addr v c + i)" using assms(1) by blast
  qed
  then show ?thesis by (simp add: chain_bytes_def cong: map_cong)
qed

lemma length_encode_entry: "length (filename e) = 11 \<Longrightarrow> length (encode_entry e) = 32"
  by (simp add: encode_entry_def bytes16_def bytes32_def)

section \<open>Long names\<close>

lemma length_lfn_fill: "length (fst (lfn_fill str n done_flag p)) = n"
  by (induction n arbitrary: done_flag p) (auto simp: split_beta)

lemma lfn_fill_done: "lfn_fill str n True p = (replicate n 0xffff, True, p)"
  by (induction n) auto

lemma lfn_fill_name:
  assumes "chars_at str p (ns @ [0])" and "0 \<notin> set ns"
  shows "lfn_fill str n False p =
    (if n \<le> length ns then (map scast (take n ns), False, p + int n)
     else (map scast ns @ 0 # replicate (n - length ns - 1) 0xffff, True, p + int (length ns)))"
  using assms
proof (induction n arbitrary: p ns)
  case 0 show ?case by simp
next
  case (Suc n)
  show ?case
  proof (cases ns)
    case Nil then show ?thesis using Suc.prems by (simp add: chars_at_Cons lfn_fill_done)
  next
    case (Cons c cs)
    then have "str p = c" "c \<noteq> 0" "chars_at str (p + 1) (cs @ [0])" "0 \<notin> set cs"
      using Suc.prems by (auto simp: chars_at_Cons)
    then show ?thesis using Suc.IH [of "p + 1" cs] Cons by simp
  qed
qed

lemma ucast_scast: "ucast (scast (c :: u8) :: u16) = c"
  by (rule bit_word_eqI) (auto simp: bit_simps)

lemma lfn_chars_encode:
  assumes "length cs = 13"
  shows "lfn_chars (lfn_encode cs placement checksum) = map ucast cs"
proof -
  obtain a b c d e f g h i j k l m where "cs = [a, b, c, d, e, f, g, h, i, j, k, l, m]"
    using assms by (auto simp: length_Suc_conv eval_nat_numeral)
  then show ?thesis
    by (simp add: lfn_chars_def lfn_encode_def bytes16_def byte_at_def upt_rec)
qed

lemma lfn_chunks_done: "concat (lfn_chunks str n True p) = replicate (13 * n) 0xffff"
  by (induction n) (simp_all add: lfn_fill_done replicate_add)

lemma lfn_chunks_name:
  assumes "chars_at str p (ns @ [0])" and "0 \<notin> set ns"
  shows "concat (lfn_chunks str n False p) =
    (if 13 * n \<le> length ns then map scast (take (13 * n) ns)
     else map scast ns @ 0 # replicate (13 * n - length ns - 1) 0xffff)"
  using assms
proof (induction n arbitrary: p ns)
  case 0 show ?case by simp
next
  case (Suc n)
  show ?case
  proof (cases "13 \<le> length ns")
    case True
    have "chars_at str (p + 13) (drop 13 ns @ [0])" "0 \<notin> set (drop 13 ns)"
      using Suc.prems chars_at_append [of str p "take 13 ns" "drop 13 ns @ [0]"] True
      by (simp_all add: min_absorb2 append_assoc [symmetric] del: append_assoc) (metis in_set_dropD)
    from Suc.IH [OF this] show ?thesis
      using True lfn_fill_name [OF Suc.prems, of 13] append_take_drop_id [of 13 "map scast ns"]
      by (auto simp: take_add take_map drop_map)
  next
    case False
    then have "13 * Suc n - length ns - 1 = (13 - length ns - 1) + 13 * n" by simp
    then show ?thesis
      using False lfn_fill_name [OF Suc.prems, of 13] by (simp only: replicate_add) (simp add: lfn_chunks_done)
  qed
qed

lemma length_lfn_chunk: "cs \<in> set (lfn_chunks str n done_flag p) \<Longrightarrow> length cs = 13"
proof (induction n arbitrary: done_flag p)
  case (Suc n)
  then show ?case using length_lfn_fill [of str 13 done_flag p] by (auto simp: split_beta simp del: lfn_fill.simps)
qed simp

lemma path_name_loop_name:
  assumes "chars_at str p (ns @ [0])" and "0 \<notin> set ns" and "slash \<notin> set ns" and "unat pos + length ns < 256"
  shows "path_name_loop str p pos buf = Some (p + int (length ns), pos + of_nat (length ns),
    (\<lambda>k. if k = unat pos + length ns then 0
         else if unat pos \<le> k \<and> k < unat pos + length ns then ns ! (k - unat pos) else buf k))"
  using assms
proof (induction ns arbitrary: p pos buf)
  case Nil then show ?case by (subst path_name_loop.simps) (auto simp: chars_at_Cons)
next
  case (Cons c ns)
  have u: "unat (pos + 1) = unat pos + 1" using Cons.prems(4) by (subst unat_add_small) simp_all
  have "path_name_loop str p pos buf = path_name_loop str (p + 1) (pos + 1) (buf(unat pos := c))"
    using Cons.prems by (subst path_name_loop.simps) (auto simp: chars_at_Cons)
  also have "\<dots> = Some (p + 1 + int (length ns), pos + 1 + of_nat (length ns),
      (\<lambda>k. if k = unat (pos + 1) + length ns then 0
         else if unat (pos + 1) \<le> k \<and> k < unat (pos + 1) + length ns then ns ! (k - unat (pos + 1)) else (buf(unat pos := c)) k))"
    using Cons.prems u by (intro Cons.IH) (auto simp: chars_at_Cons)
  finally show ?case unfolding u
    by (rule trans) (auto simp: fun_eq_iff nth_Cons' Suc_diff_le)
qed

section \<open>Properties\<close>




section \<open>Witnesses\<close>

lemma ex_fat_entries:
  "fat_entry ex_vol ex_fat_disk 2 = 0xffffff8" "fat_entry ex_vol ex_fat_disk 3 = 0xffffff8"
  by (simp_all add: fat_entry_def entry_addr_eq ex_fat_disk_def ex_image_def img_bytes_def get32_def get16_def byte_at_def upt_rec)

lemma ex_fat_chains: "is_chain ex_vol ex_fat_disk 2 [2]" "is_chain ex_vol ex_fat_disk 3 [3]" "in_table ex_vol 2" "in_table ex_vol 3"
  by (simp_all add: ex_fat_entries in_table_def)

lemma ex_fat_vol: "fat_vol_of ex_fat_env 1 ex_fat_state = Some ex_vol"
  by (simp add: fat_vol_of_def ex_fat_state_def ex_fat_env_def ex_vol_def)

lemma ex_fat_disk_simps: "disk ex_fat_state = ex_fat_disk" "files ex_fat_state 5 = Some ex_fat_file"
    "f_private ex_fat_file = PD_fat ex_entry 0 3 2" "f_fs ex_fat_file = 1"
  by (simp_all add: ex_fat_state_def ex_fat_file_def)

lemma ex_fat_root: "root_dir ex_vol (\<lambda>im. im) ex_fat_disk [2] (img_bytes ex_fat_disk 1024 512)"
  using ex_fat_chains(1)
  by (simp add: root_dir_def chain_bytes_def cluster_bytes_def cluster_addr_eq)

lemma ex_fat_first: "first_entry (img_bytes ex_fat_disk 1024 512) (512 div 32) (name_8_3 [97] [116, 120, 116]) 0"
proof -
  have "take 11 (drop 0 (img_bytes ex_fat_disk 1024 512)) = img_bytes ex_fat_disk 1024 11"
    using take_drop_img_bytes [of 0 11 512 ex_fat_disk 1024] by simp
  moreover have spaces: "replicate 7 space = [space, space, space, space, space, space, space]"
    by (simp add: eval_nat_numeral)
  ultimately show ?thesis
    by (simp add: first_entry_def entry_is_free_def byte_at_img_bytes)
      (simp add: ex_fat_disk_def ex_entry_def img_bytes_def upt_rec name_8_3_def pad_def upper_def spaces)
qed




end
