(* ===== verification/Vmm.thy ===== *)
theory Vmm
  imports Pmm Vfs
begin

text \<open>
  The page tables, \<^verbatim>\<open>src/src/kernel/mm/vmm.c\<close>: four levels of 512 entries in physical
  pages. Memory is the direct map, indexed by kernel virtual address; the low identity
  window of the boot loader and of the kernel's page map shows the same bytes
  (\<open>direct\<close>). Page maps and the open file slots that mapped ranges name live in stores
  indexed by pointers; the state is extensible, for the scheduler adds its own. \<^const>\<open>None\<close>
  is a call that never returns or dereferences a null pointer; the kernel heap does not fail.
  The proofs show that the four level walk implements a partial function from virtual pages
  to entries.
\<close>

section \<open>State\<close>

record mmap_range_t =
  mr_file :: ptr
  mr_phys_addr :: u64
  mr_virt_addr :: u64
  mr_offset :: u64
  mr_length :: u64
  mr_flags :: u32
  mr_prot :: u32

record pagemap_t =
  pm_lock :: lock_t
  top_level :: u64
  ranges :: "mmap_range_t list"

record syscall_file_t =
  sf_file :: ptr
  sf_flags :: u32

text \<open>\<open>invlpgs\<close> records the \<^verbatim>\<open>invlpg\<close> instructions executed, the last one first.\<close>

record vmm_state =
  vm_pmm :: pmm_state
  vm_mem :: mem
  cr3 :: u64
  invlpgs :: "u64 list"
  pagemaps :: "ptr \<Rightarrow> pagemap_t option"
  sfiles :: "ptr \<Rightarrow> syscall_file_t option"
  next_obj :: ptr

text \<open>The address of the static variable \<^verbatim>\<open>kernel_pagemap\<close>.\<close>

abbreviation kernel_pagemap :: ptr where "kernel_pagemap \<equiv> 1"

abbreviation KERNEL_MEM_OFFSET :: u64 where "KERNEL_MEM_OFFSET \<equiv> 0xffffffff80000000"

abbreviation MAP_PRIVATE :: u32 where "MAP_PRIVATE \<equiv> 1"
abbreviation MAP_SHARED :: u32 where "MAP_SHARED \<equiv> 2"
abbreviation MAP_FIXED :: u32 where "MAP_FIXED \<equiv> 4"
abbreviation MAP_ANON :: u32 where "MAP_ANON \<equiv> 8"
abbreviation PROT_READ :: u32 where "PROT_READ \<equiv> 1"
abbreviation PROT_WRITE :: u32 where "PROT_WRITE \<equiv> 2"
abbreviation PROT_EXEC :: u32 where "PROT_EXEC \<equiv> 4"

definition direct :: "u64 \<Rightarrow> u64" where
  "direct adr = (if adr < PHYS_MEM_OFFSET then adr + PHYS_MEM_OFFSET else adr)"


section \<open>Operations\<close>

definition vmm_get_next_level ::
    "u64 \<Rightarrow> u64 \<Rightarrow> u64 \<Rightarrow> 'a vmm_state_scheme \<Rightarrow> (u64 \<times> 'a vmm_state_scheme) option" where
  "vmm_get_next_level table index flags s =
     (let slot = direct (table + index * 8); e = load64 (vm_mem s) slot in
      if e AND 1 \<noteq> 0 then Some ((e AND NOT 0xfff) + PHYS_MEM_OFFSET, s)
      else do {
        (ret, p, m) \<leftarrow> pcalloc 1 (vm_pmm s, vm_mem s);
        Some (ret + PHYS_MEM_OFFSET, s\<lparr>vm_pmm := p, vm_mem := store64 m slot (ret OR 7)\<rparr>)
      })"

definition vmm_invalidate_tlb :: "u64 \<Rightarrow> u64 \<Rightarrow> 'a vmm_state_scheme \<Rightarrow> 'a vmm_state_scheme" where
  "vmm_invalidate_tlb pml4 virt s =
     (if cr3 s = pml4 then s\<lparr>invlpgs := virt # invlpgs s\<rparr> else s)"

text \<open>\<^verbatim>\<open>(size_t)(virtual_address & ((size_t)0x1ff << shift)) >> shift\<close>.\<close>

definition pml_entry :: "nat \<Rightarrow> u64 \<Rightarrow> u64" where
  "pml_entry shift virt = drop_bit shift (virt AND push_bit shift 0x1ff)"

text \<open>The three calls of \<^verbatim>\<open>vmm_get_next_level\<close> that lead to the lowest table.\<close>

definition vmm_walk ::
    "u64 \<Rightarrow> u64 \<Rightarrow> u64 \<Rightarrow> 'a vmm_state_scheme \<Rightarrow> (u64 \<times> 'a vmm_state_scheme) option" where
  "vmm_walk pml4 virt flags s = do {
     (pml3, s) \<leftarrow> vmm_get_next_level (pml4 + PHYS_MEM_OFFSET) (pml_entry 39 virt) flags s;
     (pml2, s) \<leftarrow> vmm_get_next_level pml3 (pml_entry 30 virt) flags s;
     vmm_get_next_level pml2 (pml_entry 21 virt) flags s
   }"

definition lock_pagemap :: "ptr \<Rightarrow> 'a vmm_state_scheme \<Rightarrow> (pagemap_t \<times> 'a vmm_state_scheme) option" where
  "lock_pagemap pg s = do {
     pm \<leftarrow> pagemaps s pg;
     (_, l) \<leftarrow> LOCK (pm_lock pm);
     let pm = pm\<lparr>pm_lock := l\<rparr>;
     Some (pm, s\<lparr>pagemaps := (pagemaps s)(pg \<mapsto> pm)\<rparr>)
   }"

definition unlock_pagemap :: "ptr \<Rightarrow> 'a vmm_state_scheme \<Rightarrow> 'a vmm_state_scheme" where
  "unlock_pagemap pg s = s\<lparr>pagemaps := (pagemaps s)
     (pg := map_option (\<lambda>pm. pm\<lparr>pm_lock := UNLOCK (pm_lock pm)\<rparr>) (pagemaps s pg))\<rparr>"

definition vmm_map_page ::
    "ptr \<Rightarrow> u64 \<Rightarrow> u64 \<Rightarrow> u64 \<Rightarrow> 'a vmm_state_scheme \<Rightarrow> 'a vmm_state_scheme option" where
  "vmm_map_page pg phys virt flags s = do {
     (pm, s) \<leftarrow> lock_pagemap pg s;
     (pml1, s) \<leftarrow> vmm_walk (top_level pm) virt flags s;
     let s = s\<lparr>vm_mem := store64 (vm_mem s) (direct (pml1 + pml_entry 12 virt * 8)) (phys OR flags)\<rparr>;
     let s = vmm_invalidate_tlb (top_level pm) virt s;
     Some (unlock_pagemap pg s)
   }"

definition vmm_unmap_page ::
    "ptr \<Rightarrow> u64 \<Rightarrow> 'a vmm_state_scheme \<Rightarrow> 'a vmm_state_scheme option" where
  "vmm_unmap_page pg virt s = do {
     (pm, s) \<leftarrow> lock_pagemap pg s;
     (pml1, s) \<leftarrow> vmm_walk (top_level pm) virt 7 s;
     let s = s\<lparr>vm_mem := store64 (vm_mem s) (direct (pml1 + pml_entry 12 virt * 8)) 0\<rparr>;
     let s = vmm_invalidate_tlb (top_level pm) virt s;
     Some (unlock_pagemap pg s)
   }"

definition vmm_virt_to_phys ::
    "ptr \<Rightarrow> u64 \<Rightarrow> 'a vmm_state_scheme \<Rightarrow> (u64 \<times> 'a vmm_state_scheme) option" where
  "vmm_virt_to_phys pg virt s = do {
     pm \<leftarrow> pagemaps s pg;
     (pml1, s) \<leftarrow> vmm_walk (top_level pm) virt 7 s;
     let e = load64 (vm_mem s) (direct (pml1 + pml_entry 12 virt * 8));
     Some (if e AND 1 = 0 then 0 else e AND NOT 0xfff, s)
   }"

definition vmm_get_kernel_address ::
    "ptr \<Rightarrow> u64 \<Rightarrow> 'a vmm_state_scheme \<Rightarrow> (u64 \<times> 'a vmm_state_scheme) option" where
  "vmm_get_kernel_address pg virt s = do {
     let aligned = ALIGN_DOWN virt;
     (phys, s) \<leftarrow> vmm_virt_to_phys pg virt s;
     Some (phys + PHYS_MEM_OFFSET + virt - aligned, s)
   }"

text \<open>
  One side of the copy loop: after \<^verbatim>\<open>++align_difference\<close> the page is changed when the
  next offset plus one is a multiple of the page size.
\<close>

definition memcpy_advance ::
    "ptr \<Rightarrow> u64 \<times> u64 \<times> u64 \<Rightarrow> 'a vmm_state_scheme \<Rightarrow> ((u64 \<times> u64 \<times> u64) \<times> 'a vmm_state_scheme) option" where
  "memcpy_advance pg c s = (case c of (virt, phys, diff) \<Rightarrow>
     let diff = diff + 1 in
     if (diff + 1) mod PAGE_SIZE = 0 then do {
       let virt = virt + PAGE_SIZE;
       (phys, s) \<leftarrow> vmm_virt_to_phys pg (ALIGN_DOWN virt) s;
       Some ((virt, phys, 0), s)
     } else Some ((virt, phys, diff), s))"

fun vmm_memcpy_loop ::
    "ptr \<Rightarrow> ptr \<Rightarrow> nat \<Rightarrow> u64 \<times> u64 \<times> u64 \<Rightarrow> u64 \<times> u64 \<times> u64 \<Rightarrow> 'a vmm_state_scheme \<Rightarrow>
     'a vmm_state_scheme option" where
  "vmm_memcpy_loop pg1 pg2 0 c1 c2 s = Some s"
| "vmm_memcpy_loop pg1 pg2 (Suc n) c1 c2 s = (case c1 of (v1, phys1, diff1) \<Rightarrow> case c2 of (v2, phys2, diff2) \<Rightarrow> do {
     let s = s\<lparr>vm_mem := (vm_mem s)(direct (phys1 + PHYS_MEM_OFFSET + diff1) :=
                 vm_mem s (direct (phys2 + PHYS_MEM_OFFSET + diff2)))\<rparr>;
     (c1, s) \<leftarrow> memcpy_advance pg1 c1 s;
     (c2, s) \<leftarrow> memcpy_advance pg2 c2 s;
     vmm_memcpy_loop pg1 pg2 n c1 c2 s
   })"

definition vmm_memcpy ::
    "ptr \<Rightarrow> u64 \<Rightarrow> ptr \<Rightarrow> u64 \<Rightarrow> u64 \<Rightarrow> 'a vmm_state_scheme \<Rightarrow> 'a vmm_state_scheme option" where
  "vmm_memcpy pg1 virt1 pg2 virt2 count s = do {
     let aligned1 = ALIGN_DOWN virt1;
     let aligned2 = ALIGN_DOWN virt2;
     (phys1, s) \<leftarrow> vmm_virt_to_phys pg1 aligned1 s;
     (phys2, s) \<leftarrow> vmm_virt_to_phys pg2 aligned2 s;
     vmm_memcpy_loop pg1 pg2 (unat count) (virt1, phys1, virt1 - aligned1) (virt2, phys2, virt2 - aligned2) s
   }"

definition vmm_load_pagemap :: "ptr \<Rightarrow> 'a vmm_state_scheme \<Rightarrow> 'a vmm_state_scheme option" where
  "vmm_load_pagemap pg s = do { pm \<leftarrow> pagemaps s pg; Some (s\<lparr>cr3 := top_level pm\<rparr>) }"

text \<open>A zeroed page map with this top level, at a new address.\<close>

definition new_pagemap :: "u64 \<Rightarrow> 'a vmm_state_scheme \<Rightarrow> ptr \<times> 'a vmm_state_scheme" where
  "new_pagemap pml4 s = (next_obj s,
     s\<lparr>pagemaps := (pagemaps s)(next_obj s \<mapsto> \<lparr>pm_lock = lock_init, top_level = pml4, ranges = []\<rparr>),
       next_obj := Suc (next_obj s)\<rparr>)"

definition vmm_create_new_pagemap :: "'a vmm_state_scheme \<Rightarrow> (ptr \<times> 'a vmm_state_scheme) option" where
  "vmm_create_new_pagemap s = do {
     (pml4, p, m) \<leftarrow> pcalloc 1 (vm_pmm s, vm_mem s);
     kernel \<leftarrow> pagemaps s kernel_pagemap;
     let kernel_top = top_level kernel + PHYS_MEM_OFFSET;
     let user_top = pml4 + PHYS_MEM_OFFSET;
     let m = fold (\<lambda>i m. store64 m (direct (user_top + of_nat i * 8))
                          (load64 m (direct (kernel_top + of_nat i * 8)))) [256..<512] m;
     Some (new_pagemap pml4 (s\<lparr>vm_pmm := p, vm_mem := m\<rparr>))
   }"

text \<open>
  \<^verbatim>\<open>for (size_t j = 0; j < length; j += PAGE_SIZE)\<close>: above the last page boundary of the
  address space the counter wraps and the loop never ends.
\<close>

definition page_loop :: "u64 \<Rightarrow> (u64 \<Rightarrow> 's \<Rightarrow> 's option) \<Rightarrow> 's \<Rightarrow> 's option" where
  "page_loop len f s =
     (if len \<le> 0xfffffffffffff000
      then foldM (\<lambda>i. f (of_nat i * PAGE_SIZE)) [0..<(unat len + 4095) div 4096] s else None)"

definition page_flags :: "u32 \<Rightarrow> u64" where
  "page_flags prot = (if prot AND PROT_WRITE \<noteq> 0 then 7 else 5)"

definition push_range :: "ptr \<Rightarrow> mmap_range_t \<Rightarrow> 'a vmm_state_scheme \<Rightarrow> 'a vmm_state_scheme option" where
  "push_range pg rg s = do {
     pm \<leftarrow> pagemaps s pg;
     Some (s\<lparr>pagemaps := (pagemaps s)(pg \<mapsto> pm\<lparr>ranges := ranges pm @ [rg]\<rparr>)\<rparr>)
   }"

text \<open>The pages of a range, mapped to consecutive physical pages.\<close>

definition map_pages ::
    "ptr \<Rightarrow> u64 \<Rightarrow> u64 \<Rightarrow> u64 \<Rightarrow> u32 \<Rightarrow> 'a vmm_state_scheme \<Rightarrow> 'a vmm_state_scheme option" where
  "map_pages pg phys virt len prot =
     page_loop len (\<lambda>j. vmm_map_page pg (phys + j) (virt + j) (page_flags prot))"

text \<open>
  One turn of the loop of \<^verbatim>\<open>vmm_fork_pagemap\<close>; \<^verbatim>\<open>vfs_mmap\<close> gets the flags as
  protection and the protection as flags.
\<close>

definition fork_range ::
    "('a vmm_state_scheme) vfs_env \<Rightarrow> ptr \<Rightarrow> mmap_range_t \<Rightarrow> ('a vmm_state_scheme) kstate \<Rightarrow>
     ('a vmm_state_scheme) kstate option" where
  "fork_range env new_pg rg k =
     (if mr_flags rg AND MAP_SHARED \<noteq> 0 then do {
        s \<leftarrow> map_pages new_pg (mr_phys_addr rg) (mr_virt_addr rg) (mr_length rg) (mr_prot rg) (disk k);
        s \<leftarrow> push_range new_pg rg s;
        Some (k\<lparr>disk := s\<rparr>)
      } else if mr_flags rg AND MAP_ANON \<noteq> 0 then do {
        let s = disk k;
        (adr, p, m) \<leftarrow> pcalloc (mr_length rg div PAGE_SIZE) (vm_pmm s, vm_mem s);
        s \<leftarrow> map_pages new_pg adr (mr_virt_addr rg) (mr_length rg) (mr_prot rg) (s\<lparr>vm_pmm := p, vm_mem := m\<rparr>);
        let s = s\<lparr>vm_mem := memcpy (vm_mem s) (direct adr) (direct (mr_phys_addr rg)) (mr_length rg)\<rparr>;
        s \<leftarrow> push_range new_pg (rg\<lparr>mr_phys_addr := adr\<rparr>) s;
        Some (k\<lparr>disk := s\<rparr>)
      } else do {
        sfile \<leftarrow> sfiles (disk k) (mr_file rg);
        (adr, k) \<leftarrow> vfs_mmap env (sf_file sfile) \<lparr>mm_pg = new_pg, mm_sfile = mr_file rg, mm_addr = mr_virt_addr rg,
           mm_size = mr_length rg, mm_offset = mr_offset rg, mm_prot = mr_flags rg, mm_flags = mr_prot rg\<rparr> k;
        s \<leftarrow> push_range new_pg (rg\<lparr>mr_phys_addr := adr\<rparr>) (disk k);
        Some (k\<lparr>disk := s\<rparr>)
      })"

definition vmm_fork_pagemap ::
    "('a vmm_state_scheme) vfs_env \<Rightarrow> ptr \<Rightarrow> ('a vmm_state_scheme) kstate \<Rightarrow>
     (ptr \<times> ('a vmm_state_scheme) kstate) option" where
  "vmm_fork_pagemap env pg k = do {
     (new_pg, s) \<leftarrow> vmm_create_new_pagemap (disk k);
     pm \<leftarrow> pagemaps s pg;
     k \<leftarrow> foldM (fork_range env new_pg) (ranges pm) (k\<lparr>disk := s\<rparr>);
     Some (new_pg, k)
   }"

definition destroy_range :: "ptr \<Rightarrow> mmap_range_t \<Rightarrow> 'a vmm_state_scheme \<Rightarrow> 'a vmm_state_scheme option" where
  "destroy_range pg rg s = do {
     s \<leftarrow> page_loop (mr_length rg) (\<lambda>j. vmm_unmap_page pg (mr_virt_addr rg + j)) s;
     if mr_flags rg AND MAP_ANON \<noteq> 0 then do {
       p \<leftarrow> pmm_free_pages (mr_phys_addr rg) (mr_length rg div PAGE_SIZE) (vm_pmm s);
       Some (s\<lparr>vm_pmm := p\<rparr>)
     } else Some s
   }"

definition vmm_destroy_pagemap :: "ptr \<Rightarrow> 'a vmm_state_scheme \<Rightarrow> 'a vmm_state_scheme option" where
  "vmm_destroy_pagemap pg s = do {
     pm \<leftarrow> pagemaps s pg;
     s \<leftarrow> foldM (destroy_range pg) (ranges pm) s;
     p \<leftarrow> pmm_free_pages (top_level pm) 1 (vm_pmm s);
     Some (s\<lparr>vm_pmm := p, pagemaps := (pagemaps s)(pg := None)\<rparr>)
   }"

definition vmm_mmap_range ::
    "ptr \<Rightarrow> u64 \<Rightarrow> u64 \<Rightarrow> u64 \<Rightarrow> u32 \<Rightarrow> u32 \<Rightarrow> 'a vmm_state_scheme \<Rightarrow> 'a vmm_state_scheme option" where
  "vmm_mmap_range pg phys virt len flags prot s = do {
     s \<leftarrow> map_pages pg phys virt len prot s;
     push_range pg \<lparr>mr_file = 0, mr_phys_addr = phys, mr_virt_addr = virt, mr_offset = 0, mr_length = len,
       mr_flags = flags OR MAP_ANON, mr_prot = prot\<rparr> s
   }"

definition vmm_range_to_addr :: "ptr \<Rightarrow> u64 \<Rightarrow> 'a vmm_state_scheme \<Rightarrow> u64 option" where
  "vmm_range_to_addr pg virt s = do {
     pm \<leftarrow> pagemaps s pg;
     Some (case find (\<lambda>r. mr_virt_addr r = virt) (ranges pm) of None \<Rightarrow> 0 | Some r \<Rightarrow> mr_phys_addr r)
   }"

text \<open>The calls below pass the physical address of the top level, so they go through the identity window.\<close>

definition init_vmm :: "'a vmm_state_scheme \<Rightarrow> 'a vmm_state_scheme option" where
  "init_vmm s = do {
     (pml4, p, m) \<leftarrow> pcalloc 1 (vm_pmm s, vm_mem s);
     pm \<leftarrow> pagemaps s kernel_pagemap;
     let s = s\<lparr>vm_pmm := p, vm_mem := m, pagemaps := (pagemaps s)(kernel_pagemap \<mapsto> pm\<lparr>top_level := pml4\<rparr>)\<rparr>;
     s \<leftarrow> foldM (\<lambda>i s. map_option snd (vmm_get_next_level pml4 (of_nat i) 7 s)) [256..<512] s;
     s \<leftarrow> foldM (\<lambda>n s. do {
            s \<leftarrow> vmm_map_page kernel_pagemap (of_nat n * PAGE_SIZE) (of_nat n * PAGE_SIZE) 3 s;
            vmm_map_page kernel_pagemap (of_nat n * PAGE_SIZE) (of_nat n * PAGE_SIZE + PHYS_MEM_OFFSET) 3 s
          }) [1..<0x100000] s;
     s \<leftarrow> foldM (\<lambda>n. vmm_map_page kernel_pagemap (of_nat n * PAGE_SIZE) (of_nat n * PAGE_SIZE + KERNEL_MEM_OFFSET) 7)
            [0..<0x80000] s;
     vmm_load_pagemap kernel_pagemap s
   }"


section \<open>Page table entries\<close>

definition page_ok :: "u64 \<Rightarrow> bool" where
  "page_ok a \<longleftrightarrow> unat a mod 4096 = 0 \<and> unat a < 2 ^ 47"

definition pt_entry :: "mem \<Rightarrow> u64 \<Rightarrow> u64 \<Rightarrow> u64" where
  "pt_entry m t i = load64 m (direct (t + PHYS_MEM_OFFSET + i * 8))"

lemma direct_slot:
  assumes "page_ok t" and "i < 512"
  shows "unat (direct (t + PHYS_MEM_OFFSET + i * 8)) = 2 ^ 64 - 2 ^ 47 + unat t + 8 * unat i"
    and "direct (t + PHYS_MEM_OFFSET + i * 8) = t + PHYS_MEM_OFFSET + i * 8"
proof -
  have i: "unat i < 512" using assms(2) by (simp add: word_less_nat_alt)
  have t: "unat t < 2 ^ 47" "unat t mod 4096 = 0" using assms(1) by (simp_all add: page_ok_def)
  obtain k where "unat t = 4096 * k" "k < 2 ^ 35" using t by (auto simp: mod_eq_0_iff_dvd elim!: dvdE)
  then have le: "unat t + 4096 \<le> 2 ^ 47" by simp
  have i8: "unat (i * 8) = 8 * unat i" using i by (subst unat_mult_small) auto
  have tp: "unat (t + PHYS_MEM_OFFSET) = unat t + (2 ^ 64 - 2 ^ 47)" using t by (subst unat_add_small) auto
  have sum: "unat (t + PHYS_MEM_OFFSET + i * 8) = 2 ^ 64 - 2 ^ 47 + unat t + 8 * unat i"
    using le i i8 tp by (subst unat_add_small) auto
  then show "direct (t + PHYS_MEM_OFFSET + i * 8) = t + PHYS_MEM_OFFSET + i * 8"
    by (simp add: direct_def word_less_nat_alt)
  then show "unat (direct (t + PHYS_MEM_OFFSET + i * 8)) = 2 ^ 64 - 2 ^ 47 + unat t + 8 * unat i"
    using sum by simp
qed

lemma slots_disjoint:
  assumes "page_ok t" and "i < 512" and "page_ok u" and "j < 512" and "t \<noteq> u \<or> i \<noteq> j"
  shows "ranges_disjoint (direct (t + PHYS_MEM_OFFSET + i * 8)) 8 (direct (u + PHYS_MEM_OFFSET + j * 8)) 8"
proof -
  have ij: "unat i < 512" "unat j < 512" using assms by (simp_all add: word_less_nat_alt)
  obtain k l where kl: "unat t = 4096 * k" "unat u = 4096 * l" "k < 2 ^ 35" "l < 2 ^ 35"
    using assms(1,3) by (auto simp: page_ok_def mod_eq_0_iff_dvd elim!: dvdE)
  have "512 * k + unat i \<noteq> 512 * l + unat j"
  proof
    assume eq: "512 * k + unat i = 512 * l + unat j"
    have "k = (512 * k + unat i) div 512" "l = (512 * l + unat j) div 512" using ij by auto
    then have "k = l" using eq by metis
    with eq have "unat i = unat j" by simp
    with \<open>k = l\<close> assms(5) kl(1,2) show False by (simp add: word_unat_eq_iff)
  qed
  then consider "8 * (512 * k + unat i) + 8 \<le> 8 * (512 * l + unat j)"
    | "8 * (512 * l + unat j) + 8 \<le> 8 * (512 * k + unat i)"
    by (cases "512 * k + unat i < 512 * l + unat j") (simp_all add: not_less)
  then show ?thesis
  proof cases
    case 1
    then show ?thesis
      using kl ij by (intro ranges_disjoint_below) (simp_all add: direct_slot(1) [OF assms(1,2)] direct_slot(1) [OF assms(3,4)])
  next
    case 2
    then show ?thesis
      using kl ij by (intro ranges_disjoint_sym [OF ranges_disjoint_below])
        (simp_all add: direct_slot(1) [OF assms(1,2)] direct_slot(1) [OF assms(3,4)])
  qed
qed

lemma pt_entry_store:
  assumes "page_ok t" and "i < 512" and "page_ok u" and "j < 512"
  shows "pt_entry (store64 m (direct (t + PHYS_MEM_OFFSET + i * 8)) v) u j =
    (if u = t \<and> j = i then v else pt_entry m u j)"
  using slots_disjoint [OF assms] by (auto simp: pt_entry_def load64_store64_other)

lemma load64_zero: "(\<And>i. i < 8 \<Longrightarrow> m (p + of_nat i) = 0) \<Longrightarrow> load64 m p = 0"
  using load64_cong [of m p "\<lambda>_. 0"] get_bytes_cong [of 8 "\<lambda>_. 0" p "\<lambda>_. 0" 0]
  by (simp add: load64_def numeral_eq_Suc)

lemma pt_entry_memset:
  assumes "page_ok n" and "page_ok u" and "j < 512"
  shows "pt_entry (memset m (n + PHYS_MEM_OFFSET) 0 PAGE_SIZE) u j = (if u = n then 0 else pt_entry m u j)"
proof -
  have j: "unat j < 512" using assms by (simp add: word_less_nat_alt)
  obtain k l where kl: "unat n = 4096 * k" "unat u = 4096 * l" "k < 2 ^ 35" "l < 2 ^ 35"
    using assms(1,2) by (auto simp: page_ok_def mod_eq_0_iff_dvd elim!: dvdE)
  have np: "unat (n + PHYS_MEM_OFFSET) = unat n + (2 ^ 64 - 2 ^ 47)"
    using assms(1) by (subst unat_add_small) (auto simp: page_ok_def)
  have at: "unat (direct (u + PHYS_MEM_OFFSET + j * 8) + of_nat b) =
      2 ^ 64 - 2 ^ 47 + unat u + 8 * unat j + b" if "b < 8" for b
    using that kl j unat_add_of_nat [of "direct (u + PHYS_MEM_OFFSET + j * 8)" b]
    by (simp add: direct_slot(1) [OF assms(2,3)])
  have inside: "(direct (u + PHYS_MEM_OFFSET + j * 8) + of_nat b) - (n + PHYS_MEM_OFFSET) < PAGE_SIZE \<longleftrightarrow> u = n"
    if b: "b < 8" for b
  proof -
    let ?c = "8 * unat j + b"
    have c: "?c < 4096" using j b by simp
    have d: "unat ((direct (u + PHYS_MEM_OFFSET + j * 8) + of_nat b) - (n + PHYS_MEM_OFFSET)) =
      (if 4096 * k \<le> 4096 * l + ?c then 4096 * l + ?c - 4096 * k else 2 ^ 64 + 4096 * l + ?c - 4096 * k)"
      unfolding unat_sub_if' at [OF b] np kl by (simp add: add.assoc)
    have kl': "u = n \<longleftrightarrow> k = l" using kl by (auto simp: word_unat_eq_iff)
    have p: "unat (0x1000 :: u64) = 4096" by simp
    have "(if 4096 * k \<le> 4096 * l + ?c then 4096 * l + ?c - 4096 * k else 2 ^ 64 + 4096 * l + ?c - 4096 * k) < 4096
      \<longleftrightarrow> k = l"
    proof (cases k l rule: linorder_cases)
      case less
      then have "4096 * k + 4096 \<le> 4096 * l" by linarith
      with less show ?thesis by simp
    next
      case equal
      with c show ?thesis by simp
    next
      case greater
      then have "4096 * l + 4096 \<le> 4096 * k" by linarith
      with greater c kl(3) show ?thesis by simp
    qed
    then show ?thesis unfolding word_less_nat_alt d p kl' .
  qed
  have byte: "memset m (n + PHYS_MEM_OFFSET) 0 PAGE_SIZE (direct (u + PHYS_MEM_OFFSET + j * 8) + of_nat b) =
      (if u = n then 0 else m (direct (u + PHYS_MEM_OFFSET + j * 8) + of_nat b))" if "b < 8" for b
    by (simp only: memset_apply inside [OF that])
  show ?thesis
  proof (cases "u = n")
    case True
    have "pt_entry (memset m (n + PHYS_MEM_OFFSET) 0 PAGE_SIZE) u j = 0"
      unfolding pt_entry_def by (rule load64_zero, rule trans [OF byte], assumption, rule if_P [OF True])
    then show ?thesis by (rule trans [OF _ if_P [OF True, symmetric]])
  next
    case False
    have "pt_entry (memset m (n + PHYS_MEM_OFFSET) 0 PAGE_SIZE) u j = pt_entry m u j"
      unfolding pt_entry_def by (rule load64_cong, rule trans [OF byte], assumption, rule if_not_P [OF False])
    then show ?thesis by (rule trans [OF _ if_not_P [OF False, symmetric]])
  qed
qed


section \<open>The tree of tables\<close>

text \<open>The table that a path of indices leads to, and the entry of a virtual address.\<close>

definition next_table :: "mem \<Rightarrow> u64 \<Rightarrow> u64 \<Rightarrow> u64 option" where
  "next_table m t i = (let e = pt_entry m t i in if e AND 1 \<noteq> 0 then Some (e AND NOT 0xfff) else None)"

fun table_at :: "mem \<Rightarrow> u64 \<Rightarrow> u64 list \<Rightarrow> u64 option" where
  "table_at m t [] = Some t"
| "table_at m t (i # q) = (case next_table m t i of None \<Rightarrow> None | Some t' \<Rightarrow> table_at m t' q)"

definition table_path :: "u64 list \<Rightarrow> bool" where
  "table_path q \<longleftrightarrow> length q \<le> 3 \<and> (\<forall>i\<in>set q. i < 512)"

definition virt_path :: "u64 \<Rightarrow> u64 list" where
  "virt_path virt = [pml_entry 39 virt, pml_entry 30 virt, pml_entry 21 virt]"

definition leaf :: "mem \<Rightarrow> u64 \<Rightarrow> u64 \<Rightarrow> u64 option" where
  "leaf m pml4 virt = (case table_at m pml4 (virt_path virt) of None \<Rightarrow> None
     | Some t \<Rightarrow> let e = pt_entry m t (pml_entry 12 virt) in if e AND 1 \<noteq> 0 then Some e else None)"

lemma table_at_snoc:
  "table_at m t (q @ [i]) = (case table_at m t q of None \<Rightarrow> None | Some t' \<Rightarrow> next_table m t' i)"
  by (induction q arbitrary: t) (auto split: option.splits)

lemma bit_ones:
  "bit (0x1ff :: int) k \<longleftrightarrow> k < 9" "bit (0xfff :: int) k \<longleftrightarrow> k < 12"
  "bit (0x1ff :: u64) k \<longleftrightarrow> k < 9" "bit (0xfff :: u64) k \<longleftrightarrow> k < 12"
  using bit_mask_iff [of 9 k, where 'a = int] bit_mask_iff [of 12 k, where 'a = int]
    bit_mask_iff [of 9 k, where 'a = "64 word"] bit_mask_iff [of 12 k, where 'a = "64 word"]
  by (auto simp: mask_eq_exp_minus_1)

lemma pml_entry_bits: "pml_entry n virt = take_bit 9 (drop_bit n virt)"
  by (intro bit_word_eqI) (auto simp: pml_entry_def bit_simps bit_ones dest: bit_imp_le_length)

lemma pml_entry_less [simp]: "pml_entry n virt < 512"
  unfolding pml_entry_bits
  by (simp add: word_less_nat_alt unsigned_take_bit_eq take_bit_eq_mod unat_mod)

lemma virt_path_table [simp]: "table_path (virt_path virt)"
  by (simp add: table_path_def virt_path_def)

lemma length_virt_path [simp]: "length (virt_path virt) = 3"
  by (simp add: virt_path_def)

text \<open>
  What the walk relies on: every table is a page of the low half of physical memory that the
  allocator counts as used, no two paths lead to the same table, page 0 is never handed out.
\<close>

definition pt_ok :: "mem \<Rightarrow> pmm_state \<Rightarrow> u64 \<Rightarrow> bool" where
  "pt_ok m p pml4 \<longleftrightarrow> lock_free (pmm_lock p) \<and> 0 \<in> used p \<and> unat (highest_page p) \<le> 2 ^ 47 \<and>
     (\<forall>q a. table_path q \<longrightarrow> table_at m pml4 q = Some a \<longrightarrow> page_ok a \<and> a div PAGE_SIZE \<in> used p) \<and>
     (\<forall>q r a. table_path q \<longrightarrow> table_path r \<longrightarrow> table_at m pml4 q = Some a \<longrightarrow> table_at m pml4 r = Some a \<longrightarrow> q = r)"

lemma pt_okD:
  assumes "pt_ok m p pml4"
  shows "lock_free (pmm_lock p)" and "0 \<in> used p" and "unat (highest_page p) \<le> 2 ^ 47"
    and "table_path q \<Longrightarrow> table_at m pml4 q = Some a \<Longrightarrow> page_ok a"
    and "table_path q \<Longrightarrow> table_at m pml4 q = Some a \<Longrightarrow> a div PAGE_SIZE \<in> used p"
    and "table_path q \<Longrightarrow> table_path r \<Longrightarrow> table_at m pml4 q = Some a \<Longrightarrow> table_at m pml4 r = Some a \<Longrightarrow> q = r"
  using assms unfolding pt_ok_def by blast+

definition free_count :: "pmm_state \<Rightarrow> nat" where
  "free_count p = card {q. q < highest_page p div PAGE_SIZE \<and> q \<notin> used p}"

lemma entry_table:
  assumes "page_ok n" and "fl < 0x1000"
  shows "(n OR fl) AND NOT 0xfff = n"
proof -
  have "take_bit 12 n = 0" using assms(1) by (simp add: page_ok_def word_unat_eq_iff unsigned_take_bit_eq take_bit_eq_mod unat_mod)
  then have n: "\<not> bit n k" if "k < 12" for k using that by (metis bit_0_eq bit_take_bit_iff bot_apply bot_bool_def)
  have "take_bit 12 fl = fl"
    using assms(2) by (simp add: word_unat_eq_iff unsigned_take_bit_eq take_bit_eq_mod unat_mod word_less_nat_alt)
  then have f: "bit fl k \<Longrightarrow> k < 12" for k by (metis bit_take_bit_iff)
  show ?thesis by (intro bit_word_eqI) (use n f in \<open>auto simp: bit_simps bit_ones\<close>)
qed

lemma present_7: "(n OR 7 :: u64) AND 1 \<noteq> 0"
proof -
  have "bit ((n OR 7 :: u64) AND 1) 0" by (simp add: bit_simps)
  then show ?thesis by (metis bit_0_eq bot_apply bot_bool_def)
qed

lemma pcalloc_run:
  assumes "lock_free (pmm_lock p)" and "0 \<in> used p" and "unat (highest_page p) \<le> 2 ^ 47" and "0 < free_count p"
  shows "\<exists>n p'. pcalloc 1 (p, m) = Some (n, p', memset m (n + PHYS_MEM_OFFSET) 0 PAGE_SIZE) \<and>
    page_ok n \<and> n div PAGE_SIZE \<notin> used p \<and> used p' = insert (n div PAGE_SIZE) (used p) \<and>
    pmm_lock p' = pmm_lock p \<and> highest_page p' = highest_page p \<and> free_count p' = free_count p - 1"
proof -
  from assms(4) have "\<exists>q<highest_page p div PAGE_SIZE. q \<notin> used p"
    by (auto simp: free_count_def card_gt_0_iff)
  then obtain q where q: "first_free p q" using first_free_exists by blast
  then have qd: "q * PAGE_SIZE div PAGE_SIZE = q" and lt: "q < highest_page p div PAGE_SIZE" and fresh: "q \<notin> used p"
    by (auto simp: first_free_def)
  obtain p' where p': "pmalloc 1 p = Some (q * PAGE_SIZE, p')" "used p' = insert q (used p)"
    "pmm_lock p' = pmm_lock p" "highest_page p' = highest_page p"
    using pmalloc_run [OF assms(1) _ q, of 1] qd by auto
  have "q \<noteq> 0" using fresh assms(2) by auto
  then have nz: "q * PAGE_SIZE \<noteq> 0" using qd by (metis div_0)
  have lt': "unat q < unat (highest_page p) div 4096" using lt by (simp add: word_less_nat_alt unat_div)
  then have uq: "unat q * 4096 < 2 ^ 47" using assms(3) div_times_less_eq_dividend [of "unat (highest_page p)" 4096] by linarith
  then have "unat (q * PAGE_SIZE) = unat q * 4096" by (subst unat_mult_small) auto
  then have ok: "page_ok (q * PAGE_SIZE)" using uq by (simp add: page_ok_def)
  have "{r. r < highest_page p' div PAGE_SIZE \<and> r \<notin> used p'} = {r. r < highest_page p div PAGE_SIZE \<and> r \<notin> used p} - {q}"
    using p' by auto
  then have "free_count p' = free_count p - 1"
    using lt fresh by (simp add: free_count_def)
  then show ?thesis using p' nz ok fresh qd by (intro exI [of _ "q * PAGE_SIZE"] exI [of _ p']) (simp add: pcalloc_def)
qed

lemma table_path_snoc: "table_path (q @ [i]) \<longleftrightarrow> table_path q \<and> length q < 3 \<and> i < 512"
  by (auto simp: table_path_def)

text \<open>Linking a fresh zeroed page under a missing entry adds exactly that table.\<close>

definition link_table :: "mem \<Rightarrow> u64 \<Rightarrow> u64 \<Rightarrow> u64 \<Rightarrow> mem" where
  "link_table m a i n = store64 (memset m (n + PHYS_MEM_OFFSET) 0 PAGE_SIZE) (direct (a + PHYS_MEM_OFFSET + i * 8)) (n OR 7)"

lemma pt_entry_link:
  assumes "page_ok a" and "i < 512" and "page_ok n" and "page_ok t" and "j < 512"
  shows "pt_entry (link_table m a i n) t j =
    (if t = a \<and> j = i then n OR 7 else if t = n then 0 else pt_entry m t j)"
  unfolding link_table_def pt_entry_store [OF assms(1,2,4,5)] pt_entry_memset [OF assms(3-5)] ..

lemma next_table_link:
  assumes "page_ok a" and "i < 512" and "page_ok n" and "page_ok t" and "j < 512"
  shows "next_table (link_table m a i n) t j =
    (if t = a \<and> j = i then Some n else if t = n then None else next_table m t j)"
  unfolding next_table_def pt_entry_link [OF assms] Let_def
  using present_7 [of n] entry_table [OF assms(3), of 7] by simp

lemma table_at_link:
  assumes ok: "pt_ok m p pml4" and q: "table_path (q @ [i])" and a: "table_at m pml4 q = Some a"
    and absent: "next_table m a i = None" and n: "page_ok n" "n div PAGE_SIZE \<notin> used p" and r: "table_path r"
  shows "table_at (link_table m a i n) pml4 r = (if r = q @ [i] then Some n else table_at m pml4 r)"
  using r
proof (induction r rule: rev_induct)
  case Nil
  then show ?case by simp
next
  case (snoc j r)
  from q have q': "table_path q" "i < 512" by (simp_all add: table_path_snoc)
  from snoc.prems have r': "table_path r" "j < 512" by (simp_all add: table_path_snoc)
  have pa: "page_ok a" using pt_okD(4) [OF ok q'(1) a] .
  have gone: "table_at m pml4 (q @ [i]) = None" using a absent by (simp add: table_at_snoc)
  note IH = snoc.IH [OF r'(1)]
  show ?case
  proof (cases "r = q @ [i]")
    case True
    have "n \<noteq> a" using n(2) pt_okD(5) [OF ok q'(1) a] by auto
    then have "next_table (link_table m a i n) n j = None" by (simp add: next_table_link [OF pa q'(2) n(1) n(1) r'(2)])
    moreover have "table_at (link_table m a i n) pml4 r = Some n" "table_at m pml4 r = None" "r @ [j] \<noteq> q @ [i]"
      using IH True gone by simp_all
    ultimately show ?thesis by (simp add: table_at_snoc)
  next
    case False
    show ?thesis
    proof (cases "table_at m pml4 r")
      case None
      then show ?thesis using IH False a by (auto simp: table_at_snoc)
    next
      case (Some t)
      have t: "page_ok t" "t \<noteq> n" using pt_okD(4,5) [OF ok r'(1) Some] n(2) by auto
      have "t = a \<longleftrightarrow> r = q" using pt_okD(6) [OF ok r'(1) q'(1) Some] Some a by auto
      then show ?thesis
        using IH False Some t next_table_link [OF pa q'(2) n(1) t(1) r'(2)] by (auto simp: table_at_snoc)
    qed
  qed
qed

lemma pt_ok_link:
  assumes ok: "pt_ok m p pml4" and q: "table_path (q @ [i])" and a: "table_at m pml4 q = Some a"
    and absent: "next_table m a i = None" and n: "page_ok n" "n div PAGE_SIZE \<notin> used p"
    and p': "used p' = insert (n div PAGE_SIZE) (used p)" "pmm_lock p' = pmm_lock p" "highest_page p' = highest_page p"
  shows "pt_ok (link_table m a i n) p' pml4"
proof -
  note link = table_at_link [OF ok q a absent n]
  have fresh: "table_path r \<Longrightarrow> table_at m pml4 r \<noteq> Some n" for r
    using pt_okD(5) [OF ok, of r n] n(2) by auto
  show ?thesis
    unfolding pt_ok_def
  proof (intro conjI allI impI)
    show "lock_free (pmm_lock p')" "0 \<in> used p'" "unat (highest_page p') \<le> 2 ^ 47"
      using pt_okD(1-3) [OF ok] p' by auto
  next
    fix r b
    assume r: "table_path r" "table_at (link_table m a i n) pml4 r = Some b"
    show "page_ok b" "b div PAGE_SIZE \<in> used p'"
      using r link [OF r(1)] n(1) p'(1) pt_okD(4,5) [OF ok r(1), of b] by (auto split: if_splits)
  next
    fix r r' b
    assume r: "table_path r" "table_path r'" "table_at (link_table m a i n) pml4 r = Some b"
      "table_at (link_table m a i n) pml4 r' = Some b"
    show "r = r'"
      using r link [OF r(1)] link [OF r(2)] fresh [OF r(1)] fresh [OF r(2)] pt_okD(6) [OF ok r(1,2), of b]
      by (auto split: if_splits)
  qed
qed

lemma leaf_link:
  assumes ok: "pt_ok m p pml4" and q: "table_path (q @ [i])" and a: "table_at m pml4 q = Some a"
    and absent: "next_table m a i = None" and n: "page_ok n" "n div PAGE_SIZE \<notin> used p"
  shows "leaf (link_table m a i n) pml4 virt = leaf m pml4 virt"
proof -
  note link = table_at_link [OF ok q a absent n virt_path_table]
  from q have q': "table_path q" "i < 512" "length q < 3" by (simp_all add: table_path_snoc)
  have pa: "page_ok a" using pt_okD(4) [OF ok q'(1) a] .
  have na: "n \<noteq> a" using n(2) pt_okD(5) [OF ok q'(1) a] by auto
  have gone: "table_at m pml4 (q @ [i]) = None" using a absent by (simp add: table_at_snoc)
  show ?thesis
  proof (cases "virt_path virt = q @ [i]")
    case True
    then show ?thesis using link [of virt] gone na pt_entry_link [OF pa q'(2) n(1) n(1) pml_entry_less]
      by (simp add: leaf_def)
  next
    case False
    show ?thesis
    proof (cases "table_at m pml4 (virt_path virt)")
      case None
      then show ?thesis using link [of virt] False by (simp add: leaf_def)
    next
      case (Some t)
      have t: "page_ok t" "t \<noteq> n" using pt_okD(4,5) [OF ok virt_path_table Some] n(2) by auto
      have "t \<noteq> a" using pt_okD(6) [OF ok virt_path_table q'(1) Some] a q'(3) length_virt_path [of virt] by auto
      then show ?thesis using link [of virt] False Some t pt_entry_link [OF pa q'(2) n(1) t(1) pml_entry_less]
        by (simp add: leaf_def)
    qed
  qed
qed

text \<open>Writing an entry of a lowest table changes the entry of one virtual page.\<close>

lemma table_at_leaf_store:
  assumes ok: "pt_ok m p pml4" and t: "table_at m pml4 q = Some t" and q: "table_path q" "length q = 3"
    and i: "i < 512" and r: "table_path r"
  shows "table_at (store64 m (direct (t + PHYS_MEM_OFFSET + i * 8)) v) pml4 r = table_at m pml4 r"
  using r
proof (induction r rule: rev_induct)
  case Nil
  then show ?case by simp
next
  case (snoc j r)
  from snoc.prems have r': "table_path r" "j < 512" "length r < 3" by (simp_all add: table_path_snoc)
  note IH = snoc.IH [OF r'(1)]
  show ?case
  proof (cases "table_at m pml4 r")
    case None
    then show ?thesis using IH by (simp add: table_at_snoc)
  next
    case (Some u)
    have "page_ok t" "page_ok u" using pt_okD(4) [OF ok] t Some q r' by blast+
    moreover have "u \<noteq> t" using pt_okD(6) [OF ok r'(1) q(1) Some] t q(2) r'(3) by auto
    ultimately have "next_table (store64 m (direct (t + PHYS_MEM_OFFSET + i * 8)) v) u j = next_table m u j"
      using pt_entry_store [OF _ i _ r'(2)] by (simp add: next_table_def)
    then show ?thesis using IH Some by (simp add: table_at_snoc)
  qed
qed

lemma pt_ok_cong:
  assumes "pt_ok m p pml4" and "\<And>r. table_path r \<Longrightarrow> table_at m' pml4 r = table_at m pml4 r"
  shows "pt_ok m' p pml4"
  using assms unfolding pt_ok_def by simp

lemma pt_ok_leaf_store:
  assumes ok: "pt_ok m p pml4" and t: "table_at m pml4 q = Some t" and q: "table_path q" "length q = 3" and i: "i < 512"
  shows "pt_ok (store64 m (direct (t + PHYS_MEM_OFFSET + i * 8)) v) p pml4"
  by (rule pt_ok_cong [OF ok table_at_leaf_store [OF ok t q i]])

lemma leaf_leaf_store:
  assumes ok: "pt_ok m p pml4" and t: "table_at m pml4 (virt_path virt) = Some t"
  shows "leaf (store64 m (direct (t + PHYS_MEM_OFFSET + pml_entry 12 virt * 8)) v) pml4 virt' =
    (if virt_path virt' = virt_path virt \<and> pml_entry 12 virt' = pml_entry 12 virt
     then (if v AND 1 \<noteq> 0 then Some v else None) else leaf m pml4 virt')"
proof -
  define m' where "m' = store64 m (direct (t + PHYS_MEM_OFFSET + pml_entry 12 virt * 8)) v"
  have same: "table_at m' pml4 (virt_path virt') = table_at m pml4 (virt_path virt')"
    unfolding m'_def using table_at_leaf_store [OF ok t virt_path_table length_virt_path pml_entry_less virt_path_table] .
  have pt: "page_ok t" using pt_okD(4) [OF ok virt_path_table t] .
  have entry: "pt_entry m' u (pml_entry 12 virt') =
      (if u = t \<and> pml_entry 12 virt' = pml_entry 12 virt then v else pt_entry m u (pml_entry 12 virt'))"
    if "page_ok u" for u
    unfolding m'_def using pt_entry_store [OF pt pml_entry_less that pml_entry_less] .
  show ?thesis
    unfolding m'_def [symmetric]
  proof (cases "table_at m pml4 (virt_path virt')")
    case None
    then show "leaf m' pml4 virt' = (if virt_path virt' = virt_path virt \<and> pml_entry 12 virt' = pml_entry 12 virt
     then (if v AND 1 \<noteq> 0 then Some v else None) else leaf m pml4 virt')"
      using same t by (auto simp: leaf_def)
  next
    case (Some u)
    have "u = t \<longleftrightarrow> virt_path virt' = virt_path virt"
    proof
      assume "u = t"
      then show "virt_path virt' = virt_path virt"
        using pt_okD(6) [OF ok virt_path_table virt_path_table Some] t by blast
    next
      assume "virt_path virt' = virt_path virt"
      then show "u = t" using Some t by simp
    qed
    then show "leaf m' pml4 virt' = (if virt_path virt' = virt_path virt \<and> pml_entry 12 virt' = pml_entry 12 virt
     then (if v AND 1 \<noteq> 0 then Some v else None) else leaf m pml4 virt')"
      using same Some entry [OF pt_okD(4) [OF ok virt_path_table Some]] by (auto simp: leaf_def Let_def)
  qed
qed

text \<open>The bits of an address that select its entry.\<close>

definition virt_page :: "u64 \<Rightarrow> u64" where
  "virt_page virt = take_bit 36 (drop_bit 12 virt)"

lemma same_entries_iff:
  "virt_path v = virt_path w \<and> pml_entry 12 v = pml_entry 12 w \<longleftrightarrow> virt_page v = virt_page w"
proof
  assume eq: "virt_path v = virt_path w \<and> pml_entry 12 v = pml_entry 12 w"
  have bits: "bit v k = bit w k" if "k \<in> {n..<n + 9}" "pml_entry n v = pml_entry n w" for n k
  proof -
    have "bit (pml_entry n v) (k - n) = bit (pml_entry n w) (k - n)" using that(2) by simp
    moreover have "k - n < 9" "n + (k - n) = k" using that(1) by auto
    ultimately show ?thesis by (simp add: pml_entry_bits bit_simps)
  qed
  have "bit v k = bit w k" if "12 \<le> k" "k < 48" for k
  proof -
    have "k \<in> {12..<12 + 9} \<or> k \<in> {21..<21 + 9} \<or> k \<in> {30..<30 + 9} \<or> k \<in> {39..<39 + 9}"
      unfolding atLeastLessThan_iff using that by arith
    moreover have "pml_entry 12 v = pml_entry 12 w" "pml_entry 21 v = pml_entry 21 w"
      "pml_entry 30 v = pml_entry 30 w" "pml_entry 39 v = pml_entry 39 w"
      using eq by (simp_all add: virt_path_def)
    ultimately show ?thesis using bits by blast
  qed
  then show "virt_page v = virt_page w"
    by (intro bit_word_eqI) (auto simp: virt_page_def bit_simps)
next
  assume eq: "virt_page v = virt_page w"
  have bits: "bit v k = bit w k" if "12 \<le> k" "k < 48" for k
  proof -
    have "bit (virt_page v) (k - 12) = bit (virt_page w) (k - 12)" using eq by simp
    moreover have "k - 12 < 36" "12 + (k - 12) = k" using that by auto
    ultimately show ?thesis by (simp add: virt_page_def bit_simps)
  qed
  have "pml_entry n v = pml_entry n w" if "12 \<le> n" "n \<le> 39" for n
    using that bits by (intro bit_word_eqI) (auto simp: pml_entry_bits bit_simps)
  then show "virt_path v = virt_path w \<and> pml_entry 12 v = pml_entry 12 w"
    by (simp add: virt_path_def)
qed


section \<open>The operations on the tree\<close>

text \<open>
  A step that may add tables: the invariant holds again, no entry has changed, at most this
  many pages were taken.
\<close>

definition grows :: "u64 \<Rightarrow> nat \<Rightarrow> 'a vmm_state_scheme \<Rightarrow> 'a vmm_state_scheme \<Rightarrow> bool" where
  "grows pml4 k s s' \<longleftrightarrow> (\<exists>m p. s' = s\<lparr>vm_mem := m, vm_pmm := p\<rparr> \<and> pt_ok m p pml4 \<and>
     leaf m pml4 = leaf (vm_mem s) pml4 \<and> free_count (vm_pmm s) \<le> free_count p + k)"

abbreviation vm_ok :: "u64 \<Rightarrow> 'a vmm_state_scheme \<Rightarrow> bool" where
  "vm_ok pml4 s \<equiv> pt_ok (vm_mem s) (vm_pmm s) pml4"

lemma grows_trans: "grows pml4 j s s1 \<Longrightarrow> grows pml4 k s1 s2 \<Longrightarrow> grows pml4 (j + k) s s2"
  by (fastforce simp: grows_def)

lemma growsD: "grows pml4 k s s' \<Longrightarrow> vm_ok pml4 s' \<and> leaf (vm_mem s') pml4 = leaf (vm_mem s) pml4 \<and>
    free_count (vm_pmm s) \<le> free_count (vm_pmm s') + k \<and> pagemaps s' = pagemaps s \<and> cr3 s' = cr3 s"
  by (auto simp: grows_def)

lemma vmm_get_next_level_run:
  assumes ok: "vm_ok pml4 s" and q: "table_path (q @ [i])" and a: "table_at (vm_mem s) pml4 q = Some a"
    and free: "0 < free_count (vm_pmm s)"
  shows "\<exists>b s'. vmm_get_next_level (a + PHYS_MEM_OFFSET) i flags s = Some (b + PHYS_MEM_OFFSET, s') \<and>
    grows pml4 1 s s' \<and> table_at (vm_mem s') pml4 (q @ [i]) = Some b"
proof (cases "next_table (vm_mem s) a i")
  case None
  obtain n p' where new: "pcalloc 1 (vm_pmm s, vm_mem s) = Some (n, p', memset (vm_mem s) (n + PHYS_MEM_OFFSET) 0 PAGE_SIZE)"
    and n: "page_ok n" "n div PAGE_SIZE \<notin> used (vm_pmm s)" and p': "used p' = insert (n div PAGE_SIZE) (used (vm_pmm s))"
    "pmm_lock p' = pmm_lock (vm_pmm s)" "highest_page p' = highest_page (vm_pmm s)" "free_count p' = free_count (vm_pmm s) - 1"
    using pcalloc_run [OF pt_okD(1-3) [OF ok] free] by blast
  let ?s' = "s\<lparr>vm_mem := link_table (vm_mem s) a i n, vm_pmm := p'\<rparr>"
  have "vmm_get_next_level (a + PHYS_MEM_OFFSET) i flags s = Some (n + PHYS_MEM_OFFSET, ?s')"
    using None new by (auto simp: vmm_get_next_level_def next_table_def pt_entry_def link_table_def Let_def split: if_splits)
  moreover have "grows pml4 1 s ?s'"
    using pt_ok_link [OF ok q a None n p'(1-3)] leaf_link [OF ok q a None n] p'(4) unfolding grows_def
    by (intro exI [of _ "link_table (vm_mem s) a i n"] exI [of _ p']) auto
  moreover have "table_at (vm_mem ?s') pml4 (q @ [i]) = Some n"
    using table_at_link [OF ok q a None n q] by simp
  ultimately show ?thesis by blast
next
  case (Some b)
  then have "vmm_get_next_level (a + PHYS_MEM_OFFSET) i flags s = Some (b + PHYS_MEM_OFFSET, s)"
    by (auto simp: vmm_get_next_level_def next_table_def pt_entry_def Let_def split: if_splits)
  moreover have "grows pml4 1 s s" using ok unfolding grows_def
    by (intro exI [of _ "vm_mem s"] exI [of _ "vm_pmm s"]) simp
  ultimately show ?thesis using Some a by (auto simp: table_at_snoc)
qed

lemma vmm_walk_run:
  assumes ok: "vm_ok pml4 s" and free: "3 \<le> free_count (vm_pmm s)"
  shows "\<exists>t s'. vmm_walk pml4 virt flags s = Some (t + PHYS_MEM_OFFSET, s') \<and> grows pml4 3 s s' \<and>
    table_at (vm_mem s') pml4 (virt_path virt) = Some t"
proof -
  let ?i = "pml_entry 39 virt" and ?j = "pml_entry 30 virt" and ?k = "pml_entry 21 virt"
  have paths: "table_path ([] @ [?i])" "table_path ([?i] @ [?j])" "table_path ([?i, ?j] @ [?k])"
    by (simp_all add: table_path_def)
  have start: "table_at (vm_mem s) pml4 [] = Some pml4" "0 < free_count (vm_pmm s)" using free by simp_all
  obtain b s1 where 1: "vmm_get_next_level (pml4 + PHYS_MEM_OFFSET) ?i flags s = Some (b + PHYS_MEM_OFFSET, s1)"
    "grows pml4 1 s s1" "table_at (vm_mem s1) pml4 ([] @ [?i]) = Some b"
    using vmm_get_next_level_run [OF ok paths(1) start] by blast
  have g1: "vm_ok pml4 s1" "0 < free_count (vm_pmm s1)" and t1: "table_at (vm_mem s1) pml4 [?i] = Some b"
    using growsD [OF 1(2)] free 1(3) by simp_all
  obtain c s2 where 2: "vmm_get_next_level (b + PHYS_MEM_OFFSET) ?j flags s1 = Some (c + PHYS_MEM_OFFSET, s2)"
    "grows pml4 1 s1 s2" "table_at (vm_mem s2) pml4 ([?i] @ [?j]) = Some c"
    using vmm_get_next_level_run [OF g1(1) paths(2) t1 g1(2)] by blast
  have "0 < free_count (vm_pmm s2)" using growsD [OF 1(2)] growsD [OF 2(2)] free by linarith
  moreover have g2: "vm_ok pml4 s2" "table_at (vm_mem s2) pml4 [?i, ?j] = Some c"
    using growsD [OF 2(2)] 2(3) by simp_all
  ultimately obtain d s3 where 3: "vmm_get_next_level (c + PHYS_MEM_OFFSET) ?k flags s2 = Some (d + PHYS_MEM_OFFSET, s3)"
    "grows pml4 1 s2 s3" "table_at (vm_mem s3) pml4 ([?i, ?j] @ [?k]) = Some d"
    using vmm_get_next_level_run [OF g2(1) paths(3) g2(2)] by blast
  have "grows pml4 3 s s3" using grows_trans [OF grows_trans [OF 1(2) 2(2)] 3(2)] by (simp add: numeral_3_eq_3)
  moreover have "vmm_walk pml4 virt flags s = Some (d + PHYS_MEM_OFFSET, s3)"
    using 1(1) 2(1) 3(1) by (simp add: vmm_walk_def)
  moreover have "table_at (vm_mem s3) pml4 (virt_path virt) = Some d"
    using 3(3) by (simp add: virt_path_def)
  ultimately show ?thesis by blast
qed

text \<open>
  A page map with its lock free and its tables in order. Its meaning is the partial function
  \<open>leaf\<close> from addresses to present entries.
\<close>

definition map_ok :: "ptr \<Rightarrow> u64 \<Rightarrow> 'a vmm_state_scheme \<Rightarrow> bool" where
  "map_ok pg pml4 s \<longleftrightarrow> (\<exists>pm. pagemaps s pg = Some pm \<and> lock_free (pm_lock pm) \<and> top_level pm = pml4) \<and> vm_ok pml4 s"

definition present :: "u64 \<Rightarrow> u64 option" where
  "present e = (if e AND 1 \<noteq> 0 then Some e else None)"

text \<open>The entry of every address on this page is replaced.\<close>

definition set_entry :: "u64 \<Rightarrow> u64 \<Rightarrow> (u64 \<Rightarrow> u64 option) \<Rightarrow> u64 \<Rightarrow> u64 option" where
  "set_entry virt e f = (\<lambda>v. if virt_page v = virt_page virt then present e else f v)"

lemma lock_pagemap_free:
  assumes "pagemaps s pg = Some pm" and "lock_free (pm_lock pm)"
  shows "lock_pagemap pg s = Some (pm\<lparr>pm_lock := lock_held (pm_lock pm)\<rparr>,
    s\<lparr>pagemaps := (pagemaps s)(pg \<mapsto> pm\<lparr>pm_lock := lock_held (pm_lock pm)\<rparr>)\<rparr>)"
  using assms by (simp add: lock_pagemap_def Let_def)

lemma store_entry_run:
  assumes "map_ok pg pml4 s" and "3 \<le> free_count (vm_pmm s)"
  shows "\<exists>s'. do {
      (pm, s) \<leftarrow> lock_pagemap pg s;
      (pml1, s) \<leftarrow> vmm_walk (top_level pm) virt flags s;
      let s = s\<lparr>vm_mem := store64 (vm_mem s) (direct (pml1 + pml_entry 12 virt * 8)) e\<rparr>;
      let s = vmm_invalidate_tlb (top_level pm) virt s;
      Some (unlock_pagemap pg s)
    } = Some s' \<and> pagemaps s' = pagemaps s \<and> map_ok pg pml4 s' \<and> free_count (vm_pmm s) \<le> free_count (vm_pmm s') + 3 \<and>
    leaf (vm_mem s') pml4 = set_entry virt e (leaf (vm_mem s) pml4)"
proof -
  from assms(1) obtain pm where pm: "pagemaps s pg = Some pm" "lock_free (pm_lock pm)" "top_level pm = pml4"
    and ok: "vm_ok pml4 s" by (auto simp: map_ok_def)
  define pm1 where "pm1 = pm\<lparr>pm_lock := lock_held (pm_lock pm)\<rparr>"
  define s1 where "s1 = s\<lparr>pagemaps := (pagemaps s)(pg \<mapsto> pm1)\<rparr>"
  have pm1: "top_level pm1 = pml4" "pm1\<lparr>pm_lock := UNLOCK (pm_lock pm1)\<rparr> = pm"
    using pm by (simp_all add: pm1_def)
  have lock: "lock_pagemap pg s = Some (pm1, s1)"
    using lock_pagemap_free [OF pm(1,2)] by (simp add: pm1_def s1_def)
  have "vm_ok pml4 s1" "3 \<le> free_count (vm_pmm s1)" using ok assms(2) by (simp_all add: s1_def)
  from vmm_walk_run [OF this, of virt flags] obtain t s2 where
    walk: "vmm_walk pml4 virt flags s1 = Some (t + PHYS_MEM_OFFSET, s2)" and g: "grows pml4 3 s1 s2"
    and t: "table_at (vm_mem s2) pml4 (virt_path virt) = Some t" by blast
  define m where "m = store64 (vm_mem s2) (direct (t + PHYS_MEM_OFFSET + pml_entry 12 virt * 8)) e"
  define s3 where "s3 = vmm_invalidate_tlb pml4 virt (s2\<lparr>vm_mem := m\<rparr>)"
  define s4 where "s4 = unlock_pagemap pg s3"
  have ok2: "vm_ok pml4 s2" using growsD [OF g] by blast
  have m: "pt_ok m (vm_pmm s2) pml4" "leaf m pml4 = set_entry virt e (leaf (vm_mem s2) pml4)"
    unfolding m_def using pt_ok_leaf_store [OF ok2 t virt_path_table length_virt_path pml_entry_less]
      leaf_leaf_store [OF ok2 t] by (auto simp: set_entry_def present_def same_entries_iff)
  have s3: "vm_mem s3 = m" "vm_pmm s3 = vm_pmm s2" "pagemaps s3 = (pagemaps s)(pg \<mapsto> pm1)"
    using growsD [OF g] by (simp_all add: s3_def vmm_invalidate_tlb_def s1_def)
  then have "pagemaps s4 = pagemaps s" "vm_mem s4 = m" "vm_pmm s4 = vm_pmm s2"
    using pm1(2) pm(1) by (auto simp: s4_def unlock_pagemap_def)
  then show ?thesis
    using lock walk pm1(1) pm m growsD [OF g] ok2 by (intro exI [of _ s4]) (auto simp: map_ok_def s4_def s3_def m_def s1_def)
qed

text \<open>
  The interface of a page map to the loops over ranges: an operation that sets the entry of
  one page, given three free pages for new tables.
\<close>

locale page_setter =
  fixes ok :: "nat \<Rightarrow> 's \<Rightarrow> bool"
    and view :: "'s \<Rightarrow> u64 \<Rightarrow> u64 option"
    and put :: "'e \<Rightarrow> u64 \<Rightarrow> 's \<Rightarrow> 's option"
    and entry :: "'e \<Rightarrow> u64"
  assumes put_run: "ok (k + 3) s \<Longrightarrow> \<exists>s'. put e virt s = Some s' \<and> ok k s' \<and> view s' = set_entry virt (entry e) (view s)"
begin

lemma put_many:
  "ok (k + 3 * length is) s \<Longrightarrow> \<exists>s'. foldM (\<lambda>i. put (e i) (virt i)) is s = Some s' \<and> ok k s' \<and>
    view s' = fold (\<lambda>i. set_entry (virt i) (entry (e i))) is (view s)"
proof (induction "is" arbitrary: s)
  case Nil
  then show ?case by simp
next
  case (Cons i js)
  then obtain s1 where 1: "put (e i) (virt i) s = Some s1" "ok (k + 3 * length js) s1"
    "view s1 = set_entry (virt i) (entry (e i)) (view s)"
    using put_run [of "k + 3 * length js" s "e i" "virt i"] by (auto simp: algebra_simps)
  then show ?case using Cons.IH [OF 1(2)] by simp
qed

lemma put_pages:
  assumes "unat len \<le> 2 ^ 64 - 4096" and "ok (k + 3 * ((unat len + 4095) div 4096)) s"
  shows "\<exists>s'. page_loop len (\<lambda>j. put (e j) (virt + j)) s = Some s' \<and> ok k s' \<and>
    view s' = fold (\<lambda>i. set_entry (virt + of_nat i * PAGE_SIZE) (entry (e (of_nat i * PAGE_SIZE))))
      [0..<(unat len + 4095) div 4096] (view s)"
  using put_many [of k "[0..<(unat len + 4095) div 4096]" s "\<lambda>i. e (of_nat i * PAGE_SIZE)" "\<lambda>i. virt + of_nat i * PAGE_SIZE"]
    assms by (simp add: page_loop_def word_le_nat_alt)

end

definition map_space :: "(ptr \<Rightarrow> pagemap_t option) \<Rightarrow> ptr \<Rightarrow> u64 \<Rightarrow> nat \<Rightarrow> 'a vmm_state_scheme \<Rightarrow> bool" where
  "map_space maps pg pml4 k s \<longleftrightarrow> pagemaps s = maps \<and> map_ok pg pml4 s \<and> k \<le> free_count (vm_pmm s)"

lemma vmm_map_page_run:
  assumes "map_ok pg pml4 s" and "3 \<le> free_count (vm_pmm s)"
  shows "\<exists>s'. vmm_map_page pg phys virt flags s = Some s' \<and> pagemaps s' = pagemaps s \<and> map_ok pg pml4 s' \<and>
    free_count (vm_pmm s) \<le> free_count (vm_pmm s') + 3 \<and>
    leaf (vm_mem s') pml4 = set_entry virt (phys OR flags) (leaf (vm_mem s) pml4)"
  unfolding vmm_map_page_def using store_entry_run [OF assms] .

lemma vmm_unmap_page_run:
  assumes "map_ok pg pml4 s" and "3 \<le> free_count (vm_pmm s)"
  shows "\<exists>s'. vmm_unmap_page pg virt s = Some s' \<and> pagemaps s' = pagemaps s \<and> map_ok pg pml4 s' \<and>
    free_count (vm_pmm s) \<le> free_count (vm_pmm s') + 3 \<and>
    leaf (vm_mem s') pml4 = set_entry virt 0 (leaf (vm_mem s) pml4)"
  unfolding vmm_unmap_page_def using store_entry_run [OF assms] .

interpretation mapper: page_setter "map_space maps pg pml4" "\<lambda>s. leaf (vm_mem s) pml4"
    "\<lambda>(phys, flags) virt. vmm_map_page pg phys virt flags" "\<lambda>(phys, flags). phys OR flags" for maps pg pml4
proof
  fix k s e virt
  assume "map_space maps pg pml4 (k + 3) s"
  then show "\<exists>s'. (case e of (phys, flags) \<Rightarrow> \<lambda>virt. vmm_map_page pg phys virt flags) virt s = Some s' \<and>
      map_space maps pg pml4 k s' \<and> leaf (vm_mem s') pml4 = set_entry virt (case e of (phys, flags) \<Rightarrow> phys OR flags) (leaf (vm_mem s) pml4)"
    using vmm_map_page_run [of pg pml4 s "fst e" virt "snd e"] by (fastforce simp: map_space_def split: prod.splits)
qed

interpretation unmapper: page_setter "map_space maps pg pml4" "\<lambda>s. leaf (vm_mem s) pml4"
    "\<lambda>(_ :: unit). vmm_unmap_page pg" "\<lambda>_. 0" for maps pg pml4
proof
  fix k s virt and e :: unit
  assume "map_space maps pg pml4 (k + 3) s"
  then show "\<exists>s'. vmm_unmap_page pg virt s = Some s' \<and> map_space maps pg pml4 k s' \<and>
      leaf (vm_mem s') pml4 = set_entry virt 0 (leaf (vm_mem s) pml4)"
    using vmm_unmap_page_run [of pg pml4 s virt] by (fastforce simp: map_space_def)
qed

lemma map_pages_run:
  assumes "map_ok pg pml4 s" and "unat len \<le> 2 ^ 64 - 4096" and "3 * ((unat len + 4095) div 4096) \<le> free_count (vm_pmm s)"
  shows "\<exists>s'. map_pages pg phys virt len prot s = Some s' \<and> pagemaps s' = pagemaps s \<and> map_ok pg pml4 s' \<and>
    leaf (vm_mem s') pml4 = fold (\<lambda>i. set_entry (virt + of_nat i * PAGE_SIZE) ((phys + of_nat i * PAGE_SIZE) OR page_flags prot))
      [0..<(unat len + 4095) div 4096] (leaf (vm_mem s) pml4)"
  using mapper.put_pages [of len "pagemaps s" pg pml4 0 s "\<lambda>j. (phys + j, page_flags prot)" virt] assms
  by (auto simp: map_space_def map_pages_def)

text \<open>Consecutive pages below $2^{36}$ of them are distinct.\<close>

lemma unat_virt_page: "unat (virt_page v) = unat v div 4096 mod 2 ^ 36"
  by (simp add: virt_page_def unsigned_take_bit_eq unsigned_drop_bit_eq take_bit_eq_mod drop_bit_eq_div unat_mod unat_div)

lemma virt_page_step:
  assumes "virt_page (v + of_nat i * PAGE_SIZE) = virt_page (v + of_nat j * PAGE_SIZE)" and "i < 2 ^ 36" and "j < 2 ^ 36"
  shows "i = j"
proof -
  have page: "unat (virt_page (v + of_nat i * PAGE_SIZE)) = (unat v div 4096 + i) mod 2 ^ 36" if "i < 2 ^ 36" for i
  proof -
    have "unat (of_nat i * PAGE_SIZE :: u64) = i * 4096"
      using that by (subst unat_mult_small) (auto simp: unat_of_nat_id)
    then have "unat (v + of_nat i * PAGE_SIZE) = (unat v + i * 4096) mod 2 ^ 64"
      by (simp add: unat_word_ariths)
    then have "unat (v + of_nat i * PAGE_SIZE) div 4096 = ((unat v + i * 4096) div 4096) mod 2 ^ 52"
      using mod_mult2_eq [of "unat v + i * 4096" 4096 "2 ^ 52"] by simp
    also have "(unat v + i * 4096) div 4096 = unat v div 4096 + i" by simp
    finally show ?thesis
      unfolding unat_virt_page using mod_mod_cancel [of "2 ^ 36" "2 ^ 52" "unat v div 4096 + i"] by simp
  qed
  have "(unat v div 4096 + i) mod 2 ^ 36 = (unat v div 4096 + j) mod 2 ^ 36"
    using assms(1) page [OF assms(2)] page [OF assms(3)] by simp
  then have "2 ^ 36 dvd (i - j :: nat)" "2 ^ 36 dvd (j - i :: nat)"
    using mod_eq_dvd_iff_nat [of "unat v div 4096 + j" "unat v div 4096 + i" "2 ^ 36"]
      mod_eq_dvd_iff_nat [of "unat v div 4096 + i" "unat v div 4096 + j" "2 ^ 36"]
    by (cases i j rule: linorder_cases; simp)+
  then show ?thesis using assms(2,3) by (auto dest!: dvd_imp_le)
qed

lemma fold_set_entry_notin:
  "(\<And>i. i \<in> set is \<Longrightarrow> virt_page v \<noteq> virt_page (virt i)) \<Longrightarrow> fold (\<lambda>i. set_entry (virt i) (e i)) is f v = f v"
  by (induction "is" arbitrary: f) (auto simp: set_entry_def)

lemma fold_set_entry_in:
  assumes "i < n" and "n \<le> 2 ^ 36" and "virt_page v = virt_page (virt + of_nat i * PAGE_SIZE)"
  shows "fold (\<lambda>i. set_entry (virt + of_nat i * PAGE_SIZE) (e i)) [0..<n] f v = present (e i)"
proof -
  have split: "[0..<n] = [0..<i] @ [i] @ [Suc i..<n]"
    using assms(1) by (metis append_Cons append_Nil less_imp_le_nat upt_add_eq_append upt_conv_Cons le_add_diff_inverse zero_le)
  have "virt_page v \<noteq> virt_page (virt + of_nat j * PAGE_SIZE)" if "j \<in> set [Suc i..<n]" for j
    using that assms virt_page_step [of virt i j] by auto
  then have "fold (\<lambda>i. set_entry (virt + of_nat i * PAGE_SIZE) (e i)) [Suc i..<n] g v = g v" for g
    by (rule fold_set_entry_notin)
  then show ?thesis unfolding split by (simp add: set_entry_def assms(3))
qed

lemma vmm_virt_to_phys_run:
  assumes "map_ok pg pml4 s" and "3 \<le> free_count (vm_pmm s)"
  shows "\<exists>s'. vmm_virt_to_phys pg virt s =
      Some (case leaf (vm_mem s) pml4 virt of None \<Rightarrow> 0 | Some e \<Rightarrow> e AND NOT 0xfff, s') \<and>
    pagemaps s' = pagemaps s \<and> map_ok pg pml4 s' \<and> leaf (vm_mem s') pml4 = leaf (vm_mem s) pml4"
proof -
  from assms(1) obtain pm where pm: "pagemaps s pg = Some pm" "lock_free (pm_lock pm)" "top_level pm = pml4"
    and ok: "vm_ok pml4 s" by (auto simp: map_ok_def)
  obtain t s' where walk: "vmm_walk pml4 virt 7 s = Some (t + PHYS_MEM_OFFSET, s')" and g: "grows pml4 3 s s'"
    and t: "table_at (vm_mem s') pml4 (virt_path virt) = Some t"
    using vmm_walk_run [OF ok assms(2)] by blast
  have "leaf (vm_mem s') pml4 virt = present (pt_entry (vm_mem s') t (pml_entry 12 virt))"
    using t by (simp add: leaf_def present_def Let_def)
  then have "leaf (vm_mem s) pml4 virt = present (pt_entry (vm_mem s') t (pml_entry 12 virt))"
    using growsD [OF g] by simp
  then show ?thesis
    using pm walk growsD [OF g] by (auto simp: vmm_virt_to_phys_def map_ok_def present_def pt_entry_def Let_def)
qed

lemma entry_address:
  fixes n fl :: u64
  assumes "n AND 0xfff = 0" and "fl < 0x1000"
  shows "(n OR fl) AND NOT 0xfff = n"
proof -
  have n: "\<not> bit n k" if "k < 12" for k
  proof -
    have "bit (n AND 0xfff) k \<longleftrightarrow> bit n k" using that by (simp add: bit_and_iff bit_ones)
    then show ?thesis using assms(1) by simp
  qed
  have "take_bit 12 fl = fl"
    using assms(2) by (simp add: word_unat_eq_iff unsigned_take_bit_eq take_bit_eq_mod unat_mod word_less_nat_alt)
  then have f: "bit fl k \<Longrightarrow> k < 12" for k by (metis bit_take_bit_iff)
  show ?thesis by (intro bit_word_eqI) (use n f in \<open>auto simp: bit_simps bit_ones\<close>)
qed

lemma present_flag: "fl AND 1 \<noteq> 0 \<Longrightarrow> present (n OR fl) = Some (n OR fl)"
  by (simp add: present_def and_one_eq odd_iff_mod_2_eq_one [symmetric] even_or_iff)


section \<open>New page maps\<close>

lemma copy_entries:
  assumes "page_ok n" and "page_ok k" and "n \<noteq> k" and "\<forall>i\<in>set is. i < 512" and "page_ok t" and "j < 512"
  shows "pt_entry (fold (\<lambda>i m. store64 m (direct (n + PHYS_MEM_OFFSET + of_nat i * 8))
      (load64 m (direct (k + PHYS_MEM_OFFSET + of_nat i * 8)))) is m) t j =
    (if t = n \<and> unat j \<in> set is then pt_entry m k j else pt_entry m t j)"
  using assms(4)
proof (induction "is" arbitrary: m)
  case Nil
  then show ?case by simp
next
  case (Cons i js)
  have i: "(of_nat i :: u64) < 512" "unat (of_nat i :: u64) = i"
    using Cons.prems by (simp_all add: word_less_nat_alt unat_of_nat_id)
  define m1 where "m1 = store64 m (direct (n + PHYS_MEM_OFFSET + of_nat i * 8)) (pt_entry m k (of_nat i))"
  have m1: "pt_entry m1 u l = (if u = n \<and> l = of_nat i then pt_entry m k (of_nat i) else pt_entry m u l)"
    if "page_ok u" "l < 512" for u l
    unfolding m1_def using pt_entry_store [OF assms(1) i(1) that] .
  have "j = of_nat i \<longleftrightarrow> unat j = i" using i(2) by (auto simp: word_unat_eq_iff)
  then show ?case
    using Cons.IH [of m1] Cons.prems m1 [OF assms(2,6)] m1 [OF assms(5,6)] assms(3)
    by (auto simp: m1_def pt_entry_def)
qed

text \<open>A new top table \<open>n\<close> that shares the upper half of the kernel's table \<open>kt\<close>.\<close>

definition shares_upper :: "mem \<Rightarrow> pmm_state \<Rightarrow> u64 \<Rightarrow> mem \<Rightarrow> pmm_state \<Rightarrow> u64 \<Rightarrow> bool" where
  "shares_upper m p kt m' p' n \<longleftrightarrow> pt_ok m p kt \<and> page_ok n \<and> n div PAGE_SIZE \<notin> used p \<and>
     used p' = insert (n div PAGE_SIZE) (used p) \<and> pmm_lock p' = pmm_lock p \<and> highest_page p' = highest_page p \<and>
     (\<forall>t j. page_ok t \<longrightarrow> j < 512 \<longrightarrow> pt_entry m' t j =
        (if t = n then if 256 \<le> unat j then pt_entry m kt j else 0 else pt_entry m t j))"

lemma shares_upperD:
  assumes "shares_upper m p kt m' p' n"
  shows "pt_ok m p kt" and "page_ok n"
    and "page_ok t \<Longrightarrow> j < 512 \<Longrightarrow> pt_entry m' t j =
      (if t = n then if 256 \<le> unat j then pt_entry m kt j else 0 else pt_entry m t j)"
    and "table_path r \<Longrightarrow> table_at m kt r = Some t \<Longrightarrow> page_ok t \<and> t \<noteq> n"
  using assms pt_okD(4,5) [of m p kt r t] unfolding shares_upper_def by blast+

lemma shares_next:
  assumes "shares_upper m p kt m' p' n" and "table_path r" and "table_at m kt r = Some t" and "j < 512"
  shows "pt_entry m' t j = pt_entry m t j" and "next_table m' t j = next_table m t j"
  using shares_upperD(3) [OF assms(1), of t j] shares_upperD(4) [OF assms(1-3)] assms(4)
  by (simp_all add: next_table_def)

lemma shares_kernel_tables:
  assumes sh: "shares_upper m p kt m' p' n"
  shows "table_path r \<Longrightarrow> table_at m' kt r = table_at m kt r"
proof (induction r rule: rev_induct)
  case Nil
  then show ?case by simp
next
  case (snoc j r)
  then have r: "table_path r" "j < 512" by (simp_all add: table_path_snoc)
  then show ?case using snoc.IH [OF r(1)] shares_next(2) [OF sh r(1) _ r(2)]
    by (simp add: table_at_snoc split: option.splits)
qed

lemma shares_new_tables:
  assumes sh: "shares_upper m p kt m' p' n"
  shows "table_path (i # r) \<Longrightarrow> table_at m' n (i # r) = (if 256 \<le> unat i then table_at m kt (i # r) else None)"
proof (induction r rule: rev_induct)
  case Nil
  then have "i < 512" by (simp add: table_path_def)
  then have "next_table m' n i = (if 256 \<le> unat i then next_table m kt i else None)"
    using shares_upperD(3) [OF sh shares_upperD(2) [OF sh], of i] by (simp add: next_table_def)
  then show ?case by (simp split: option.split)
next
  case (snoc j r)
  then have r: "table_path (i # r)" "j < 512" using table_path_snoc [of "i # r" j] by simp_all
  show ?case
    using table_at_snoc [of m' n "i # r" j] table_at_snoc [of m kt "i # r" j] snoc.IH [OF r(1)] shares_next(2) [OF sh r(1) _ r(2)]
    by (cases "table_at m kt (i # r)") (simp_all del: table_at.simps)
qed

lemma shares_kernel_ok:
  assumes sh: "shares_upper m p kt m' p' n"
  shows "pt_ok m' p' kt"
proof -
  have "pt_ok m p' kt" using sh unfolding shares_upper_def pt_ok_def by simp
  then show ?thesis by (rule pt_ok_cong) (rule shares_kernel_tables [OF sh])
qed

lemma shares_path_cases:
  assumes sh: "shares_upper m p kt m' p' n" and "table_path r" and "table_at m' n r = Some t"
  shows "r = [] \<and> t = n \<or> table_at m kt r = Some t \<and> t \<noteq> n"
proof (cases r)
  case Nil
  with assms show ?thesis by simp
next
  case (Cons i q)
  with assms shares_new_tables [OF sh, of i q] have "table_at m kt r = Some t" by (simp del: table_at.simps split: if_splits)
  with shares_upperD(4) [OF sh assms(2)] show ?thesis by blast
qed

lemma shares_new_ok:
  assumes sh: "shares_upper m p kt m' p' n"
  shows "pt_ok m' p' n"
  unfolding pt_ok_def
proof (intro conjI allI impI)
  show "lock_free (pmm_lock p')" "0 \<in> used p'" "unat (highest_page p') \<le> 2 ^ 47"
    using pt_okD(1-3) [OF shares_kernel_ok [OF sh]] by auto
next
  fix r t
  assume r: "table_path r" "table_at m' n r = Some t"
  show "page_ok t" "t div PAGE_SIZE \<in> used p'"
    using shares_path_cases [OF sh r] sh pt_okD(4,5) [OF shares_upperD(1) [OF sh] r(1), of t]
    by (auto simp: shares_upper_def)
next
  fix q r t
  assume q: "table_path q" "table_path r" and t: "table_at m' n q = Some t" "table_at m' n r = Some t"
  show "q = r"
    using shares_path_cases [OF sh q(1) t(1)] shares_path_cases [OF sh q(2) t(2)]
      pt_okD(6) [OF shares_upperD(1) [OF sh] q, of t] by blast
qed

lemma shares_kernel_leaf:
  assumes sh: "shares_upper m p kt m' p' n"
  shows "leaf m' kt virt = leaf m kt virt"
  using shares_kernel_tables [OF sh virt_path_table [of virt]] shares_next(1) [OF sh virt_path_table _ pml_entry_less]
  by (simp add: leaf_def split: option.split)

lemma shares_new_leaf:
  assumes sh: "shares_upper m p kt m' p' n"
  shows "leaf m' n virt = (if 256 \<le> unat (pml_entry 39 virt) then leaf m kt virt else None)"
proof -
  have "table_at m' n (virt_path virt) =
      (if 256 \<le> unat (pml_entry 39 virt) then table_at m kt (virt_path virt) else None)"
    using shares_new_tables [OF sh, of "pml_entry 39 virt"] virt_path_table [of virt] unfolding virt_path_def by blast
  then show ?thesis using shares_next(1) [OF sh virt_path_table [of virt] _ pml_entry_less]
    by (simp add: leaf_def split: option.split)
qed

lemma vmm_create_new_pagemap_run:
  assumes "map_ok kernel_pagemap kt s" and "0 < free_count (vm_pmm s)" and "next_obj s \<noteq> kernel_pagemap"
  shows "\<exists>n s'. vmm_create_new_pagemap s = Some (next_obj s, s') \<and> map_ok (next_obj s) n s' \<and> map_ok kernel_pagemap kt s' \<and>
    shares_upper (vm_mem s) (vm_pmm s) kt (vm_mem s') (vm_pmm s') n"
proof -
  from assms(1) obtain pm where pm: "pagemaps s kernel_pagemap = Some pm" "lock_free (pm_lock pm)" "top_level pm = kt"
    and ok: "vm_ok kt s" by (auto simp: map_ok_def)
  obtain n p' where new: "pcalloc 1 (vm_pmm s, vm_mem s) = Some (n, p', memset (vm_mem s) (n + PHYS_MEM_OFFSET) 0 PAGE_SIZE)"
    and n: "page_ok n" "n div PAGE_SIZE \<notin> used (vm_pmm s)" and p': "used p' = insert (n div PAGE_SIZE) (used (vm_pmm s))"
    "pmm_lock p' = pmm_lock (vm_pmm s)" "highest_page p' = highest_page (vm_pmm s)"
    using pcalloc_run [OF pt_okD(1-3) [OF ok] assms(2)] by blast
  have kt: "page_ok kt" "kt div PAGE_SIZE \<in> used (vm_pmm s)"
    using pt_okD(4,5) [OF ok, of "[]" kt] by (simp_all add: table_path_def)
  define m1 where "m1 = memset (vm_mem s) (n + PHYS_MEM_OFFSET) 0 PAGE_SIZE"
  define us where "us = [256..<512 :: nat]"
  have us: "i \<in> set us \<longleftrightarrow> 256 \<le> i \<and> i < 512" for i unfolding us_def set_upt atLeastLessThan_iff ..
  define m2 where "m2 = fold (\<lambda>i m. store64 m (direct (n + PHYS_MEM_OFFSET + of_nat i * 8))
      (load64 m (direct (kt + PHYS_MEM_OFFSET + of_nat i * 8)))) us m1"
  have nk: "n \<noteq> kt" using n(2) kt(2) by auto
  have "pt_entry m2 t j = (if t = n then if 256 \<le> unat j then pt_entry (vm_mem s) kt j else 0 else pt_entry (vm_mem s) t j)"
    if t: "page_ok t" "j < 512" for t j
  proof -
    have "unat j \<in> set us \<longleftrightarrow> 256 \<le> unat j" using t(2) by (simp add: us word_less_nat_alt)
    moreover have "\<forall>i\<in>set us. i < 512" by (simp add: us)
    ultimately have "pt_entry m2 t j = (if t = n \<and> 256 \<le> unat j then pt_entry m1 kt j else pt_entry m1 t j)"
      unfolding m2_def using copy_entries [OF n(1) kt(1) nk _ t, of us m1] by simp
    then show ?thesis
      using pt_entry_memset [OF n(1) kt(1) t(2), of "vm_mem s"] pt_entry_memset [OF n(1) t, of "vm_mem s"] nk
      unfolding m1_def [symmetric] by (simp split: if_splits)
  qed
  then have sh: "shares_upper (vm_mem s) (vm_pmm s) kt m2 p' n"
    using ok n p' by (simp add: shares_upper_def)
  define s' where "s' = snd (new_pagemap n (s\<lparr>vm_pmm := p', vm_mem := m2\<rparr>))"
  have "vmm_create_new_pagemap s = Some (next_obj s, s')"
    unfolding vmm_create_new_pagemap_def us_def [symmetric]
    using new pm by (simp add: s'_def new_pagemap_def m2_def m1_def Let_def)
  moreover have "map_ok (next_obj s) n s'" "map_ok kernel_pagemap kt s'"
    using shares_new_ok [OF sh] shares_kernel_ok [OF sh] pm assms(3)
    by (auto simp: map_ok_def s'_def new_pagemap_def lock_init_def lock_free_def)
  moreover have "vm_mem s' = m2" "vm_pmm s' = p'" by (simp_all add: s'_def new_pagemap_def)
  ultimately show ?thesis using sh by blast
qed


lemma page_offset: "virt - ALIGN_DOWN virt = virt AND 0xfff"
proof -
  have "(virt AND NOT 0xfff) + (virt AND 0xfff) = virt"
    using bit.conj_disj_distrib [of virt "NOT 0xfff" "0xfff"] disjunctive_add [of "virt AND NOT 0xfff" "virt AND 0xfff"]
    by (simp add: bit_simps)
  then show ?thesis by (simp add: ALIGN_DOWN_def algebra_simps)
qed

lemma page_flags_present [simp]: "present (n OR page_flags prot) = Some (n OR page_flags prot)"
  by (rule present_flag) (simp add: page_flags_def)


lemma find_snoc: "\<forall>x\<in>set xs. \<not> P x \<Longrightarrow> P r \<Longrightarrow> find P (xs @ [r]) = Some r"
  by (induction xs) auto


section \<open>Properties\<close>

text \<open>
  C26: The four level walk implements a partial map. With a page map in order and three free
  pages, \<^verbatim>\<open>vmm_map_page\<close> and \<^verbatim>\<open>vmm_unmap_page\<close> return, keep the tables in order and change
  the entry of exactly the addresses on the given page, to the address with the flags and to
  no entry.
\<close>

theorem vmm_map_page_refines:
  assumes "map_ok pg pml4 s" and "3 \<le> free_count (vm_pmm s)"
  shows "(\<exists>s'. vmm_map_page pg phys virt flags s = Some s' \<and> map_ok pg pml4 s' \<and>
      leaf (vm_mem s') pml4 = set_entry virt (phys OR flags) (leaf (vm_mem s) pml4)) \<and>
    (\<exists>s'. vmm_unmap_page pg virt s = Some s' \<and> map_ok pg pml4 s' \<and>
      leaf (vm_mem s') pml4 = set_entry virt 0 (leaf (vm_mem s) pml4))"
  using vmm_map_page_run [OF assms] vmm_unmap_page_run [OF assms] by blast

definition ex_vm :: vmm_state where
  "ex_vm = \<lparr>vm_pmm = demo_pmm 3, vm_mem = (\<lambda>_. 0), cr3 = 0, invlpgs = [],
     pagemaps = [kernel_pagemap \<mapsto> \<lparr>pm_lock = lock_init, top_level = 0x1000, ranges = []\<rparr>], sfiles = (\<lambda>_. None), next_obj = 2\<rparr>"

lemma table_at_zero: "table_at (\<lambda>_. 0) t q = (if q = [] then Some t else None)"
proof -
  have "next_table (\<lambda>_. 0) t i = None" for i by (simp add: next_table_def pt_entry_def load64_zero)
  then show ?thesis by (cases q) simp_all
qed

lemma ex_vm_ok: "map_ok kernel_pagemap 0x1000 ex_vm" "6 \<le> free_count (vm_pmm ex_vm)" "next_obj ex_vm = 2"
proof -
  show "map_ok kernel_pagemap 0x1000 ex_vm"
    by (auto simp: map_ok_def ex_vm_def pt_ok_def table_at_zero page_ok_def split: if_splits)
  have "{2, 3, 4, 5, 6, 7} \<subseteq> {q. q < highest_page (demo_pmm 3) div PAGE_SIZE \<and> q \<notin> used (demo_pmm 3)}"
    by auto
  then have "card {2, 3, 4, 5, 6, 7 :: u64} \<le> free_count (vm_pmm ex_vm)"
    unfolding free_count_def ex_vm_def by (intro card_mono) auto
  then show "6 \<le> free_count (vm_pmm ex_vm)" by simp
  show "next_obj ex_vm = 2" by (simp add: ex_vm_def)
qed

theorem vmm_map_page_refines_witness:
  "\<exists>s'. vmm_map_page kernel_pagemap 0x3000 0x40000000 7 ex_vm = Some s' \<and> leaf (vm_mem s') 0x1000 0x40000123 = Some 0x3007"
  using vmm_map_page_refines [of kernel_pagemap "0x1000" ex_vm "0x3000" "0x40000000" 7] ex_vm_ok
  by (auto simp: set_entry_def present_def virt_page_def)

text \<open>
  C27: After a page has been mapped, \<^verbatim>\<open>vmm_virt_to_phys\<close> gives its physical address for every
  address on it, and \<^verbatim>\<open>vmm_get_kernel_address\<close> the direct map address of the very byte.
\<close>

theorem vmm_map_then_lookup:
  assumes "map_ok pg pml4 s" and "6 \<le> free_count (vm_pmm s)" and "phys AND 0xfff = 0" and "flags < 0x1000"
    and "flags AND 1 \<noteq> 0" and "virt_page v = virt_page virt"
  shows "\<exists>s1. vmm_map_page pg phys virt flags s = Some s1 \<and>
    (\<exists>s2. vmm_virt_to_phys pg v s1 = Some (phys, s2) \<and> leaf (vm_mem s2) pml4 = leaf (vm_mem s1) pml4) \<and>
    (\<exists>s2. vmm_get_kernel_address pg v s1 = Some (phys + PHYS_MEM_OFFSET + (v AND 0xfff), s2))"
proof -
  have "3 \<le> free_count (vm_pmm s)" using assms(2) by simp
  then obtain s1 where s1: "vmm_map_page pg phys virt flags s = Some s1" "map_ok pg pml4 s1"
    "free_count (vm_pmm s) \<le> free_count (vm_pmm s1) + 3" "leaf (vm_mem s1) pml4 = set_entry virt (phys OR flags) (leaf (vm_mem s) pml4)"
    using vmm_map_page_run [OF assms(1)] by blast
  have "leaf (vm_mem s1) pml4 v = Some (phys OR flags)"
    using s1(4) assms(6) present_flag [OF assms(5)] by (simp add: set_entry_def)
  then obtain s2 where "vmm_virt_to_phys pg v s1 = Some (phys, s2)" "leaf (vm_mem s2) pml4 = leaf (vm_mem s1) pml4"
    using vmm_virt_to_phys_run [OF s1(2), of v] s1(3) assms(2) entry_address [OF assms(3,4)] by auto
  then show ?thesis using s1(1) page_offset [of v]
    by (auto simp: vmm_get_kernel_address_def add_diff_eq [symmetric])
qed

theorem vmm_map_then_lookup_witness:
  "\<exists>s1 s2. vmm_map_page kernel_pagemap 0x3000 0x40000000 7 ex_vm = Some s1 \<and> vmm_virt_to_phys kernel_pagemap 0x40000123 s1 = Some (0x3000, s2)"
  using vmm_map_then_lookup [of kernel_pagemap "0x1000" ex_vm "0x3000" 7 "0x40000123" "0x40000000"] ex_vm_ok
  by (auto simp: virt_page_def)

text \<open>
  C28: \<^verbatim>\<open>vmm_mmap_range\<close> maps the pages of the range to consecutive physical pages, readable by
  the user and writable when asked for, leaves every other page as it was, and records the
  range so that \<^verbatim>\<open>vmm_range_to_addr\<close> finds its physical address.
\<close>

theorem vmm_mmap_range_maps:
  assumes "map_ok pg pml4 s" and "unat len \<le> 2 ^ 48" and "3 * ((unat len + 4095) div 4096) \<le> free_count (vm_pmm s)"
    and "pagemaps s pg = Some pm" and "virt \<notin> mr_virt_addr ` set (ranges pm)"
  shows "\<exists>s'. vmm_mmap_range pg phys virt len flags prot s = Some s' \<and> map_ok pg pml4 s' \<and>
    (\<forall>i v. i < (unat len + 4095) div 4096 \<longrightarrow> virt_page v = virt_page (virt + of_nat i * PAGE_SIZE) \<longrightarrow>
       leaf (vm_mem s') pml4 v = Some ((phys + of_nat i * PAGE_SIZE) OR page_flags prot)) \<and>
    (\<forall>v. (\<forall>i < (unat len + 4095) div 4096. virt_page v \<noteq> virt_page (virt + of_nat i * PAGE_SIZE)) \<longrightarrow>
       leaf (vm_mem s') pml4 v = leaf (vm_mem s) pml4 v) \<and>
    vmm_range_to_addr pg virt s' = Some phys"
proof -
  define n where "n = (unat len + 4095) div 4096"
  have "unat len \<le> 2 ^ 64 - 4096" using assms(2) by simp
  from map_pages_run [OF assms(1) this assms(3)] obtain s1 where s1: "map_pages pg phys virt len prot s = Some s1"
    "pagemaps s1 = pagemaps s" "map_ok pg pml4 s1" "leaf (vm_mem s1) pml4 =
      fold (\<lambda>i. set_entry (virt + of_nat i * PAGE_SIZE) ((phys + of_nat i * PAGE_SIZE) OR page_flags prot)) [0..<n] (leaf (vm_mem s) pml4)"
    unfolding n_def by blast
  have "unat len + 4095 < (2 ^ 36 + 1) * 4096" using assms(2) by simp
  then have n: "n \<le> 2 ^ 36" unfolding n_def using less_mult_imp_div_less by fastforce
  define r where "r = \<lparr>mr_file = 0, mr_phys_addr = phys, mr_virt_addr = virt, mr_offset = 0, mr_length = len,
       mr_flags = flags OR MAP_ANON, mr_prot = prot\<rparr>"
  define s' where "s' = s1\<lparr>pagemaps := (pagemaps s1)(pg \<mapsto> pm\<lparr>ranges := ranges pm @ [r]\<rparr>)\<rparr>"
  have run: "vmm_mmap_range pg phys virt len flags prot s = Some s'"
    using s1(1,2) assms(4) by (simp add: vmm_mmap_range_def push_range_def s'_def r_def)
  have "find (\<lambda>r. mr_virt_addr r = virt) (ranges pm @ [r]) = Some r"
    using assms(5) by (intro find_snoc) (auto simp: r_def)
  then have addr: "vmm_range_to_addr pg virt s' = Some phys"
    by (simp add: vmm_range_to_addr_def s'_def r_def)
  have ok: "map_ok pg pml4 s'" using s1(2,3) assms(4) by (auto simp: map_ok_def s'_def)
  have mem: "vm_mem s' = vm_mem s1" by (simp add: s'_def)
  show ?thesis
    unfolding n_def [symmetric]
    using run addr ok fold_set_entry_in [OF _ n] fold_set_entry_notin [of "[0..<n]"]
    by (intro exI [of _ s']) (auto simp: mem s1(4))
qed

theorem vmm_mmap_range_maps_witness:
  "\<exists>s'. vmm_mmap_range kernel_pagemap 0x5000 0x40000000 0x2000 0 PROT_WRITE ex_vm = Some s' \<and>
    leaf (vm_mem s') 0x1000 0x40001000 = Some 0x6007 \<and> vmm_range_to_addr kernel_pagemap 0x40000000 s' = Some 0x5000"
proof -
  obtain pm where pm: "pagemaps ex_vm kernel_pagemap = Some pm" "ranges pm = []" by (simp add: ex_vm_def)
  have n: "(unat (0x2000 :: u64) + 4095) div 4096 = 2" by simp
  obtain s' where s': "vmm_mmap_range kernel_pagemap 0x5000 0x40000000 0x2000 0 PROT_WRITE ex_vm = Some s'"
    "vmm_range_to_addr kernel_pagemap 0x40000000 s' = Some 0x5000"
    and leafs: "\<And>i v. i < 2 \<Longrightarrow> virt_page v = virt_page (0x40000000 + of_nat i * PAGE_SIZE) \<Longrightarrow>
       leaf (vm_mem s') 0x1000 v = Some ((0x5000 + of_nat i * PAGE_SIZE) OR page_flags PROT_WRITE)"
    using vmm_mmap_range_maps [OF ex_vm_ok(1) _ _ pm(1), of "0x2000" "0x40000000" "0x5000" 0 PROT_WRITE] ex_vm_ok(2) pm(2) n
    by auto
  from leafs [of 1 "0x40001000"] s' show ?thesis by (simp add: page_flags_def)
qed

text \<open>
  C29: A new page map translates the addresses of the upper half as the kernel's page map does
  and no others, and creating it changes no translation of the kernel's.
\<close>

theorem vmm_new_pagemap_shares_kernel:
  assumes "map_ok kernel_pagemap kt s" and "0 < free_count (vm_pmm s)" and "next_obj s \<noteq> kernel_pagemap"
  shows "\<exists>pg pml4 s'. vmm_create_new_pagemap s = Some (pg, s') \<and> map_ok pg pml4 s' \<and> map_ok kernel_pagemap kt s' \<and>
    (\<forall>v. leaf (vm_mem s') pml4 v = (if 256 \<le> unat (pml_entry 39 v) then leaf (vm_mem s) kt v else None)) \<and>
    leaf (vm_mem s') kt = leaf (vm_mem s) kt"
proof -
  obtain n s' where new: "vmm_create_new_pagemap s = Some (next_obj s, s')" "map_ok (next_obj s) n s'" "map_ok kernel_pagemap kt s'"
    and sh: "shares_upper (vm_mem s) (vm_pmm s) kt (vm_mem s') (vm_pmm s') n"
    using vmm_create_new_pagemap_run [OF assms] by blast
  then show ?thesis using shares_new_leaf [OF sh] shares_kernel_leaf [OF sh]
    by (intro exI [of _ "next_obj s"] exI [of _ n] exI [of _ s']) (simp add: fun_eq_iff)
qed

theorem vmm_new_pagemap_shares_kernel_witness:
  "\<exists>pg pml4 s'. vmm_create_new_pagemap ex_vm = Some (pg, s') \<and> map_ok pg pml4 s'"
  using vmm_new_pagemap_shares_kernel [OF ex_vm_ok(1)] ex_vm_ok(2,3) by auto

end
