(* ===== verification/Elf.thy ===== *)
theory Elf
  imports Vmm
begin

text \<open>
  The program loader, \<^verbatim>\<open>src/src/kernel/elf.c\<close>. The file is read into a heap block; the
  block is a function of the offset, what \<^verbatim>\<open>vfs_read\<close> gave over what the heap held before
  (\<open>junk\<close>), so that a truncated file is read past its end as the code does. Segments go to
  fresh pages of the page map. \<^const>\<open>None\<close> is a null dereference, for a path that does not
  exist, or a call that never returns.
\<close>

section \<open>Headers\<close>

definition load16 :: "mem \<Rightarrow> u64 \<Rightarrow> u16" where
  "load16 m p = ucast (m p) OR push_bit 8 (ucast (m (p + 1)))"

definition load32 :: "mem \<Rightarrow> u64 \<Rightarrow> u32" where
  "load32 m p = ucast (load16 m p) OR push_bit 16 (ucast (load16 m (p + 2)))"

record elf_header_t =
  eh_identifier :: "u8 list"
  eh_type :: u16
  eh_entry :: u64
  prog_head_off :: u64
  prog_head_count :: u16

definition elf_header :: "mem \<Rightarrow> elf_header_t" where
  "elf_header buffer = \<lparr>eh_identifier = get_bytes buffer 0 16, eh_type = load16 buffer 16, eh_entry = load64 buffer 24,
     prog_head_off = load64 buffer 32, prog_head_count = load16 buffer 56\<rparr>"

record elf_prog_header_t =
  ph_type :: u32
  ph_flags :: u32
  ph_offset :: u64
  ph_virt_addr :: u64
  ph_file_size :: u64
  ph_mem_size :: u64

definition prog_header :: "mem \<Rightarrow> u64 \<Rightarrow> u64 \<Rightarrow> elf_prog_header_t" where
  "prog_header buffer off i = (let p = off + 56 * i in
     \<lparr>ph_type = load32 buffer p, ph_flags = load32 buffer (p + 4), ph_offset = load64 buffer (p + 8),
      ph_virt_addr = load64 buffer (p + 16), ph_file_size = load64 buffer (p + 32), ph_mem_size = load64 buffer (p + 40)\<rparr>)"

abbreviation ELF_EXECUTABLE :: u16 where "ELF_EXECUTABLE \<equiv> 2"
abbreviation ELF_HEAD_LOAD :: u32 where "ELF_HEAD_LOAD \<equiv> 1"
abbreviation PF_W :: u32 where "PF_W \<equiv> 2"

definition elf_ident :: "u8 list" where
  "elf_ident = 0x7f # cstr ''ELF''"

definition ROUND_UP :: "u64 \<Rightarrow> u64 \<Rightarrow> u64" where
  "ROUND_UP a b = (a + (b - 1)) div b"

text \<open>The number of pages a segment takes.\<close>

definition segment_pages :: "elf_prog_header_t \<Rightarrow> u64" where
  "segment_pages ph = ROUND_UP ((ph_virt_addr ph AND (PAGE_SIZE - 1)) + ph_mem_size ph) PAGE_SIZE"


section \<open>Loading\<close>

text \<open>
  One turn of the loop. The pages are mapped from the address of the first program header, and
  the conditional operator of the protection binds weaker than the bitwise or before it.
\<close>

definition elf_load_segment ::
    "mem \<Rightarrow> elf_prog_header_t \<Rightarrow> ptr \<Rightarrow> elf_prog_header_t \<Rightarrow> 'a vmm_state_scheme \<Rightarrow> 'a vmm_state_scheme option" where
  "elf_load_segment buffer first pg ph s =
     (if ph_type ph \<noteq> ELF_HEAD_LOAD then Some s
      else do {
        (addr, p, m) \<leftarrow> pcalloc (segment_pages ph) (vm_pmm s, vm_mem s);
        s \<leftarrow> page_loop (segment_pages ph * PAGE_SIZE) (\<lambda>j. vmm_map_page pg (addr + j) (ph_virt_addr first + j)
               (if ph_flags ph AND PF_W \<noteq> 0 then 7 else 5)) (s\<lparr>vm_pmm := p, vm_mem := m\<rparr>);
        s \<leftarrow> push_range pg \<lparr>mr_file = 0, mr_phys_addr = addr, mr_virt_addr = ph_virt_addr ph, mr_offset = 0,
               mr_length = segment_pages ph * PAGE_SIZE, mr_flags = MAP_FIXED OR MAP_ANON,
               mr_prot = (if PROT_READ OR PROT_EXEC OR (ph_flags ph AND PF_W) \<noteq> 0 then PROT_WRITE else 0)\<rparr> s;
        Some (s\<lparr>vm_mem := put_bytes (vm_mem s) (addr + PHYS_MEM_OFFSET + (ph_virt_addr ph AND (PAGE_SIZE - 1)))
               (get_bytes buffer (ph_offset ph) (unat (ph_file_size ph)))\<rparr>)
      })"

definition elf_load ::
    "mem \<Rightarrow> ptr \<Rightarrow> 'a vmm_state_scheme \<Rightarrow> (u8 \<times> u64 option \<times> 'a vmm_state_scheme) option" where
  "elf_load buffer pg s =
     (let hd = elf_header buffer in
      if eh_type hd \<noteq> ELF_EXECUTABLE then Some (1, None, s)
      else if take 4 (eh_identifier hd) \<noteq> elf_ident then Some (1, None, s)
      else do {
        let ph = prog_header buffer (prog_head_off hd);
        s \<leftarrow> foldM (\<lambda>i. elf_load_segment buffer (ph 0) pg (ph (of_nat i))) [0..<unat (prog_head_count hd)] s;
        Some (0, Some (eh_entry hd), s)
      })"

text \<open>The heap block after the read.\<close>

definition file_buffer :: "mem \<Rightarrow> u8 list \<Rightarrow> mem" where
  "file_buffer junk bytes = put_bytes junk 0 bytes"

definition elf_run_binary ::
    "mem \<Rightarrow> ('a vmm_state_scheme) vfs_env \<Rightarrow> ('a vmm_state_scheme) vfs_t \<Rightarrow> cstring \<Rightarrow> ptr \<Rightarrow>
     ('a vmm_state_scheme) kstate \<Rightarrow> (u8 \<times> u64 option \<times> ('a vmm_state_scheme) kstate) option" where
  "elf_run_binary junk env v path pg k = do {
     (fp, k) \<leftarrow> vfs_open env v path k;
     file \<leftarrow> files k fp;
     (_, bytes, k) \<leftarrow> vfs_read env fp 0 (f_length file) k;
     (ret, entry, s) \<leftarrow> elf_load (file_buffer junk bytes) pg (disk k);
     Some (ret, entry, k\<lparr>disk := s\<rparr>)
   }"

end
