(* ===== verification/Apic.thy ===== *)
theory Apic
  imports Prelude
begin

text \<open>
  The interrupt controllers, \<^verbatim>\<open>src/src/kernel/drivers/apic.c\<close>: the registers of the local APIC
  of the running processor as last written, and the I/O APICs as a select register and a
  window onto the selected one. What the hardware does between two accesses is an argument.
\<close>

section \<open>The local APIC\<close>

type_synonym lapic_regs = "u64 \<Rightarrow> u32"

abbreviation LAPIC_REG_SPURIOUS :: u64 where "LAPIC_REG_SPURIOUS \<equiv> 0xf0"
abbreviation LAPIC_REG_TIMER :: u64 where "LAPIC_REG_TIMER \<equiv> 0x320"
abbreviation LAPIC_REG_TIMER_INITCNT :: u64 where "LAPIC_REG_TIMER_INITCNT \<equiv> 0x380"
abbreviation LAPIC_REG_TIMER_CURCNT :: u64 where "LAPIC_REG_TIMER_CURCNT \<equiv> 0x390"
abbreviation LAPIC_REG_TIMER_DIV :: u64 where "LAPIC_REG_TIMER_DIV \<equiv> 0x3e0"
abbreviation LAPIC_REG_EOI :: u64 where "LAPIC_REG_EOI \<equiv> 0xb0"
abbreviation LAPIC_REG_ICR0 :: u64 where "LAPIC_REG_ICR0 \<equiv> 0x300"
abbreviation LAPIC_REG_ICR1 :: u64 where "LAPIC_REG_ICR1 \<equiv> 0x310"
abbreviation LAPIC_APIC_ID :: u64 where "LAPIC_APIC_ID \<equiv> 0x20"
abbreviation SCHEDULE_REG :: u8 where "SCHEDULE_REG \<equiv> 48"

definition lapic_write :: "u64 \<Rightarrow> u32 \<Rightarrow> lapic_regs \<Rightarrow> lapic_regs" where
  "lapic_write reg data l = l(reg := data)"

definition lapic_enable :: "u8 \<Rightarrow> lapic_regs \<Rightarrow> lapic_regs" where
  "lapic_enable vect l = lapic_write LAPIC_REG_SPURIOUS (l LAPIC_REG_SPURIOUS OR push_bit 8 1 OR ucast vect) l"

definition lapic_get_id :: "lapic_regs \<Rightarrow> u8" where
  "lapic_get_id l = ucast (drop_bit 24 (l LAPIC_APIC_ID))"

definition lapic_eoi :: "lapic_regs \<Rightarrow> lapic_regs" where
  "lapic_eoi l = lapic_write LAPIC_REG_EOI 0 l"

definition lapic_send_ipi :: "u8 \<Rightarrow> u8 \<Rightarrow> lapic_regs \<Rightarrow> lapic_regs" where
  "lapic_send_ipi lapic_id vect l =
     lapic_write LAPIC_REG_ICR0 (ucast vect) (lapic_write LAPIC_REG_ICR1 (push_bit 24 (ucast lapic_id)) l)"

definition init_lapic :: "lapic_regs \<Rightarrow> lapic_regs" where
  "init_lapic l = lapic_enable 0xff l"

definition lapic_timer_stop :: "lapic_regs \<Rightarrow> lapic_regs" where
  "lapic_timer_stop l = lapic_write LAPIC_REG_TIMER (push_bit 16 1) (lapic_write LAPIC_REG_TIMER_INITCNT 0 l)"

text \<open>The ticks are 64 bits wide and cut to the register's 32.\<close>

definition lapic_timer_oneshot :: "u64 \<Rightarrow> u8 \<Rightarrow> u32 \<Rightarrow> lapic_regs \<Rightarrow> lapic_regs" where
  "lapic_timer_oneshot freq intr us l =
     (let l = lapic_timer_stop l; ticks = ucast us * (freq div 1000000) in
      lapic_write LAPIC_REG_TIMER_INITCNT (ucast (ticks :: u64))
        (lapic_write LAPIC_REG_TIMER_DIV 0 (lapic_write LAPIC_REG_TIMER (ucast intr) l)))"

text \<open>
  The calibration waits until the timer has counted down; the two readings of the interval
  timer before and after are arguments. Equal readings divide by zero.
\<close>

definition lapic_timer_get_freq :: "u16 \<Rightarrow> u16 \<Rightarrow> lapic_regs \<Rightarrow> (u64 \<times> lapic_regs) option" where
  "lapic_timer_get_freq initial_pit_tick final_pit_tick l =
     (let l = lapic_timer_stop l;
          l = lapic_write LAPIC_REG_TIMER_DIV 0 (lapic_write LAPIC_REG_TIMER (push_bit 16 1 OR 0xff) l);
          l = lapic_write LAPIC_REG_TIMER_INITCNT 0xfffff l;
          pit_ticks = (ucast initial_pit_tick - ucast final_pit_tick :: u64) in
      if pit_ticks = 0 then None
      else Some ((0xfffff div pit_ticks) * 1193182, lapic_timer_stop l))"


section \<open>The I/O APICs\<close>

record madt_ioapic_t =
  ioapic_address :: u32
  ioapic_gsi :: u32

record madt_iso_t =
  irq_source :: u8
  iso_gsi :: u32
  iso_flags :: u16

text \<open>The registers behind the window of each I/O APIC, and its select register, by address.\<close>

record ioapic_regs =
  io_sel :: "u64 \<Rightarrow> u32"
  io_win :: "u64 \<Rightarrow> u32 \<Rightarrow> u32"

definition ioapic_read :: "u64 \<Rightarrow> u64 \<Rightarrow> ioapic_regs \<Rightarrow> u32 \<times> ioapic_regs" where
  "ioapic_read addr reg io = (io_win io addr (ucast reg), io\<lparr>io_sel := (io_sel io)(addr := ucast reg)\<rparr>)"

definition ioapic_write :: "u64 \<Rightarrow> u64 \<Rightarrow> u32 \<Rightarrow> ioapic_regs \<Rightarrow> ioapic_regs" where
  "ioapic_write addr reg data io = io\<lparr>io_sel := (io_sel io)(addr := ucast reg),
     io_win := (io_win io)(addr := (io_win io addr)(ucast reg := data))\<rparr>"

definition ioapic_get_gsi_count :: "u64 \<Rightarrow> ioapic_regs \<Rightarrow> u32 \<times> ioapic_regs" where
  "ioapic_get_gsi_count addr io = (case ioapic_read addr 1 io of (v, io) \<Rightarrow> (drop_bit 16 (v AND 0xff0000), io))"

fun get_ioapic_by_gsi :: "madt_ioapic_t list \<Rightarrow> u32 \<Rightarrow> ioapic_regs \<Rightarrow> madt_ioapic_t option \<times> ioapic_regs" where
  "get_ioapic_by_gsi [] gsi io = (None, io)"
| "get_ioapic_by_gsi (ioapic # rest) gsi io =
     (if ioapic_gsi ioapic \<le> gsi then
        (case ioapic_get_gsi_count (ucast (ioapic_address ioapic) + PHYS_MEM_OFFSET) io of (n, io) \<Rightarrow>
           if ioapic_gsi ioapic + n > gsi then (Some ioapic, io) else get_ioapic_by_gsi rest gsi io)
      else get_ioapic_by_gsi rest gsi io)"

definition redirect_entry :: "u8 \<Rightarrow> u8 \<Rightarrow> u64 \<Rightarrow> bool \<Rightarrow> u64" where
  "redirect_entry lapic_id vect flags status =
     (let r = ucast vect;
          r = (if flags AND push_bit 1 1 \<noteq> 0 then r OR push_bit 13 1 else r);
          r = (if flags AND push_bit 3 1 \<noteq> 0 then r OR push_bit 5 1 else r);
          r = (if \<not> status then r OR push_bit 16 1 else r)
      in r OR push_bit 56 (ucast lapic_id))"

definition ioapic_redirect_gsi ::
    "madt_ioapic_t list \<Rightarrow> u8 \<Rightarrow> u32 \<Rightarrow> u8 \<Rightarrow> u64 \<Rightarrow> bool \<Rightarrow> ioapic_regs \<Rightarrow> ioapic_regs option" where
  "ioapic_redirect_gsi ioapics lapic_id gsi vect flags status io =
     (case get_ioapic_by_gsi ioapics gsi io of
        (None, io) \<Rightarrow> None
      | (Some ioapic, io) \<Rightarrow>
          let redirect = redirect_entry lapic_id vect flags status;
              ioredtbl = (gsi - ioapic_gsi ioapic) * 2 + 16;
              addr = ucast (ioapic_address ioapic) + PHYS_MEM_OFFSET;
              io = ioapic_write addr (ucast ioredtbl) (ucast redirect) io
          in Some (ioapic_write addr (ucast (ioredtbl + 1)) (ucast (drop_bit 32 redirect)) io))"

text \<open>After the overrides the interrupt is redirected under its own number as well.\<close>

definition ioapic_redirect_irq ::
    "madt_ioapic_t list \<Rightarrow> madt_iso_t list \<Rightarrow> u8 \<Rightarrow> u8 \<Rightarrow> u8 \<Rightarrow> bool \<Rightarrow> ioapic_regs \<Rightarrow> ioapic_regs option" where
  "ioapic_redirect_irq ioapics isos lapic_id irq vect status io = do {
     io \<leftarrow> foldM (\<lambda>iso io. if irq_source iso = irq
            then ioapic_redirect_gsi ioapics lapic_id (iso_gsi iso) vect (ucast (iso_flags iso)) status io
            else Some io) isos io;
     ioapic_redirect_gsi ioapics lapic_id (ucast irq) vect 0 status io
   }"


section \<open>Lemmas\<close>

lemma and_flag_bit: "(w :: u64) AND push_bit n 1 \<noteq> 0 \<longleftrightarrow> bit w n"
proof -
  have "bit (w AND push_bit n 1) k \<longleftrightarrow> k = n \<and> bit w n" for k
    by (auto simp: bit_simps dest: bit_imp_le_length)
  then show ?thesis by (metis bit_0_eq bot_apply bot_bool_def bit_eqI)
qed

lemma redirect_entry_bit:
  "bit (redirect_entry lapic_id vect flags status) n \<longleftrightarrow> bit vect n \<or> n = 13 \<and> bit flags 1 \<or>
     n = 5 \<and> bit flags 3 \<or> n = 16 \<and> \<not> status \<or> 56 \<le> n \<and> bit lapic_id (n - 56)"
proof -
  have flag: "bit (push_bit k (1 :: u64)) n \<longleftrightarrow> n = k \<and> k < 64" for k by (auto simp: bit_simps)
  have vect: "bit (ucast vect :: u64) n \<longleftrightarrow> bit vect n" by (auto simp: bit_simps dest: bit_imp_le_length)
  have id: "bit (push_bit 56 (ucast lapic_id :: u64)) n \<longleftrightarrow> 56 \<le> n \<and> bit lapic_id (n - 56)"
    by (auto simp: bit_simps dest: bit_imp_le_length)
  have cond: "bit (if b then x OR y else x) n \<longleftrightarrow> bit x n \<or> b \<and> bit y n" for b and x y :: u64
    by (simp add: bit_or_iff)
  show ?thesis
    unfolding redirect_entry_def and_flag_bit Let_def bit_or_iff cond flag vect id by simp blast
qed

text \<open>The entry as the two halves of the redirection table hold it.\<close>

definition ioredtbl_entry :: "u64 \<Rightarrow> u32 \<Rightarrow> ioapic_regs \<Rightarrow> u64" where
  "ioredtbl_entry addr n io =
     ucast (io_win io addr (n * 2 + 16)) OR push_bit 32 (ucast (io_win io addr (n * 2 + 16 + 1)))"

lemma halves: "ucast (ucast (w :: u64) :: u32) OR push_bit 32 (ucast (ucast (drop_bit 32 w) :: u32)) = w"
  by (intro bit_word_eqI) (auto simp: bit_simps)

lemma ucast_u32_u64: "ucast (ucast (w :: u32) :: u64) = w"
  by (intro bit_word_eqI) (auto simp: bit_simps)

lemma ioapic_redirect_gsi_run:
  assumes "get_ioapic_by_gsi ioapics gsi io = (Some ioapic, io1)"
  shows "\<exists>io'. ioapic_redirect_gsi ioapics lapic_id gsi vect flags status io = Some io' \<and>
    ioredtbl_entry (ucast (ioapic_address ioapic) + PHYS_MEM_OFFSET) (gsi - ioapic_gsi ioapic) io' =
      redirect_entry lapic_id vect flags status"
  using assms by (simp add: ioapic_redirect_gsi_def ioredtbl_entry_def ioapic_write_def ucast_u32_u64 halves Let_def)

text \<open>
  C30: Redirecting a global system interrupt programs its entry in the table of its I/O APIC: the
  vector in the low byte, the processor in the high byte, the mask bit when it is switched
  off, the polarity bit from bit 1 of the flags. It holds for flags without bit 3, which asks for
  a level triggered interrupt and changes bit 5 of the vector.
\<close>

theorem ioapic_redirect_programs:
  assumes "get_ioapic_by_gsi ioapics gsi io = (Some ioapic, io1)" and "\<not> bit flags 3"
  shows "\<exists>io'. ioapic_redirect_gsi ioapics lapic_id gsi vect flags status io = Some io' \<and>
    (let e = ioredtbl_entry (ucast (ioapic_address ioapic) + PHYS_MEM_OFFSET) (gsi - ioapic_gsi ioapic) io' in
     ucast e = vect \<and> ucast (drop_bit 56 e) = lapic_id \<and> (bit e 16 \<longleftrightarrow> \<not> status) \<and> (bit e 13 \<longleftrightarrow> bit flags 1))"
proof -
  have "ucast (redirect_entry lapic_id vect flags status) = vect"
    using assms(2) by (intro bit_word_eqI) (auto simp: bit_simps redirect_entry_bit)
  moreover have "ucast (drop_bit 56 (redirect_entry lapic_id vect flags status)) = lapic_id"
    by (intro bit_word_eqI) (auto simp: bit_simps redirect_entry_bit dest: bit_imp_le_length)
  moreover have "\<not> bit vect 16" "\<not> bit vect 13" by (auto dest: bit_imp_le_length)
  moreover obtain io' where "ioapic_redirect_gsi ioapics lapic_id gsi vect flags status io = Some io'"
    "ioredtbl_entry (ucast (ioapic_address ioapic) + PHYS_MEM_OFFSET) (gsi - ioapic_gsi ioapic) io' =
      redirect_entry lapic_id vect flags status"
    using ioapic_redirect_gsi_run [OF assms(1)] by blast
  ultimately show ?thesis by (intro exI [of _ io']) (simp add: redirect_entry_bit Let_def)
qed

definition ex_ioapics :: "madt_ioapic_t list" where
  "ex_ioapics = [\<lparr>ioapic_address = 0xfec00000, ioapic_gsi = 0\<rparr>]"

definition ex_io :: ioapic_regs where
  "ex_io = \<lparr>io_sel = (\<lambda>_. 0), io_win = (\<lambda>_ r. if r = 1 then 0x170011 else 0)\<rparr>"

theorem ioapic_redirect_programs_witness:
  "\<exists>io'. ioapic_redirect_gsi ex_ioapics 2 9 0x31 2 True ex_io = Some io' \<and>
    \<not> bit (ioredtbl_entry (0xfec00000 + PHYS_MEM_OFFSET) 9 io') 16"
proof -
  have "get_ioapic_by_gsi ex_ioapics 9 ex_io = (Some \<lparr>ioapic_address = 0xfec00000, ioapic_gsi = 0\<rparr>,
      snd (ioapic_read (0xfec00000 + PHYS_MEM_OFFSET) 1 ex_io))"
    by (simp add: ex_ioapics_def ex_io_def ioapic_get_gsi_count_def ioapic_read_def)
  from ioapic_redirect_programs [OF this, of 2 2 "0x31" True] show ?thesis by (auto simp: Let_def)
qed

end
