(* ===== verification/Sched.thy ===== *)
theory Sched
  imports Elf Event Apic
begin

text \<open>
  The scheduler, \<^verbatim>\<open>src/src/kernel/tasking/scheduler.c\<close>, on one processor. Processes, threads and
  events live in stores indexed by pointers, beside the page maps and open file slots of the
  virtual memory manager, whose state this one extends; the whole is the device state of the
  kernel's files. An interrupt handler ends by returning to the interrupted thread or by
  loading another thread's registers (\<open>sched_result\<close>). \<^const>\<open>None\<close> is a call that never
  returns or a null or out of range access; a thread that spins or halts by intention
  is the state in which it does.
\<close>

section \<open>State\<close>

record registers_t =
  r_r15 :: u64
  r_r14 :: u64
  r_r13 :: u64
  r_r12 :: u64
  r_r11 :: u64
  r_r10 :: u64
  r_r9 :: u64
  r_r8 :: u64
  r_rbp :: u64
  r_rdi :: u64
  r_rsi :: u64
  r_rdx :: u64
  r_rcx :: u64
  r_rbx :: u64
  r_rax :: u64
  r_reserved1 :: u64
  r_reserved2 :: u64
  r_rip :: u64
  r_cs :: u64
  r_rflags :: u64
  r_rsp :: u64
  r_ss :: u64

definition zero_regs :: registers_t where
  "zero_regs = \<lparr>r_r15 = 0, r_r14 = 0, r_r13 = 0, r_r12 = 0, r_r11 = 0, r_r10 = 0, r_r9 = 0, r_r8 = 0, r_rbp = 0,
     r_rdi = 0, r_rsi = 0, r_rdx = 0, r_rcx = 0, r_rbx = 0, r_rax = 0, r_reserved1 = 0, r_reserved2 = 0,
     r_rip = 0, r_cs = 0, r_rflags = 0, r_rsp = 0, r_ss = 0\<rparr>"

record thread_t =
  t_parent :: ptr
  alive :: int
  t_gid :: int
  t_uid :: int
  tid :: u64
  t_lock :: lock_t
  queued :: int
  priority :: int
  kernel_stack :: u64
  which_event :: u64
  regs :: registers_t
  fpu_storage :: "u8 list"

record proc_t =
  user :: int
  pid :: u64
  p_parent :: ptr
  children :: "ptr list"
  p_threads :: "ptr list"
  pagemap :: ptr
  stack_top :: u64
  mmap_top :: u64
  mmaped_len :: u64
  fds :: "ptr list"
  p_event :: ptr
  p_status :: int

record cpu_locals_t =
  current_thread :: ptr
  lapic_timer_freq :: u64
  last_run_thread_index :: "u64 list"
  tss_rsp0 :: u64
  current_priority_peg :: u8
  current_priority :: u8

text \<open>\<open>fpu\<close> is the floating point state of the processor, \<open>queues\<close> the static vectors \<^verbatim>\<open>threads\<close>.\<close>

record sched_state = vmm_state +
  procs :: "ptr \<Rightarrow> proc_t option"
  thrs :: "ptr \<Rightarrow> thread_t option"
  queues :: "ptr list list"
  current_pid :: u64
  current_tid :: u64
  sched_has_started :: bool
  sched_lock :: lock_t
  kernel_proc :: ptr
  events :: event_store
  locals :: cpu_locals_t
  fpu :: "u8 list"
  lapic :: lapic_regs

type_synonym 'a kern = "('a sched_state_scheme) kstate"
type_synonym 'a kern_env = "('a sched_state_scheme) vfs_env"
type_synonym 'a kern_vfs = "('a sched_state_scheme) vfs_t"

abbreviation FDS_COUNT :: nat where "FDS_COUNT \<equiv> 128"
abbreviation PRIORITY_LEVELS :: nat where "PRIORITY_LEVELS \<equiv> 20"
abbreviation DEFAULT_WAIT_TIMESLICE :: u32 where "DEFAULT_WAIT_TIMESLICE \<equiv> 20000"
abbreviation DEFAULT_TIMESLICE :: u32 where "DEFAULT_TIMESLICE \<equiv> 5000"
abbreviation SCHED_STACK_TOP :: u64 where "SCHED_STACK_TOP \<equiv> 0x70000000000"
abbreviation SCHED_MMAP_TOP :: u64 where "SCHED_MMAP_TOP \<equiv> 0x90000000000"
abbreviation SCHED_STACK_SIZE :: u64 where "SCHED_STACK_SIZE \<equiv> 0x40000"
abbreviation GDT_SEG_KCODE :: u64 where "GDT_SEG_KCODE \<equiv> 8"
abbreviation GDT_SEG_KDATA :: u64 where "GDT_SEG_KDATA \<equiv> 16"
abbreviation GDT_SEG_UCODE :: u64 where "GDT_SEG_UCODE \<equiv> 27"
abbreviation GDT_SEG_UDATA :: u64 where "GDT_SEG_UDATA \<equiv> 35"
abbreviation WNOHANG :: u32 where "WNOHANG \<equiv> 1"
abbreviation ECHILD :: int where "ECHILD \<equiv> 12"
abbreviation EINVAL :: int where "EINVAL \<equiv> 28"

text \<open>Storing into the objects; a pointer to no object fails.\<close>

definition set_thread :: "ptr \<Rightarrow> thread_t \<Rightarrow> 'a sched_state_scheme \<Rightarrow> 'a sched_state_scheme" where
  "set_thread p t s = s\<lparr>thrs := (thrs s)(p \<mapsto> t)\<rparr>"

definition set_proc :: "ptr \<Rightarrow> proc_t \<Rightarrow> 'a sched_state_scheme \<Rightarrow> 'a sched_state_scheme" where
  "set_proc p pr s = s\<lparr>procs := (procs s)(p \<mapsto> pr)\<rparr>"

definition upd_proc :: "ptr \<Rightarrow> (proc_t \<Rightarrow> proc_t) \<Rightarrow> 'a sched_state_scheme \<Rightarrow> 'a sched_state_scheme option" where
  "upd_proc p f s = do { pr \<leftarrow> procs s p; Some (set_proc p (f pr) s) }"

definition upd_thread :: "ptr \<Rightarrow> (thread_t \<Rightarrow> thread_t) \<Rightarrow> 'a sched_state_scheme \<Rightarrow> 'a sched_state_scheme option" where
  "upd_thread p f s = do { t \<leftarrow> thrs s p; Some (set_thread p (f t) s) }"

text \<open>A new heap address.\<close>

definition new_obj :: "'a vmm_state_scheme \<Rightarrow> ptr \<times> 'a vmm_state_scheme" where
  "new_obj s = (next_obj s, s\<lparr>next_obj := Suc (next_obj s)\<rparr>)"

definition new_sfile :: "syscall_file_t \<Rightarrow> 'a vmm_state_scheme \<Rightarrow> ptr \<times> 'a vmm_state_scheme" where
  "new_sfile sf s = (next_obj s, s\<lparr>sfiles := (sfiles s)(next_obj s \<mapsto> sf), next_obj := Suc (next_obj s)\<rparr>)"

definition sched_pcalloc :: "u64 \<Rightarrow> 'a vmm_state_scheme \<Rightarrow> (u64 \<times> 'a vmm_state_scheme) option" where
  "sched_pcalloc pages s = do {
     (a, p, m) \<leftarrow> pcalloc pages (vm_pmm s, vm_mem s);
     Some (a, s\<lparr>vm_pmm := p, vm_mem := m\<rparr>)
   }"

definition lock_sched :: "'a sched_state_scheme \<Rightarrow> 'a sched_state_scheme option" where
  "lock_sched s = map_option (\<lambda>(_, l). s\<lparr>sched_lock := l\<rparr>) (LOCK (sched_lock s))"

definition unlock_sched :: "'a sched_state_scheme \<Rightarrow> 'a sched_state_scheme" where
  "unlock_sched s = s\<lparr>sched_lock := UNLOCK (sched_lock s)\<rparr>"

definition eoi_and_rearm :: "'a sched_state_scheme \<Rightarrow> 'a sched_state_scheme" where
  "eoi_and_rearm s = s\<lparr>lapic := lapic_timer_oneshot (lapic_timer_freq (locals s)) SCHEDULE_REG DEFAULT_TIMESLICE
     (lapic_eoi (lapic s))\<rparr>"


section \<open>Queues, processes and threads\<close>

definition sched_await :: "'a sched_state_scheme \<Rightarrow> 'a sched_state_scheme option" where
  "sched_await s =
     (if \<not> sched_has_started s then None
      else Some (s\<lparr>lapic := lapic_timer_oneshot (lapic_timer_freq (locals s)) SCHEDULE_REG DEFAULT_WAIT_TIMESLICE (lapic s)\<rparr>))"

definition push_queue :: "int \<Rightarrow> ptr \<Rightarrow> 'a sched_state_scheme \<Rightarrow> 'a sched_state_scheme option" where
  "push_queue prio th s =
     (if 0 \<le> prio \<and> nat prio < length (queues s)
      then Some (s\<lparr>queues := (queues s)[nat prio := queues s ! nat prio @ [th]]\<rparr>) else None)"

definition sched_enqueue :: "ptr \<Rightarrow> 'a sched_state_scheme \<Rightarrow> 'a sched_state_scheme option" where
  "sched_enqueue th s = do {
     t \<leftarrow> thrs s th;
     if queued t \<noteq> 0 then Some s
     else do {
       let s = set_thread th (t\<lparr>queued := 1\<rparr>) s;
       s \<leftarrow> lock_sched s;
       s \<leftarrow> push_queue (priority t) th s;
       Some (unlock_sched s)
     }
   }"

text \<open>A new process with its event; its pid is the counter.\<close>

definition install_proc ::
    "ptr \<Rightarrow> ptr \<Rightarrow> u64 \<Rightarrow> u64 \<Rightarrow> int \<Rightarrow> ptr \<Rightarrow> 'a sched_state_scheme \<Rightarrow> 'a sched_state_scheme" where
  "install_proc p parent mtop stop usr pg s =
     (let ev = next_obj s in
      set_proc p \<lparr>user = usr, pid = current_pid s, p_parent = parent, children = [], p_threads = [], pagemap = pg,
          stack_top = stop, mmap_top = mtop, mmaped_len = 0, fds = replicate FDS_COUNT 0, p_event = ev, p_status = 0\<rparr>
        (s\<lparr>next_obj := Suc ev, events := (events s)(ev := \<lparr>pending = 0, event_lock = lock_init\<rparr>),
           current_pid := current_pid s + 1\<rparr>))"

definition copy_fd :: "proc_t \<Rightarrow> ptr \<Rightarrow> nat \<Rightarrow> 'a kern \<Rightarrow> 'a kern option" where
  "copy_fd old p i k =
     (if fds old ! i = 0 then Some k
      else do {
        sf \<leftarrow> sfiles (disk k) (fds old ! i);
        let (sfile, s) = new_sfile sf (disk k);
        s \<leftarrow> upd_proc p (\<lambda>pr. pr\<lparr>fds := (fds pr)[i := sfile]\<rparr>) s;
        file \<leftarrow> files k (sf_file sf);
        Some (set_file (sf_file sf) (file\<lparr>f_ref_count := f_ref_count file + 1\<rparr>) (k\<lparr>disk := s\<rparr>))
      })"

definition sched_new_proc ::
    "'a kern_env \<Rightarrow> ptr \<Rightarrow> ptr \<Rightarrow> int \<Rightarrow> 'a kern \<Rightarrow> (ptr \<times> 'a kern) option" where
  "sched_new_proc env old_proc pg usr k = do {
     let (p, s) = new_obj (disk k);
     if old_proc = 0 then do {
       (pg, s) \<leftarrow> (if pg \<noteq> 0 then Some (pg, s) else if usr \<noteq> 0 then vmm_create_new_pagemap s else Some (kernel_pagemap, s));
       Some (p, k\<lparr>disk := install_proc p 0 SCHED_MMAP_TOP SCHED_STACK_TOP usr pg s\<rparr>)
     } else do {
       old \<leftarrow> procs s old_proc;
       (pg, k) \<leftarrow> vmm_fork_pagemap env (pagemap old) (k\<lparr>disk := s\<rparr>);
       let k = k\<lparr>disk := install_proc p old_proc (mmap_top old) (stack_top old) usr pg (disk k)\<rparr>;
       k \<leftarrow> foldM (copy_fd old p) [0..<FDS_COUNT] k;
       Some (p, k)
     }
   }"

definition new_thread_stacks ::
    "ptr \<Rightarrow> proc_t \<Rightarrow> thread_t \<Rightarrow> 'a sched_state_scheme \<Rightarrow> (thread_t \<times> 'a sched_state_scheme) option" where
  "new_thread_stacks parent pr t s =
     (if user pr \<noteq> 0 then do {
        (user_stack, s) \<leftarrow> sched_pcalloc 0x40 s;
        (kstack, s) \<leftarrow> sched_pcalloc 0x40 s;
        let virt_stack = stack_top pr;
        s \<leftarrow> upd_proc parent (\<lambda>pr. pr\<lparr>stack_top := stack_top pr - SCHED_STACK_SIZE\<rparr>) s;
        s \<leftarrow> vmm_mmap_range (pagemap pr) user_stack virt_stack SCHED_STACK_SIZE (MAP_ANON OR MAP_PRIVATE OR MAP_FIXED)
               (PROT_READ OR PROT_WRITE OR PROT_EXEC) s;
        Some (t\<lparr>regs := (regs t)\<lparr>r_rsp := virt_stack + SCHED_STACK_SIZE\<rparr>,
                kernel_stack := kstack + PHYS_MEM_OFFSET + SCHED_STACK_SIZE\<rparr>, s)
      } else do {
        (kstack, s) \<leftarrow> sched_pcalloc 0x40 s;
        Some (t\<lparr>regs := (regs t)\<lparr>r_rsp := kstack + PHYS_MEM_OFFSET + SCHED_STACK_SIZE\<rparr>,
                kernel_stack := kstack + PHYS_MEM_OFFSET + SCHED_STACK_SIZE\<rparr>, s)
      })"

definition sched_new_thread ::
    "ptr \<Rightarrow> ptr \<Rightarrow> u64 \<Rightarrow> int \<Rightarrow> int \<Rightarrow> int \<Rightarrow> bool \<Rightarrow> 'a sched_state_scheme \<Rightarrow> (ptr \<times> 'a sched_state_scheme) option" where
  "sched_new_thread th parent addr prio uid gid auto_start s = do {
     let (th, s) = (if th = 0 then new_obj s else (th, s));
     if parent = 0 then Some (0, s)
     else do {
       pr \<leftarrow> procs s parent;
       let t = \<lparr>t_parent = parent, alive = 1, t_gid = gid, t_uid = uid, tid = current_tid s, t_lock = UNLOCK lock_init, queued = 0,
                priority = prio, kernel_stack = 0, which_event = 0,
                regs = zero_regs\<lparr>r_rip := addr, r_cs := (if user pr \<noteq> 0 then GDT_SEG_UCODE else GDT_SEG_KCODE),
                  r_ss := (if user pr \<noteq> 0 then GDT_SEG_UDATA else GDT_SEG_KDATA), r_rflags := 0x202, r_rax := 0\<rparr>,
                fpu_storage = fpu s\<rparr>;
       (t, s) \<leftarrow> new_thread_stacks parent pr t (s\<lparr>current_tid := current_tid s + 1\<rparr>);
       let s = set_thread th t s;
       s \<leftarrow> upd_proc parent (\<lambda>pr. pr\<lparr>p_threads := p_threads pr @ [th]\<rparr>) s;
       s \<leftarrow> (if auto_start then sched_enqueue th s else Some s);
       Some (th, s)
     }
   }"

definition sched_fork :: "'a kern_env \<Rightarrow> registers_t \<Rightarrow> 'a kern \<Rightarrow> (u64 \<times> 'a kern) option" where
  "sched_fork env rs k = do {
     let old_th = current_thread (locals (disk k));
     old_thread \<leftarrow> thrs (disk k) old_th;
     (new_proc, k) \<leftarrow> sched_new_proc env (t_parent old_thread) 0 1 k;
     let (th, s) = new_obj (disk k);
     let t = \<lparr>t_parent = new_proc, alive = 0, t_gid = 0, t_uid = 0, tid = current_tid s, t_lock = lock_init, queued = 0,
              priority = priority old_thread, kernel_stack = 0, which_event = 0,
              regs = rs\<lparr>r_rax := 0, r_cs := GDT_SEG_UCODE, r_ss := GDT_SEG_UDATA\<rparr>, fpu_storage = replicate 512 0\<rparr>;
     let s = s\<lparr>current_tid := current_tid s + 1\<rparr>;
     s \<leftarrow> upd_proc (t_parent old_thread) (\<lambda>pr. pr\<lparr>children := children pr @ [new_proc]\<rparr>) s;
     s \<leftarrow> upd_proc new_proc (\<lambda>pr. pr\<lparr>p_threads := p_threads pr @ [th]\<rparr>) s;
     (kstack, s) \<leftarrow> sched_pcalloc 0x40 s;
     let t = t\<lparr>kernel_stack := kstack + PHYS_MEM_OFFSET + SCHED_STACK_SIZE, fpu_storage := fpu_storage old_thread\<rparr>;
     let s = s\<lparr>vm_mem := memcpy (vm_mem s) (direct (kernel_stack t - SCHED_STACK_SIZE))
                (direct (kernel_stack old_thread - SCHED_STACK_SIZE)) SCHED_STACK_SIZE\<rparr>;
     s \<leftarrow> sched_enqueue th (set_thread th t s);
     pr \<leftarrow> procs s new_proc;
     Some (pid pr, k\<lparr>disk := s\<rparr>)
   }"

definition sched_destroy_thread :: "ptr \<Rightarrow> 'a sched_state_scheme \<Rightarrow> 'a sched_state_scheme option" where
  "sched_destroy_thread th s = do {
     t \<leftarrow> thrs s th;
     p \<leftarrow> pmm_free_pages (kernel_stack t) 0x40 (vm_pmm s);
     let s = s\<lparr>vm_pmm := p\<rparr>;
     if 0 \<le> priority t \<and> nat (priority t) < length (queues s)
     then Some (s\<lparr>queues := (queues s)[nat (priority t) := remove1 th (queues s ! nat (priority t))],
                  thrs := (thrs s)(th := None)\<rparr>)
     else None
   }"

text \<open>The state in which the exiting thread spins.\<close>

definition sched_exit :: "int \<Rightarrow> 'a sched_state_scheme \<Rightarrow> 'a sched_state_scheme option" where
  "sched_exit code s = do {
     t \<leftarrow> thrs s (current_thread (locals s));
     pr \<leftarrow> procs s (t_parent t);
     ev \<leftarrow> event_trigger (p_event pr) (events s);
     Some (s\<lparr>events := ev\<rparr>)
   }"

text \<open>
  \<open>child\<close> is an uninitialised variable and the array of one event an uninitialised heap block;
  \<open>poll\<close> is what other threads do to the events while the call waits.
\<close>

definition sched_waitpid ::
    "ptr \<Rightarrow> ptr \<Rightarrow> (nat \<Rightarrow> event_store \<Rightarrow> event_store) \<Rightarrow> int \<Rightarrow> u32 \<Rightarrow> 'a sched_state_scheme \<Rightarrow> (int \<times> 'a sched_state_scheme) option" where
  "sched_waitpid child0 event0 poll wpid options s = do {
     t \<leftarrow> thrs s (current_thread (locals s));
     pr \<leftarrow> procs s (t_parent t);
     if wpid \<noteq> -1 \<and> wpid \<le> 0 then Some (- EINVAL, s)
     else do {
       kids \<leftarrow> those (map (procs s) (children pr));
       let (evs, child) = (if wpid = -1 then (map p_event kids, child0)
             else fold (\<lambda>(c, kid) (evs, child). if pid kid = word_of_int wpid then ([p_event kid], c) else (evs, child))
                    (zip (children pr) kids) ([event0], child0));
       if wpid \<noteq> -1 \<and> evs = [0] then Some (- ECHILD, s)
       else do {
         (which, ev) \<leftarrow> event_await poll evs (options AND WNOHANG = 0) (events s);
         let s = s\<lparr>events := ev\<rparr>;
         if which = -1 then Some (0, s)
         else do {
           let child = (if child = 0 then children pr ! nat which else child);
           kid \<leftarrow> procs s child;
           Some (sint (ucast (pid kid) :: u32), s)
         }
       }
     }
   }"


section \<open>The schedule\<close>

partial_function (option) next_thread_loop ::
    "u64 \<Rightarrow> ptr list \<Rightarrow> ptr \<Rightarrow> u64 \<Rightarrow> (ptr \<Rightarrow> thread_t option) \<Rightarrow> ((ptr \<times> u64) option \<times> (ptr \<Rightarrow> thread_t option)) option" where
  "next_thread_loop orig_i q cur index thr = do {
     let index = (if unat index \<ge> length q then 0 else index);
     if q = [] then None
     else do {
       let th = q ! unat index;
       if th = cur then Some (Some (th, index), thr)
       else do {
         t \<leftarrow> thr th;
         let (got, l) = LOCK_ACQUIRE (t_lock t);
         let thr = thr(th \<mapsto> t\<lparr>t_lock := l\<rparr>);
         if got then Some (Some (th, index), thr)
         else if index = orig_i then Some (None, thr)
         else next_thread_loop orig_i q cur (index + 1) thr
       }
     }
   }"

definition sched_get_next_thread ::
    "u64 \<Rightarrow> nat \<Rightarrow> 'a sched_state_scheme \<Rightarrow> ((ptr \<times> u64) option \<times> 'a sched_state_scheme) option" where
  "sched_get_next_thread orig_i prio s = do {
     (r, thr) \<leftarrow> next_thread_loop orig_i (queues s ! prio) (current_thread (locals s)) (orig_i + 1) (thrs s);
     Some (r, s\<lparr>thrs := thr\<rparr>)
   }"

definition next_priority :: "u8 \<times> u8 \<Rightarrow> u8 \<times> u8" where
  "next_priority = (\<lambda>(c, peg). let c = c + 1 in
     if c > peg then (0, let peg = peg + 1 in if peg = 20 then 0 else peg) else (c, peg))"

partial_function (option) pick_priority :: "ptr list list \<Rightarrow> u8 \<times> u8 \<Rightarrow> (u8 \<times> u8) option" where
  "pick_priority qs cp =
     (let cp = next_priority cp in
      if unat (fst cp) < length qs
      then if qs ! unat (fst cp) = [] then pick_priority qs cp else Some cp
      else None)"

datatype sched_result = Resume | Run registers_t

definition schedule :: "registers_t \<Rightarrow> 'a sched_state_scheme \<Rightarrow> (sched_result \<times> 'a sched_state_scheme) option" where
  "schedule rs s = do {
     let s = s\<lparr>lapic := lapic_timer_stop (lapic s)\<rparr>;
     let (got, l) = LOCK_ACQUIRE (sched_lock s);
     let s = s\<lparr>sched_lock := l\<rparr>;
     if \<not> got then Some (Resume, eoi_and_rearm s)
     else do {
       let cur = current_thread (locals s);
       let old_priority = current_priority (locals s);
       let old_index = last_run_thread_index (locals s) ! unat old_priority;
       (prio, peg) \<leftarrow> pick_priority (queues s) (old_priority, current_priority_peg (locals s));
       let s = s\<lparr>locals := (locals s)\<lparr>current_priority := prio, current_priority_peg := peg\<rparr>\<rparr>;
       (next, s) \<leftarrow> sched_get_next_thread (last_run_thread_index (locals s) ! unat prio) (unat prio) s;
       case next of
         None \<Rightarrow> Some (Resume, unlock_sched (eoi_and_rearm s))
       | Some (th, new_index) \<Rightarrow>
           if cur \<noteq> 0 \<and> prio = old_priority \<and> new_index = old_index
           then Some (Resume, unlock_sched (eoi_and_rearm s))
           else do {
             s \<leftarrow> (if cur \<noteq> 0
                   then upd_thread cur (\<lambda>t. t\<lparr>fpu_storage := fpu s, regs := rs, t_lock := UNLOCK (t_lock t)\<rparr>) s
                   else Some s);
             t \<leftarrow> thrs s th;
             let s = s\<lparr>locals := (locals s)\<lparr>current_thread := th, tss_rsp0 := kernel_stack t,
                        last_run_thread_index := (last_run_thread_index (locals s))[unat prio := new_index]\<rparr>,
                       fpu := fpu_storage t\<rparr>;
             let s = eoi_and_rearm s;
             pr \<leftarrow> procs s (t_parent t);
             s \<leftarrow> vmm_load_pagemap (pagemap pr) s;
             Some (Run (regs t), unlock_sched s)
           }
     }
   }"


section \<open>Starting programs\<close>

text \<open>Strings are pushed downwards, each with its terminating NUL.\<close>

definition push_strings :: "cstring list \<Rightarrow> u64 \<times> mem \<Rightarrow> u64 \<times> mem" where
  "push_strings strs = fold (\<lambda>str (stack, m).
     let stack = stack - (of_nat (length str) + 1) in (stack, put_bytes m stack (str @ [0]))) strs"

text \<open>The table of pointers, below a null pointer; \<open>sa\<close> is the address the strings get.\<close>

definition push_pointers :: "cstring list \<Rightarrow> u64 \<times> u64 \<times> mem \<Rightarrow> u64 \<times> u64 \<times> mem" where
  "push_pointers strs = (\<lambda>(stack, sa, m).
     let m = store64 m (stack - 8) 0;
         stack = stack - 8 - 8 * of_nat (length strs);
         (sa, m) = fold (\<lambda>(i, str) (sa, m). let sa = sa - (of_nat (length str) + 1) in
                            (sa, store64 m (stack + of_nat i * 8) sa)) (enumerate 0 strs) (sa, m)
     in (stack, sa, m))"

definition args_of :: "cstring list option \<Rightarrow> cstring list" where
  "args_of a = (case a of None \<Rightarrow> [] | Some l \<Rightarrow> l)"

definition sched_load_args_to_stack ::
    "u64 \<Rightarrow> u64 \<Rightarrow> cstring list option \<Rightarrow> cstring list option \<Rightarrow> registers_t \<Rightarrow> mem \<Rightarrow> registers_t \<times> mem" where
  "sched_load_args_to_stack phys virt argv env rs m =
     (let (stack, m) = push_strings (args_of argv) (push_strings (args_of env) (phys, m));
          stack = stack - (stack AND 0xf);
          (stack, sa, m) = (if env = None then (stack, virt, m) else push_pointers (args_of env) (stack, virt, m));
          envp_addr = stack;
          (stack, sa, m) = (if argv = None then (stack, sa, m) else push_pointers (args_of argv) (stack, sa, m));
          argv_addr = stack;
          rs = rs\<lparr>r_rdi := of_nat (length (args_of argv)),
                  r_rsi := (if argv \<noteq> None then virt - (phys - argv_addr) else 0),
                  r_rdx := (if env \<noteq> None then virt - (phys - envp_addr) else 0),
                  r_rsp := r_rsp rs - (phys - stack)\<rparr>;
          rs = rs\<lparr>r_rsp := r_rsp rs - (r_rsp rs AND 8)\<rparr>
      in (rs, m))"

definition load_args :: "ptr \<Rightarrow> ptr \<Rightarrow> cstring list option \<Rightarrow> cstring list option \<Rightarrow> 'a sched_state_scheme \<Rightarrow> 'a sched_state_scheme option" where
  "load_args th pg argv env s = do {
     t \<leftarrow> thrs s th;
     a \<leftarrow> vmm_range_to_addr pg (r_rsp (regs t) - SCHED_STACK_SIZE) s;
     let (rs, m) = sched_load_args_to_stack (a + SCHED_STACK_SIZE + PHYS_MEM_OFFSET) (r_rsp (regs t)) argv env (regs t) (vm_mem s);
     Some (set_thread th (t\<lparr>regs := rs\<rparr>) (s\<lparr>vm_mem := m\<rparr>))
   }"

definition open_std ::
    "'a kern_env \<Rightarrow> 'a kern_vfs \<Rightarrow> ptr \<Rightarrow> nat \<Rightarrow> u32 \<Rightarrow> cstring option \<Rightarrow> 'a kern \<Rightarrow> 'a kern option" where
  "open_std env v p fd flags name k = (case name of None \<Rightarrow> Some k | Some path \<Rightarrow> do {
     (fp, k) \<leftarrow> vfs_open env v path k;
     let (sfile, s) = new_sfile \<lparr>sf_file = fp, sf_flags = flags\<rparr> (disk k);
     s \<leftarrow> upd_proc p (\<lambda>pr. pr\<lparr>fds := (fds pr)[fd := sfile]\<rparr>) s;
     Some (k\<lparr>disk := s\<rparr>)
   })"

text \<open>The entry point stays uninitialised (\<open>entry0\<close>) when the loader rejects the file.\<close>

definition sched_run_program ::
    "mem \<Rightarrow> u64 \<Rightarrow> 'a kern_env \<Rightarrow> 'a kern_vfs \<Rightarrow> cstring \<Rightarrow> cstring list option \<Rightarrow> cstring list option \<Rightarrow>
     cstring option \<Rightarrow> cstring option \<Rightarrow> cstring option \<Rightarrow> bool \<Rightarrow> 'a kern \<Rightarrow> (sched_result \<times> 'a kern) option" where
  "sched_run_program junk entry0 env v path argv envp std_in std_out std_err replace k = do {
     (new_pg, s) \<leftarrow> vmm_create_new_pagemap (disk k);
     (_, entry, k) \<leftarrow> elf_run_binary junk env v path new_pg (k\<lparr>disk := s\<rparr>);
     let entry = (case entry of None \<Rightarrow> entry0 | Some e \<Rightarrow> e);
     let cur = current_thread (locals (disk k));
     if \<not> replace then do {
       (p, k) \<leftarrow> sched_new_proc env 0 new_pg 1 k;
       t \<leftarrow> thrs (disk k) cur;
       s \<leftarrow> upd_proc p (\<lambda>pr. pr\<lparr>p_parent := t_parent t\<rparr>) (disk k);
       k \<leftarrow> open_std env v p 0 1 std_in (k\<lparr>disk := s\<rparr>);
       k \<leftarrow> open_std env v p 1 2 std_out k;
       k \<leftarrow> open_std env v p 2 2 std_err k;
       (th, s) \<leftarrow> sched_new_thread 0 p entry (priority t) (t_uid t) (t_gid t) False (disk k);
       pr \<leftarrow> procs s p;
       s \<leftarrow> load_args th (pagemap pr) argv envp s;
       s \<leftarrow> sched_enqueue th s;
       Some (Resume, k\<lparr>disk := s\<rparr>)
     } else do {
       t \<leftarrow> thrs (disk k) cur;
       pr \<leftarrow> procs (disk k) (t_parent t);
       let old_pg = pagemap pr;
       let s = set_proc (t_parent t) (pr\<lparr>mmap_top := SCHED_MMAP_TOP, stack_top := SCHED_STACK_TOP, pid := current_pid (disk k),
                 pagemap := new_pg, mmaped_len := 0\<rparr>) (disk k);
       let s = s\<lparr>current_pid := current_pid s + 1\<rparr>;
       (_, s) \<leftarrow> sched_new_thread cur (t_parent t) entry (priority t) (t_uid t) (t_gid t) False s;
       s \<leftarrow> lock_sched s;
       s \<leftarrow> load_args cur new_pg argv envp s;
       s \<leftarrow> vmm_load_pagemap new_pg s;
       s \<leftarrow> vmm_destroy_pagemap old_pg s;
       let s = unlock_sched s;
       t \<leftarrow> thrs s cur;
       Some (Run (regs t), k\<lparr>disk := s\<rparr>)
     }
   }"

definition init_sched :: "'a kern_env \<Rightarrow> u64 \<Rightarrow> 'a kern \<Rightarrow> 'a kern option" where
  "init_sched env start_addr k = do {
     let k = k\<lparr>disk := (disk k)\<lparr>queues := replicate PRIORITY_LEVELS []\<rparr>\<rparr>;
     (p, k) \<leftarrow> sched_new_proc env 0 0 0 k;
     (_, s) \<leftarrow> sched_new_thread 0 p start_addr 0 0 0 True ((disk k)\<lparr>kernel_proc := p\<rparr>);
     s \<leftarrow> sched_await (s\<lparr>sched_has_started := True\<rparr>);
     Some (k\<lparr>disk := s\<rparr>)
   }"


section \<open>Lemmas: choosing the priority\<close>

text \<open>How far the scan is from priority \<open>p\<close>: it first has to wrap around when it is past it.\<close>

definition scan_distance :: "nat \<Rightarrow> nat \<times> nat \<Rightarrow> nat" where
  "scan_distance p = (\<lambda>(c, peg). (if peg < p \<or> peg = p \<and> c < p then 0 else 1000) + 25 * (20 - peg) + (25 - c))"

lemma next_priority_unat:
  assumes "unat c \<le> unat peg" and "unat peg < 20"
  shows "map_prod unat unat (next_priority (c, peg)) =
    (if unat c < unat peg then (unat c + 1, unat peg) else (0, if unat peg = 19 then 0 else unat peg + 1))"
proof -
  have c: "unat (c + 1) = unat c + 1" and p: "unat (peg + 1) = unat peg + 1"
    using assms by (simp_all add: unat_add_small)
  have "peg + 1 = 20 \<longleftrightarrow> unat peg = 19" using p by (auto simp: word_unat_eq_iff)
  then show ?thesis using c p by (auto simp: next_priority_def word_less_nat_alt Let_def)
qed

lemma pick_priority_run:
  assumes "length qs = PRIORITY_LEVELS" and "p < PRIORITY_LEVELS" and "qs ! p \<noteq> []"
    and "unat c \<le> unat peg" and "unat peg < 20"
  shows "\<exists>c' peg'. pick_priority qs (c, peg) = Some (c', peg') \<and> unat c' \<le> unat peg' \<and> unat peg' < 20 \<and> qs ! unat c' \<noteq> []"
  using assms(4,5)
proof (induction "scan_distance p (unat c, unat peg)" arbitrary: c peg rule: less_induct)
  case less
  obtain c1 peg1 where n: "next_priority (c, peg) = (c1, peg1)" by fastforce
  have u: "(unat c1, unat peg1) =
      (if unat c < unat peg then (unat c + 1, unat peg) else (0, if unat peg = 19 then 0 else unat peg + 1))"
    using next_priority_unat [OF less.prems] n by simp
  then have b: "unat c1 \<le> unat peg1" "unat peg1 < 20" using less.prems by (auto split: if_splits)
  show ?case
  proof (cases "qs ! unat c1 = []")
    case False
    then show ?thesis using n b assms(1) by (subst pick_priority.simps) simp
  next
    case True
    then have "unat c1 \<noteq> p" using assms(3) by auto
    then have "scan_distance p (unat c1, unat peg1) < scan_distance p (unat c, unat peg)"
      using u less.prems assms(2) by (auto simp: scan_distance_def split: if_splits)
    from less.hyps [OF this b] show ?thesis
      using n b assms(1) True by (subst pick_priority.simps) simp
  qed
qed


section \<open>Lemmas: round robin inside a priority\<close>

lemma LOCK_ACQUIRE_cases:
  "LOCK_ACQUIRE l = (if lock_free l then (True, lock_held l) else (False, l))"
proof -
  have "bit b 0 \<Longrightarrow> b OR 1 = b" for b :: u32
    by (intro bit_word_eqI) (auto simp: bit_simps)
  then show ?thesis by (simp add: LOCK_ACQUIRE_def btsl0_def lock_free_def lock_held_def)
qed

definition available :: "ptr list \<Rightarrow> ptr \<Rightarrow> (ptr \<Rightarrow> thread_t option) \<Rightarrow> nat \<Rightarrow> bool" where
  "available q cur thr i \<longleftrightarrow> q ! i = cur \<or> (\<exists>t. thr (q ! i) = Some t \<and> lock_free (t_lock t))"

text \<open>The first available thread in this order of positions, locked unless it is the current one.\<close>

definition take_first ::
    "ptr list \<Rightarrow> ptr \<Rightarrow> (ptr \<Rightarrow> thread_t option) \<Rightarrow> nat list \<Rightarrow> (ptr \<times> u64) option \<times> (ptr \<Rightarrow> thread_t option)" where
  "take_first q cur thr order = (case find (available q cur thr) order of
      None \<Rightarrow> (None, thr)
    | Some i \<Rightarrow> (Some (q ! i, of_nat i), if q ! i = cur then thr
        else thr(q ! i := map_option (\<lambda>t. t\<lparr>t_lock := lock_held (t_lock t)\<rparr>) (thr (q ! i)))))"

lemma next_thread_step:
  assumes "i < length q" and "length q < 2 ^ 64" and "\<forall>th\<in>set q. thr th \<noteq> None"
  shows "next_thread_loop orig q cur (of_nat i) thr =
    (if available q cur thr i then Some (take_first q cur thr [i])
     else if of_nat i = orig then Some (None, thr)
     else next_thread_loop orig q cur (of_nat (Suc i)) thr)"
proof -
  have i: "unat (of_nat i :: u64) = i" using assms by (simp add: unat_of_nat_id)
  obtain t where t: "thr (q ! i) = Some t" using assms(1,3) nth_mem by blast
  have ne: "q \<noteq> []" using assms(1) by auto
  have busy: "t\<lparr>t_lock := t_lock t\<rparr> = t" by simp
  show ?thesis
    using assms(1) ne t busy fun_upd_triv [of thr "q ! i"]
    by (subst next_thread_loop.simps)
       (auto simp: i LOCK_ACQUIRE_cases available_def take_first_def add.commute Let_def split: if_splits)
qed

lemma take_first_Cons:
  "take_first q cur thr (i # order) = (if available q cur thr i then take_first q cur thr [i] else take_first q cur thr order)"
  by (simp add: take_first_def)

lemma next_thread_up_to:
  assumes "orig < length q" and "length q < 2 ^ 64" and "\<forall>th\<in>set q. thr th \<noteq> None" and "i \<le> orig"
  shows "next_thread_loop (of_nat orig) q cur (of_nat i) thr = Some (take_first q cur thr [i..<Suc orig])"
  using assms(4)
proof (induction "orig - i" arbitrary: i)
  case 0
  then have "i = orig" by simp
  then show ?case using next_thread_step [OF assms(1-3)] by (simp add: take_first_def)
next
  case (Suc n)
  then have i: "i < orig" "i < length q" "[i..<Suc orig] = i # [Suc i..<Suc orig]"
    using assms(1) by (simp_all add: upt_conv_Cons)
  have ne: "(of_nat i :: u64) \<noteq> of_nat orig"
  proof
    assume eq: "(of_nat i :: u64) = of_nat orig"
    have "unat (of_nat i :: u64) = i" "unat (of_nat orig :: u64) = orig" using i assms(1,2) by (simp_all add: unat_of_nat_id)
    with eq i(1) show False by simp
  qed
  show ?case
    using next_thread_step [OF i(2) assms(2,3), of "of_nat orig" cur] Suc.hyps(1) [of "Suc i"] Suc.hyps(2) i(1) ne
    unfolding i(3) take_first_Cons [of q cur thr i "[Suc i..<Suc orig]"] by auto
qed


lemma next_thread_wrap:
  assumes "q \<noteq> []" and "length q < 2 ^ 64"
  shows "next_thread_loop orig q cur (of_nat (length q)) thr = next_thread_loop orig q cur 0 thr"
  using assms by (subst (1 2) next_thread_loop.simps) (simp add: unat_of_nat_id)

lemma next_thread_above:
  assumes "orig < length q" and "length q < 2 ^ 64" and "\<forall>th\<in>set q. thr th \<noteq> None" and "orig < i" and "i \<le> length q"
  shows "next_thread_loop (of_nat orig) q cur (of_nat i) thr = Some (take_first q cur thr ([i..<length q] @ [0..<Suc orig]))"
  using assms(4,5)
proof (induction "length q - i" arbitrary: i)
  case 0
  then have "i = length q" by simp
  then show ?case
    using next_thread_wrap [of q "of_nat orig" cur thr] assms(1,2) next_thread_up_to [OF assms(1-3), of 0 cur] by fastforce
next
  case (Suc n)
  then have i: "i < length q" "[i..<length q] = i # [Suc i..<length q]" by (simp_all add: upt_conv_Cons)
  have ne: "(of_nat i :: u64) \<noteq> of_nat orig"
  proof
    assume eq: "(of_nat i :: u64) = of_nat orig"
    have "unat (of_nat i :: u64) = i" "unat (of_nat orig :: u64) = orig" using i assms(1,2) by (simp_all add: unat_of_nat_id)
    with eq Suc.prems(1) show False by simp
  qed
  show ?case
    using next_thread_step [OF i(1) assms(2,3), of "of_nat orig" cur] Suc.hyps(1) [of "Suc i"] Suc.hyps(2) Suc.prems i(1) ne
    unfolding i(2) append_Cons take_first_Cons [of q cur thr i "[Suc i..<length q] @ [0..<Suc orig]"] by auto
qed

text \<open>The search visits the positions after the last one run, then those from the front.\<close>

lemma next_thread_round_robin:
  assumes "unat orig < length q" and "length q < 2 ^ 64" and "\<forall>th\<in>set q. thr th \<noteq> None"
  shows "next_thread_loop orig q cur (orig + 1) thr =
    Some (take_first q cur thr ([Suc (unat orig)..<length q] @ [0..<Suc (unat orig)]))"
  using next_thread_above [OF assms, of "Suc (unat orig)" cur] assms(1) by (simp add: add.commute)


section \<open>The invariant of the schedule\<close>

text \<open>
  One processor: the current thread is the only one whose lock is held, and it stands where the
  records of the processor say it does.
\<close>

definition sched_ok :: "'a sched_state_scheme \<Rightarrow> bool" where
  "sched_ok s \<longleftrightarrow> lock_free (sched_lock s) \<and>
     length (queues s) = PRIORITY_LEVELS \<and> length (last_run_thread_index (locals s)) = PRIORITY_LEVELS \<and>
     distinct (concat (queues s)) \<and> 0 \<notin> set (concat (queues s)) \<and>
     (\<exists>p<PRIORITY_LEVELS. queues s ! p \<noteq> []) \<and>
     (\<forall>p<PRIORITY_LEVELS. length (queues s ! p) < 2 ^ 63 \<and>
        (queues s ! p \<noteq> [] \<longrightarrow> unat (last_run_thread_index (locals s) ! p) < length (queues s ! p))) \<and>
     unat (current_priority (locals s)) \<le> unat (current_priority_peg (locals s)) \<and>
     unat (current_priority_peg (locals s)) < PRIORITY_LEVELS \<and>
     (\<forall>th\<in>set (concat (queues s)). \<exists>t pr pm. thrs s th = Some t \<and> procs s (t_parent t) = Some pr \<and>
        pagemaps s (pagemap pr) = Some pm \<and> (th \<noteq> current_thread (locals s) \<longrightarrow> lock_free (t_lock t))) \<and>
     (let p = unat (current_priority (locals s)) in
      current_thread (locals s) \<noteq> 0 \<longrightarrow> queues s ! p \<noteq> [] \<and>
        queues s ! p ! unat (last_run_thread_index (locals s) ! p) = current_thread (locals s))"

text \<open>The position that follows in a queue.\<close>

definition next_pos :: "nat \<Rightarrow> ptr list \<Rightarrow> nat" where
  "next_pos i q = (if Suc i < length q then Suc i else 0)"

lemma take_first_next:
  assumes "orig < length q" and "\<forall>th\<in>set q. th \<noteq> cur \<longrightarrow> (\<exists>t. thr th = Some t \<and> lock_free (t_lock t))"
  shows "take_first q cur thr ([Suc orig..<length q] @ [0..<Suc orig]) = take_first q cur thr [next_pos orig q]"
proof -
  have av: "available q cur thr i" if "i < length q" for i
    using that assms(2) nth_mem [OF that] by (auto simp: available_def)
  obtain rest where "[Suc orig..<length q] @ [0..<Suc orig] = next_pos orig q # rest"
    by (cases "Suc orig < length q") (auto simp: next_pos_def upt_conv_Cons simp del: upt_Suc)
  moreover have "next_pos orig q < length q" using assms(1) by (auto simp: next_pos_def)
  ultimately show ?thesis using av [of "next_pos orig q"] by (simp add: take_first_Cons [of q cur thr _ rest])
qed

lemma sched_get_next_run:
  assumes ok: "sched_ok s" and p: "p < PRIORITY_LEVELS" "queues s ! p \<noteq> []"
    and orig: "orig = last_run_thread_index (locals s) ! p"
    and s': "queues s' = queues s" "thrs s' = thrs s" "current_thread (locals s') = current_thread (locals s)"
  defines "i \<equiv> next_pos (unat orig) (queues s ! p)"
  shows "i < length (queues s ! p) \<and> sched_get_next_thread orig p s' = Some (Some (queues s ! p ! i, of_nat i),
    if queues s ! p ! i = current_thread (locals s) then s'
    else s'\<lparr>thrs := (thrs s)(queues s ! p ! i :=
      map_option (\<lambda>t. t\<lparr>t_lock := lock_held (t_lock t)\<rparr>) (thrs s (queues s ! p ! i)))\<rparr>)"
proof -
  let ?q = "queues s ! p" and ?cur = "current_thread (locals s)"
  have len: "length ?q < 2 ^ 63" "unat orig < length ?q" using ok p orig by (auto simp: sched_ok_def)
  have "p < length (queues s)" using ok p(1) by (simp add: sched_ok_def)
  then have sub: "set ?q \<subseteq> set (concat (queues s))" using nth_mem by fastforce
  have thr: "\<forall>th\<in>set ?q. th \<noteq> ?cur \<longrightarrow> (\<exists>t. thrs s th = Some t \<and> lock_free (t_lock t))" "\<forall>th\<in>set ?q. thrs s th \<noteq> None"
    using ok sub unfolding sched_ok_def by blast+
  have i: "i < length ?q" using len(2) by (auto simp: i_def next_pos_def)
  then have av: "available ?q ?cur (thrs s) i"
    using thr(1) nth_mem [OF i] by (auto simp: available_def)
  have "next_thread_loop orig ?q ?cur (orig + 1) (thrs s) = Some (take_first ?q ?cur (thrs s) [i])"
    using next_thread_round_robin [OF len(2) _ thr(2)] take_first_next [OF len(2) thr(1)] len(1) by (simp add: i_def)
  then show ?thesis
    using i av s' by (auto simp: sched_get_next_thread_def take_first_def)
qed


lemma concat_position:
  assumes "distinct (concat qs)" and "p < length qs" and "p' < length qs" and "i < length (qs ! p)" and "i' < length (qs ! p')"
    and "qs ! p ! i = qs ! p' ! i'"
  shows "p = p' \<and> i = i'"
proof -
  have "p = p'"
  proof (rule ccontr)
    assume ne: "p \<noteq> p'"
    have "qs ! p ! i \<in> set (qs ! p) \<inter> set (qs ! p')" using assms(4-6) nth_mem by (metis IntI)
    moreover have "set (qs ! p) \<inter> set (qs ! p') = {}"
      using ne assms(1-3)
    proof (induction qs arbitrary: p p')
      case (Cons q qs)
      have disj: "set q \<inter> set (qs ! n) = {}" if "n < length qs" for n
        using Cons.prems(2) that nth_mem [OF that] by fastforce
      show ?case using Cons.prems Cons.IH [of "p - 1" "p' - 1"] disj [of "p - 1"] disj [of "p' - 1"]
        by (cases p; cases p') (auto simp: Int_commute)
    qed simp
    ultimately show False by blast
  qed
  moreover have "distinct (qs ! p)" using assms(1,2) by (simp add: distinct_concat_iff)
  ultimately show ?thesis using assms(4-6) by (simp add: nth_eq_iff_index_eq)
qed


text \<open>The states of one run: with the lock and the new priority, and after the thread was taken.\<close>

definition sched_entered :: "u8 \<Rightarrow> u8 \<Rightarrow> 'a sched_state_scheme \<Rightarrow> 'a sched_state_scheme" where
  "sched_entered prio peg s = s\<lparr>lapic := lapic_timer_stop (lapic s), sched_lock := lock_held (sched_lock s),
     locals := (locals s)\<lparr>current_priority := prio, current_priority_peg := peg\<rparr>\<rparr>"

lemma schedule_chosen:
  assumes ok: "sched_ok s"
  shows "\<exists>prio peg. pick_priority (queues s) (current_priority (locals s), current_priority_peg (locals s)) = Some (prio, peg) \<and>
    unat prio < PRIORITY_LEVELS \<and> unat prio \<le> unat peg \<and> unat peg < PRIORITY_LEVELS \<and> queues s ! unat prio \<noteq> []"
proof -
  obtain p where "p < PRIORITY_LEVELS" "queues s ! p \<noteq> []" using ok by (auto simp: sched_ok_def)
  then show ?thesis
    using pick_priority_run [of "queues s" p "current_priority (locals s)" "current_priority_peg (locals s)"] ok
    by (fastforce simp: sched_ok_def)
qed

lemma sched_ok_thread:
  assumes "sched_ok s" and "p < PRIORITY_LEVELS" and "i < length (queues s ! p)"
  obtains t pr pm where "thrs s (queues s ! p ! i) = Some t" "procs s (t_parent t) = Some pr" "pagemaps s (pagemap pr) = Some pm"
    "queues s ! p ! i \<noteq> 0" "queues s ! p ! i \<noteq> current_thread (locals s) \<Longrightarrow> lock_free (t_lock t)"
proof -
  have "queues s ! p ! i \<in> set (concat (queues s))"
  proof -
    have len: "p < length (queues s)" using assms(1,2) by (simp add: sched_ok_def)
    show ?thesis unfolding set_concat using nth_mem [OF len] nth_mem [OF assms(3)] by blast
  qed
  then show thesis using assms(1) that unfolding sched_ok_def by metis
qed

lemma schedule_same:
  assumes ok: "sched_ok s" and pick: "pick_priority (queues s) (current_priority (locals s), current_priority_peg (locals s)) = Some (prio, peg)"
    and prio: "unat prio < PRIORITY_LEVELS" "unat prio \<le> unat peg" "unat peg < PRIORITY_LEVELS" "queues s ! unat prio \<noteq> []"
    and i: "i = next_pos (unat (last_run_thread_index (locals s) ! unat prio)) (queues s ! unat prio)"
    and th: "queues s ! unat prio ! i = current_thread (locals s)"
  shows "schedule rs s = Some (Resume, unlock_sched (eoi_and_rearm (sched_entered prio peg s))) \<and>
    prio = current_priority (locals s) \<and> of_nat i = last_run_thread_index (locals s) ! unat prio"
proof -
  let ?s1 = "sched_entered prio peg s" and ?old = "current_priority (locals s)"
  have get: "i < length (queues s ! unat prio)" "sched_get_next_thread (last_run_thread_index (locals s) ! unat prio) (unat prio) ?s1 =
      Some (Some (current_thread (locals s), of_nat i), ?s1)"
    using sched_get_next_run [OF ok prio(1,4) refl, of ?s1] th unfolding i [symmetric] by (simp_all add: sched_entered_def)
  have cur: "current_thread (locals s) \<noteq> 0" using sched_ok_thread [OF ok prio(1) get(1)] th by metis
  then have old: "queues s ! unat ?old ! unat (last_run_thread_index (locals s) ! unat ?old) = current_thread (locals s)"
    "unat ?old < PRIORITY_LEVELS" "unat (last_run_thread_index (locals s) ! unat ?old) < length (queues s ! unat ?old)"
    using ok by (auto simp: sched_ok_def Let_def)
  have "unat ?old = unat prio \<and> unat (last_run_thread_index (locals s) ! unat ?old) = i"
    using concat_position [of "queues s" "unat ?old" "unat prio"] ok old prio(1) get(1) th by (simp add: sched_ok_def)
  then have same: "prio = ?old" "of_nat i = last_run_thread_index (locals s) ! unat prio"
    by (auto simp: word_unat_eq_iff)
  have lock: "LOCK_ACQUIRE (sched_lock s) = (True, lock_held (sched_lock s))"
    using ok by (simp add: LOCK_ACQUIRE_cases sched_ok_def)
  show ?thesis
    using get(2) pick lock cur same by (simp add: schedule_def sched_entered_def Let_def)
qed


lemma schedule_switch:
  assumes ok: "sched_ok s" and pick: "pick_priority (queues s) (current_priority (locals s), current_priority_peg (locals s)) = Some (prio, peg)"
    and prio: "unat prio < PRIORITY_LEVELS" "unat prio \<le> unat peg" "unat peg < PRIORITY_LEVELS" "queues s ! unat prio \<noteq> []"
    and i: "i = next_pos (unat (last_run_thread_index (locals s) ! unat prio)) (queues s ! unat prio)"
    and th: "th = queues s ! unat prio ! i" "th \<noteq> current_thread (locals s)"
    and t: "thrs s th = Some t" "procs s (t_parent t) = Some pr" "pagemaps s (pagemap pr) = Some pm"
  shows "\<exists>s'. schedule rs s = Some (Run (regs t), s') \<and> sched_lock s' = sched_lock s \<and> queues s' = queues s \<and>
    procs s' = procs s \<and> pagemaps s' = pagemaps s \<and> cr3 s' = top_level pm \<and> fpu s' = fpu_storage t \<and>
    locals s' = (locals s)\<lparr>current_thread := th, tss_rsp0 := kernel_stack t, current_priority := prio, current_priority_peg := peg,
      last_run_thread_index := (last_run_thread_index (locals s))[unat prio := of_nat i]\<rparr> \<and>
    thrs s' = (\<lambda>x. if x = th then Some (t\<lparr>t_lock := lock_held (t_lock t)\<rparr>)
      else if x = current_thread (locals s) \<and> x \<noteq> 0
      then map_option (\<lambda>t. t\<lparr>fpu_storage := fpu s, regs := rs, t_lock := UNLOCK (t_lock t)\<rparr>) (thrs s x) else thrs s x)"
proof -
  let ?s1 = "sched_entered prio peg s" and ?cur = "current_thread (locals s)" and ?old = "current_priority (locals s)"
  define thr1 where "thr1 = (thrs s)(th \<mapsto> t\<lparr>t_lock := lock_held (t_lock t)\<rparr>)"
  have get: "i < length (queues s ! unat prio)" "sched_get_next_thread (last_run_thread_index (locals s) ! unat prio) (unat prio) ?s1 =
      Some (Some (th, of_nat i), ?s1\<lparr>thrs := thr1\<rparr>)"
    using sched_get_next_run [OF ok prio(1,4) refl, of ?s1] th t(1) unfolding i [symmetric]
    by (simp_all add: sched_entered_def thr1_def)
  have lock: "LOCK_ACQUIRE (sched_lock s) = (True, lock_held (sched_lock s))" "lock_free (sched_lock s)"
    using ok by (simp_all add: LOCK_ACQUIRE_cases sched_ok_def)
  have len: "length (queues s ! unat prio) < 2 ^ 63" using ok prio(1) by (simp add: sched_ok_def)
  have moved: "\<not> (?cur \<noteq> 0 \<and> prio = ?old \<and> of_nat i = last_run_thread_index (locals s) ! unat ?old)"
  proof
    assume a: "?cur \<noteq> 0 \<and> prio = ?old \<and> of_nat i = last_run_thread_index (locals s) ! unat ?old"
    then have "queues s ! unat ?old ! unat (of_nat i :: u64) = ?cur" using ok by (auto simp: sched_ok_def Let_def)
    moreover have "unat (of_nat i :: u64) = i" using get(1) len by (simp add: unat_of_nat_id)
    ultimately show False using a th by simp
  qed
  show ?thesis
  proof (cases "?cur = 0")
    case True
    then show ?thesis
      using get(2) pick lock t th(2)
      by (simp add: schedule_def sched_entered_def Let_def thr1_def eoi_and_rearm_def unlock_sched_def vmm_load_pagemap_def fun_eq_iff)
  next
    case False
    then obtain tc where tc: "thrs s ?cur = Some tc"
      using ok sched_ok_thread [OF ok, of "unat ?old" "unat (last_run_thread_index (locals s) ! unat ?old)"]
      by (force simp: sched_ok_def Let_def)
    then show ?thesis
      using get(2) pick lock t th(2) False moved
      by (simp add: schedule_def sched_entered_def Let_def thr1_def eoi_and_rearm_def unlock_sched_def vmm_load_pagemap_def
          upd_thread_def set_thread_def fun_eq_iff)
  qed
qed


lemma sched_ok_switch:
  assumes ok: "sched_ok s" and prio: "unat prio < PRIORITY_LEVELS" "unat prio \<le> unat peg" "unat peg < PRIORITY_LEVELS"
    and i: "i < length (queues s ! unat prio)" and th: "th = queues s ! unat prio ! i"
    and t: "thrs s th = Some t"
    and s': "sched_lock s' = sched_lock s" "queues s' = queues s" "procs s' = procs s" "pagemaps s' = pagemaps s"
    and loc: "locals s' = (locals s)\<lparr>current_thread := th, tss_rsp0 := ks, current_priority := prio, current_priority_peg := peg,
      last_run_thread_index := (last_run_thread_index (locals s))[unat prio := of_nat i]\<rparr>"
    and thr: "thrs s' = (\<lambda>x. if x = th then Some (t\<lparr>t_lock := l\<rparr>)
      else if x = current_thread (locals s) \<and> x \<noteq> 0
      then map_option (\<lambda>t. t\<lparr>fpu_storage := f, regs := rs, t_lock := UNLOCK (t_lock t)\<rparr>) (thrs s x) else thrs s x)"
  shows "sched_ok s'"
proof -
  have len: "length (queues s ! unat prio) < 2 ^ 63" "length (last_run_thread_index (locals s)) = PRIORITY_LEVELS"
    using ok prio(1) by (simp_all add: sched_ok_def)
  have ui: "unat (of_nat i :: u64) = i" using i len(1) by (simp add: unat_of_nat_id)
  have pos: "\<forall>p<PRIORITY_LEVELS. length (queues s ! p) < 2 ^ 63 \<and>
      (queues s ! p \<noteq> [] \<longrightarrow> unat ((last_run_thread_index (locals s))[unat prio := of_nat i] ! p) < length (queues s ! p))"
    using ok i ui len(2) prio(1) by (auto simp: sched_ok_def nth_list_update)
  have thrs': "\<exists>t pr pm. thrs s' x = Some t \<and> procs s (t_parent t) = Some pr \<and> pagemaps s (pagemap pr) = Some pm \<and>
      (x \<noteq> th \<longrightarrow> lock_free (t_lock t))" if x: "x \<in> set (concat (queues s))" for x
  proof -
    obtain tx pr pm where tx: "thrs s x = Some tx" "procs s (t_parent tx) = Some pr" "pagemaps s (pagemap pr) = Some pm"
      "x \<noteq> current_thread (locals s) \<longrightarrow> lock_free (t_lock tx)"
      using ok x unfolding sched_ok_def by blast
    have "0 \<notin> set (concat (queues s))" using ok unfolding sched_ok_def by blast
    with x have "x \<noteq> 0" by metis
    then show ?thesis using tx t by (cases "x = current_thread (locals s)") (auto simp: thr)
  qed
  have "th \<noteq> 0" using sched_ok_thread [OF ok prio(1) i] th by metis
  show ?thesis
    unfolding sched_ok_def s' loc cpu_locals_t.simps
    using ok pos thrs' prio len ui th i
    by (intro conjI) (auto simp: sched_ok_def Let_def)
qed

text \<open>
  C31: On one processor the schedule always comes to a decision and keeps its invariant. It chooses a
  priority with threads in it and of these the one after the last that ran there, from the
  front again after the end. The interrupted thread goes on when it is the one
  chosen; otherwise its registers and floating point state are saved, its lock is released, and the
  chosen thread runs with its own registers, floating point state, kernel stack and page map.
\<close>

theorem schedule_round_robin:
  assumes ok: "sched_ok s"
  shows "\<exists>r s' p. schedule rs s = Some (r, s') \<and> sched_ok s' \<and> p < PRIORITY_LEVELS \<and> queues s ! p \<noteq> [] \<and>
    (let i = next_pos (unat (last_run_thread_index (locals s) ! p)) (queues s ! p);
         th = queues s ! p ! i; cur = current_thread (locals s) in
     current_thread (locals s') = th \<and> unat (current_priority (locals s')) = p \<and>
     last_run_thread_index (locals s') = (last_run_thread_index (locals s))[p := of_nat i] \<and>
     (if th = cur then r = Resume \<and> thrs s' = thrs s
      else (\<exists>t pr pm. thrs s th = Some t \<and> procs s (t_parent t) = Some pr \<and> pagemaps s (pagemap pr) = Some pm \<and>
              r = Run (regs t) \<and> fpu s' = fpu_storage t \<and> tss_rsp0 (locals s') = kernel_stack t \<and> cr3 s' = top_level pm) \<and>
           (cur \<noteq> 0 \<longrightarrow> thrs s' cur = map_option (\<lambda>t. t\<lparr>fpu_storage := fpu s, regs := rs, t_lock := UNLOCK (t_lock t)\<rparr>) (thrs s cur))))"
proof -
  obtain prio peg where pick: "pick_priority (queues s) (current_priority (locals s), current_priority_peg (locals s)) = Some (prio, peg)"
    and prio: "unat prio < PRIORITY_LEVELS" "unat prio \<le> unat peg" "unat peg < PRIORITY_LEVELS" "queues s ! unat prio \<noteq> []"
    using schedule_chosen [OF ok] by blast
  define i where i: "i = next_pos (unat (last_run_thread_index (locals s) ! unat prio)) (queues s ! unat prio)"
  define th where th: "th = queues s ! unat prio ! i"
  have ilen: "i < length (queues s ! unat prio)"
    using ok prio(1,4) by (auto simp: sched_ok_def i next_pos_def)
  obtain t pr pm where t: "thrs s th = Some t" "procs s (t_parent t) = Some pr" "pagemaps s (pagemap pr) = Some pm"
    using sched_ok_thread [OF ok prio(1) ilen] th by metis
  show ?thesis
  proof (cases "th = current_thread (locals s)")
    case True
    note same = schedule_same [OF ok pick prio i, of rs] True
    define s' where "s' = unlock_sched (eoi_and_rearm (sched_entered prio peg s))"
    have run: "schedule rs s = Some (Resume, s')" "prio = current_priority (locals s)"
      "of_nat i = last_run_thread_index (locals s) ! unat prio"
      using same th s'_def by simp_all
    have "sched_ok s'" using ok prio run(2) by (simp add: s'_def sched_ok_def unlock_sched_def eoi_and_rearm_def sched_entered_def Let_def)
    moreover have "current_thread (locals s') = th" "current_priority (locals s') = prio" "thrs s' = thrs s"
      "last_run_thread_index (locals s') = (last_run_thread_index (locals s))[unat prio := of_nat i]"
      using True run(3) by (simp_all add: s'_def unlock_sched_def eoi_and_rearm_def sched_entered_def)
    ultimately show ?thesis
      using run(1) prio True unfolding Let_def i [symmetric] th [symmetric]
      by (intro exI [of _ Resume] exI [of _ s'] exI [of _ "unat prio"]) (simp flip: i th)
  next
    case False
    from schedule_switch [OF ok pick prio i th False t, of rs] obtain s' where
      s': "schedule rs s = Some (Run (regs t), s')" "sched_lock s' = sched_lock s" "queues s' = queues s"
      "procs s' = procs s" "pagemaps s' = pagemaps s" "cr3 s' = top_level pm" "fpu s' = fpu_storage t"
      "locals s' = (locals s)\<lparr>current_thread := th, tss_rsp0 := kernel_stack t, current_priority := prio, current_priority_peg := peg,
      last_run_thread_index := (last_run_thread_index (locals s))[unat prio := of_nat i]\<rparr>"
      "thrs s' = (\<lambda>x. if x = th then Some (t\<lparr>t_lock := lock_held (t_lock t)\<rparr>)
      else if x = current_thread (locals s) \<and> x \<noteq> 0
      then map_option (\<lambda>t. t\<lparr>fpu_storage := fpu s, regs := rs, t_lock := UNLOCK (t_lock t)\<rparr>) (thrs s x) else thrs s x)"
      by blast
    have "sched_ok s'" using sched_ok_switch [OF ok prio(1-3) ilen th t(1) s'(2-5,8,9)] .
    then show ?thesis
      using s'(1,6,7,8,9) prio t False
      by (intro exI [of _ "Run (regs t)"] exI [of _ s'] exI [of _ "unat prio"]) (simp add: Let_def flip: i th)
  qed
qed


definition ex_thread :: "lock_t \<Rightarrow> u64 \<Rightarrow> thread_t" where
  "ex_thread l rip = \<lparr>t_parent = 10, alive = 1, t_gid = 0, t_uid = 0, tid = 0, t_lock = l, queued = 1, priority = 0,
     kernel_stack = 0x9000, which_event = 0, regs = zero_regs\<lparr>r_rip := rip\<rparr>, fpu_storage = []\<rparr>"

definition ex_proc :: proc_t where
  "ex_proc = \<lparr>user = 0, pid = 0, p_parent = 0, children = [], p_threads = [20, 21], pagemap = kernel_pagemap, stack_top = 0,
     mmap_top = 0, mmaped_len = 0, fds = replicate FDS_COUNT 0, p_event = 0, p_status = 0\<rparr>"

definition ex_sched :: sched_state where
  "ex_sched = vmm_state.extend ex_vm \<lparr>procs = [10 \<mapsto> ex_proc], thrs = [20 \<mapsto> ex_thread (lock_held lock_init) 1, 21 \<mapsto> ex_thread lock_init 2],
     queues = [20, 21] # replicate 19 [], current_pid = 1, current_tid = 2, sched_has_started = True, sched_lock = lock_init,
     kernel_proc = 10, events = (\<lambda>_. \<lparr>pending = 0, event_lock = lock_init\<rparr>),
     locals = \<lparr>current_thread = 20, lapic_timer_freq = 1000000, last_run_thread_index = replicate 20 0, tss_rsp0 = 0,
       current_priority_peg = 0, current_priority = 0\<rparr>, fpu = [], lapic = (\<lambda>_. 0)\<rparr>"

lemma ex_sched_simps [simp]:
  "procs ex_sched = [10 \<mapsto> ex_proc]" "thrs ex_sched = [20 \<mapsto> ex_thread (lock_held lock_init) 1, 21 \<mapsto> ex_thread lock_init 2]"
  "queues ex_sched = [20, 21] # replicate 19 []" "sched_lock ex_sched = lock_init"
  "locals ex_sched = \<lparr>current_thread = 20, lapic_timer_freq = 1000000, last_run_thread_index = replicate 20 0, tss_rsp0 = 0,
       current_priority_peg = 0, current_priority = 0\<rparr>" "pagemaps ex_sched = pagemaps ex_vm"
  by (simp_all add: ex_sched_def vmm_state.defs)

lemma ex_sched_ok: "sched_ok ex_sched"
proof -
  have q: "([20, 21] # replicate 19 []) ! p = (if p = 0 then [20, 21 :: ptr] else [])" if "p < 20" for p :: nat
    using that by (cases p) auto
  have free: "lock_free lock_init" by (simp add: lock_init_def lock_free_def)
  show ?thesis
    unfolding sched_ok_def
    using q free by (auto simp: ex_proc_def ex_thread_def ex_vm_def Let_def intro!: exI [of _ "0 :: nat"])
qed

theorem schedule_round_robin_witness:
  "\<exists>s'. schedule zero_regs ex_sched = Some (Run (zero_regs\<lparr>r_rip := 2\<rparr>), s') \<and> current_thread (locals s') = 21"
proof -
  obtain r s' p where run: "schedule zero_regs ex_sched = Some (r, s')" "p < PRIORITY_LEVELS" "queues ex_sched ! p \<noteq> []"
    and res: "let i = next_pos (unat (last_run_thread_index (locals ex_sched) ! p)) (queues ex_sched ! p);
         th = queues ex_sched ! p ! i; cur = current_thread (locals ex_sched) in
     current_thread (locals s') = th \<and> unat (current_priority (locals s')) = p \<and>
     last_run_thread_index (locals s') = (last_run_thread_index (locals ex_sched))[p := of_nat i] \<and>
     (if th = cur then r = Resume \<and> thrs s' = thrs ex_sched
      else (\<exists>t pr pm. thrs ex_sched th = Some t \<and> procs ex_sched (t_parent t) = Some pr \<and> pagemaps ex_sched (pagemap pr) = Some pm \<and>
              r = Run (regs t) \<and> fpu s' = fpu_storage t \<and> tss_rsp0 (locals s') = kernel_stack t \<and> cr3 s' = top_level pm) \<and>
           (cur \<noteq> 0 \<longrightarrow> thrs s' cur = map_option (\<lambda>t. t\<lparr>fpu_storage := fpu ex_sched, regs := zero_regs, t_lock := UNLOCK (t_lock t)\<rparr>) (thrs ex_sched cur)))"
    using schedule_round_robin [OF ex_sched_ok, of zero_regs] by (elim exE conjE) (rule that)
  have "p = 0" using run(2,3) by (cases p) auto
  then show ?thesis using run(1) res by (auto simp: next_pos_def ex_thread_def)
qed

end
