(* ===== verification/Syscall.thy ===== *)
theory Syscall
  imports Sched
begin

text \<open>
  The system calls, \<^verbatim>\<open>src/src/kernel/sys/syscall.c\<close>, on the state of the scheduler and the
  file systems. What lies in the caller's memory is read through an environment, and what a
  call stores there is part of its result. Results are the value returned, negative for an
  error, cut to the width of the register by the handler. \<^const>\<open>None\<close> is an access that the
  code does not check (a null file, a descriptor beyond the table) or a call that never returns.
\<close>

section \<open>Environment and descriptors\<close>

record mmap_args_t =
  ma_addr :: u64
  ma_length :: u64
  ma_flags :: u64
  ma_prot :: u64
  ma_fd :: int
  ma_offset :: u64

text \<open>
  The mounts, and the values of variables and blocks that are read uninitialised; the strings,
  string tables, argument blocks and bytes in the caller's memory.
\<close>

record 'a sys_env =
  sy_env :: "'a kern_env"
  sy_vfs :: "'a kern_vfs"
  sy_junk :: mem
  sy_entry0 :: u64
  sy_child0 :: ptr
  sy_event0 :: ptr
  sy_poll :: "nat \<Rightarrow> event_store \<Rightarrow> event_store"
  u_str :: "u64 \<Rightarrow> cstring"
  u_argv :: "u64 \<Rightarrow> cstring list option"
  u_mmap :: "u64 \<Rightarrow> mmap_args_t"
  u_mem :: mem

datatype user_out = No_out | Out_bytes u64 "u8 list" | Out_stat u64 stat_t | Out_time u64 posix_time_t | Out_fds u64 "(nat \<times> int) list"

abbreviation EACCES :: int where "EACCES \<equiv> 2"
abbreviation EBADF :: int where "EBADF \<equiv> 8"
abbreviation EMFILE :: int where "EMFILE \<equiv> 33"
abbreviation ENODEV :: int where "ENODEV \<equiv> 44"
abbreviation ENOENT :: int where "ENOENT \<equiv> 45"
abbreviation ENOMEM :: int where "ENOMEM \<equiv> 49"
abbreviation ESPIPE :: int where "ESPIPE \<equiv> 72"
abbreviation O_RDONLY :: u32 where "O_RDONLY \<equiv> 1"
abbreviation O_WRONLY :: u32 where "O_WRONLY \<equiv> 2"
abbreviation O_RDWR :: u32 where "O_RDWR \<equiv> 4"
abbreviation O_CREAT :: u32 where "O_CREAT \<equiv> 0x200"
abbreviation O_EXEC :: u32 where "O_EXEC \<equiv> 0x400000"
abbreviation MMAP_MAX_SIZE :: u64 where "MMAP_MAX_SIZE \<equiv> 0x2000000"

definition CURRENT_THREAD :: "'a kern \<Rightarrow> thread_t option" where
  "CURRENT_THREAD k = thrs (disk k) (current_thread (locals (disk k)))"

definition current_proc_ptr :: "'a kern \<Rightarrow> ptr option" where
  "current_proc_ptr k = map_option t_parent (CURRENT_THREAD k)"

definition CURRENT_PROC :: "'a kern \<Rightarrow> proc_t option" where
  "CURRENT_PROC k = do { p \<leftarrow> current_proc_ptr k; procs (disk k) p }"

definition upd_current_proc :: "(proc_t \<Rightarrow> proc_t) \<Rightarrow> 'a kern \<Rightarrow> 'a kern option" where
  "upd_current_proc f k = do { p \<leftarrow> current_proc_ptr k; s \<leftarrow> upd_proc p f (disk k); Some (k\<lparr>disk := s\<rparr>) }"

text \<open>\<^verbatim>\<open>CURRENT_PROC->fds[fd]\<close>: a slot address, 0 for none; no test of the index.\<close>

definition get_fd :: "nat \<Rightarrow> 'a kern \<Rightarrow> ptr option" where
  "get_fd i k = do { pr \<leftarrow> CURRENT_PROC k; if i < length (fds pr) then Some (fds pr ! i) else None }"

definition set_fd :: "nat \<Rightarrow> ptr \<Rightarrow> 'a kern \<Rightarrow> 'a kern option" where
  "set_fd i sf k = upd_current_proc (\<lambda>pr. pr\<lparr>fds := (fds pr)[i := sf]\<rparr>) k"

text \<open>The first free slot from \<open>i\<close> on.\<close>

definition free_fd :: "nat \<Rightarrow> proc_t \<Rightarrow> nat option" where
  "free_fd i pr = find (\<lambda>j. fds pr ! j = 0) [i..<FDS_COUNT]"

definition alloc_sfile :: "syscall_file_t \<Rightarrow> 'a kern \<Rightarrow> ptr \<times> 'a kern" where
  "alloc_sfile sf k = (case new_sfile sf (disk k) of (p, s) \<Rightarrow> (p, k\<lparr>disk := s\<rparr>))"

definition free_sfile :: "ptr \<Rightarrow> 'a kern \<Rightarrow> 'a kern" where
  "free_sfile p k = k\<lparr>disk := (disk k)\<lparr>sfiles := (sfiles (disk k))(p := None)\<rparr>\<rparr>"

definition upd_file :: "ptr \<Rightarrow> (fs_file_t \<Rightarrow> fs_file_t) \<Rightarrow> 'd kstate \<Rightarrow> 'd kstate option" where
  "upd_file fp f k = do { file \<leftarrow> files k fp; Some (set_file fp (f file) k) }"


section \<open>Opening and closing\<close>

definition open_denied :: "u32 \<Rightarrow> fs_file_t \<Rightarrow> thread_t \<Rightarrow> bool" where
  "open_denied flags file t \<longleftrightarrow>
     flags AND O_RDONLY \<noteq> 0 \<and> vfs_check_can_read file (t_uid t) (t_gid t) \<noteq> 0 \<or>
     flags AND O_WRONLY \<noteq> 0 \<and> vfs_check_can_write file (t_uid t) (t_gid t) \<noteq> 0 \<or>
     flags AND O_RDWR \<noteq> 0 \<and> (vfs_check_can_read file (t_uid t) (t_gid t) \<noteq> 0 \<or> vfs_check_can_write file (t_uid t) (t_gid t) \<noteq> 0) \<or>
     flags AND O_EXEC \<noteq> 0 \<and> vfs_check_can_exec file (t_uid t) (t_gid t) \<noteq> 0"

text \<open>The path cut at its last slash; a path without one stays whole.\<close>

definition parent_path :: "cstring \<Rightarrow> cstring" where
  "parent_path path = (if slash \<in> set path then rev (tl (dropWhile (\<lambda>c. c \<noteq> slash) (rev path))) else path)"

text \<open>Creating a file that does not exist: the file, or the error.\<close>

definition open_create ::
    "'a sys_env \<Rightarrow> cstring \<Rightarrow> u32 \<Rightarrow> u32 \<Rightarrow> thread_t \<Rightarrow> 'a kern \<Rightarrow> ((int + ptr) \<times> 'a kern) option" where
  "open_create se path flags mode t k =
     (if flags AND O_CREAT = 0 then Some (Inl (- ENOENT), k)
      else do {
        (parent, k) \<leftarrow> vfs_open (sy_env se) (sy_vfs se) (parent_path path) k;
        if parent = 0 then Some (Inl (- ENOENT), k)
        else do {
          pf \<leftarrow> files k parent;
          if open_denied flags pf t then Some (Inl (- EACCES), k)
          else do {
            (_, k) \<leftarrow> vfs_close (sy_env se) parent k;
            (fp, k) \<leftarrow> vfs_create (sy_env se) (sy_vfs se) path mode (t_uid t) (t_gid t) k;
            Some (Inr fp, k)
          }
        }
      })"

definition open_install ::
    "'a sys_env \<Rightarrow> ptr \<Rightarrow> u32 \<Rightarrow> thread_t \<Rightarrow> 'a kern \<Rightarrow> (int \<times> 'a kern) option" where
  "open_install se fp flags t k = do {
     file \<leftarrow> files k fp;
     if open_denied flags file t then Some (- EACCES, k)
     else do {
       let (sfile, k) = alloc_sfile \<lparr>sf_file = fp, sf_flags = flags\<rparr> k;
       k \<leftarrow> upd_file fp (\<lambda>f. f\<lparr>f_offset := 0\<rparr>) k;
       pr \<leftarrow> CURRENT_PROC k;
       case free_fd 0 pr of
         Some i \<Rightarrow> do { k \<leftarrow> set_fd i sfile k; Some (int i, k) }
       | None \<Rightarrow> do {
           (_, k) \<leftarrow> vfs_close (sy_env se) fp k;
           Some (- EMFILE, free_sfile sfile k)
         }
     }
   }"

definition syscall_open :: "'a sys_env \<Rightarrow> cstring \<Rightarrow> u32 \<Rightarrow> u32 \<Rightarrow> 'a kern \<Rightarrow> (int \<times> 'a kern) option" where
  "syscall_open se path flags mode k = do {
     t \<leftarrow> CURRENT_THREAD k;
     (fp, k) \<leftarrow> vfs_open (sy_env se) (sy_vfs se) path k;
     (r, k) \<leftarrow> (if fp = 0 then open_create se path flags mode t k else Some (Inr fp, k));
     case r of
       Inl err \<Rightarrow> Some (err, k)
     | Inr fp \<Rightarrow> open_install se fp flags t k
   }"

definition syscall_close :: "'a sys_env \<Rightarrow> nat \<Rightarrow> 'a kern \<Rightarrow> (int \<times> 'a kern) option" where
  "syscall_close se fd k = do {
     p \<leftarrow> get_fd fd k;
     if p = 0 then Some (- EBADF, k)
     else do {
       sf \<leftarrow> sfiles (disk k) p;
       (_, k) \<leftarrow> vfs_close (sy_env se) (sf_file sf) k;
       k \<leftarrow> set_fd fd 0 (free_sfile p k);
       Some (0, k)
     }
   }"


section \<open>Reading and writing\<close>

text \<open>The size cut to the file's length; past the end it wraps around.\<close>

definition clip_size :: "fs_file_t \<Rightarrow> u64 \<Rightarrow> u64" where
  "clip_size file sz =
     (if sz + f_offset file > f_length file \<and> \<not> ISDEV file \<and> \<not> ISFIFO file
      then f_length file - f_offset file else sz)"

definition syscall_read :: "'a sys_env \<Rightarrow> nat \<Rightarrow> u64 \<Rightarrow> 'a kern \<Rightarrow> (int \<times> u8 list \<times> 'a kern) option" where
  "syscall_read se fd sz k = do {
     p \<leftarrow> get_fd fd k;
     if p = 0 then Some (- EBADF, [], k)
     else do {
       sf \<leftarrow> sfiles (disk k) p;
       if sf_flags sf AND (O_RDONLY OR O_RDWR) = 0 then Some (- EINVAL, [], k)
       else if sz = 0 then Some (0, [], k)
       else do {
         file \<leftarrow> files k (sf_file sf);
         let sz = clip_size file sz;
         (ret, buf, k) \<leftarrow> vfs_read (sy_env se) (sf_file sf) (f_offset file) sz k;
         k \<leftarrow> upd_file (sf_file sf) (\<lambda>f. f\<lparr>f_offset := f_offset f + sz\<rparr>) k;
         Some (ret, buf, k)
       }
     }
   }"

definition syscall_write :: "'a sys_env \<Rightarrow> nat \<Rightarrow> u64 \<Rightarrow> u64 \<Rightarrow> 'a kern \<Rightarrow> (int \<times> 'a kern) option" where
  "syscall_write se fd buffer sz k = do {
     p \<leftarrow> get_fd fd k;
     if p = 0 then Some (0, k)
     else do {
       sf \<leftarrow> sfiles (disk k) p;
       if sf_flags sf AND (O_WRONLY OR O_RDWR) = 0 then Some (0, k)
       else if sz = 0 then Some (0, k)
       else do {
         file \<leftarrow> files k (sf_file sf);
         let sz = clip_size file sz;
         (ret, k) \<leftarrow> vfs_write (sy_env se) (sf_file sf) (get_bytes (u_mem se) buffer (unat sz)) (f_offset file) k;
         k \<leftarrow> upd_file (sf_file sf) (\<lambda>f. f\<lparr>f_offset := f_offset f + sz\<rparr>) k;
         Some (ret, k)
       }
     }
   }"

definition syscall_seek :: "nat \<Rightarrow> u64 \<Rightarrow> int \<Rightarrow> 'a kern \<Rightarrow> (u64 \<times> 'a kern) option" where
  "syscall_seek fd offset type k = do {
     p \<leftarrow> get_fd fd k;
     if p = 0 then Some (word_of_int (- EBADF), k)
     else do {
       sf \<leftarrow> sfiles (disk k) p;
       file \<leftarrow> files k (sf_file sf);
       if ISFIFO file then Some (word_of_int (- ESPIPE), k)
       else do {
         let goto = (\<lambda>off. (off, set_file (sf_file sf) (file\<lparr>f_offset := off\<rparr>) k));
         Some (if type = 2 then goto (f_length file + offset)
           else if type = 1 then
             if sint (f_offset file) + sint offset < 0 then (word_of_int (- EINVAL), k) else goto (f_offset file + offset)
           else if type = 0 then
             if sint offset < 0 then (word_of_int (- EINVAL), k) else goto offset
           else (word_of_int (- EINVAL), k))
       }
     }
   }"


section \<open>Memory\<close>

text \<open>The checks before the mapping: the error, if any.\<close>

definition mmap_check :: "mmap_args_t \<Rightarrow> 'a kern \<Rightarrow> int option option" where
  "mmap_check args k = do {
     e \<leftarrow> (if ma_fd args > -1 then
             if ma_fd args \<ge> int FDS_COUNT then Some (Some (- EBADF))
             else do {
               p \<leftarrow> get_fd (nat (ma_fd args)) k;
               if p = 0 then Some (Some (- EBADF))
               else do { sf \<leftarrow> sfiles (disk k) p;
                         Some (if sf_flags sf AND (O_RDONLY OR O_RDWR) = 0 then Some (- EACCES) else None) }
             }
           else Some None);
     Some (case e of Some err \<Rightarrow> Some err
       | None \<Rightarrow> if ma_length args = 0 then Some (- EINVAL)
           else if ma_flags args AND ucast MAP_SHARED = 0 \<and> ma_flags args AND ucast MAP_PRIVATE = 0 then Some (- EINVAL)
           else None)
   }"

text \<open>Mapping anonymous pages at the address, or a file.\<close>

definition mmap_anon :: "mmap_args_t \<Rightarrow> u64 \<Rightarrow> u64 \<Rightarrow> 'a kern \<Rightarrow> (u64 \<times> 'a kern) option" where
  "mmap_anon args pages addr k = do {
     (given, s) \<leftarrow> sched_pcalloc pages (disk k);
     if given = 0 then Some (word_of_int (- ENOMEM), k\<lparr>disk := s\<rparr>)
     else do {
       pr \<leftarrow> CURRENT_PROC k;
       s \<leftarrow> vmm_mmap_range (pagemap pr) given addr (pages * PAGE_SIZE) (ucast (ma_flags args)) (ucast (ma_prot args)) s;
       Some (addr, k\<lparr>disk := s\<rparr>)
     }
   }"

definition mmap_file :: "'a sys_env \<Rightarrow> mmap_args_t \<Rightarrow> u64 \<Rightarrow> 'a kern \<Rightarrow> (u64 \<times> 'a kern) option" where
  "mmap_file se args addr k =
     (if ma_fd args < 0 then Some (word_of_int (- EBADF), k)
      else do {
        p \<leftarrow> get_fd (nat (ma_fd args)) k;
        sf \<leftarrow> sfiles (disk k) p;
        file \<leftarrow> files k (sf_file sf);
        if ma_prot args AND ucast PROT_WRITE \<noteq> 0 \<and> ma_flags args AND ucast MAP_SHARED \<noteq> 0 \<and>
           sf_flags sf AND (O_RDWR OR O_WRONLY) = 0 then Some (word_of_int (- EACCES), k)
        else if ISFIFO file then Some (word_of_int (- ENODEV), k)
        else do {
          pr \<leftarrow> CURRENT_PROC k;
          s \<leftarrow> vmm_load_pagemap kernel_pagemap (disk k);
          (_, k) \<leftarrow> vfs_mmap (sy_env se) (sf_file sf) \<lparr>mm_pg = pagemap pr, mm_sfile = p, mm_addr = addr, mm_size = ma_length args,
             mm_offset = ma_offset args, mm_prot = ucast (ma_prot args), mm_flags = ucast (ma_flags args)\<rparr> (k\<lparr>disk := s\<rparr>);
          s \<leftarrow> vmm_load_pagemap (pagemap pr) (disk k);
          Some (addr, k\<lparr>disk := s\<rparr>)
        }
      })"

definition syscall_mmap :: "'a sys_env \<Rightarrow> mmap_args_t \<Rightarrow> 'a kern \<Rightarrow> (u64 \<times> 'a kern) option" where
  "syscall_mmap se args k = do {
     err \<leftarrow> mmap_check args k;
     case err of Some e \<Rightarrow> Some (word_of_int e, k)
     | None \<Rightarrow> do {
         let pages = ALIGN_UP (ma_length args) div PAGE_SIZE;
         pr \<leftarrow> CURRENT_PROC k;
         if mmaped_len pr + pages * PAGE_SIZE > MMAP_MAX_SIZE then Some (word_of_int (- EMFILE), k)
         else do {
           k \<leftarrow> upd_current_proc (\<lambda>pr. pr\<lparr>mmaped_len := mmaped_len pr + pages * PAGE_SIZE\<rparr>) k;
           if ma_flags args AND ucast MAP_FIXED \<noteq> 0 \<and> ma_addr args mod PAGE_SIZE \<noteq> 0
           then Some (word_of_int (- EINVAL), k)
           else do {
             let addr = (if ma_flags args AND ucast MAP_FIXED \<noteq> 0 then ma_addr args else mmap_top pr);
             k \<leftarrow> (if ma_flags args AND ucast MAP_FIXED \<noteq> 0 then Some k
                   else upd_current_proc (\<lambda>pr. pr\<lparr>mmap_top := mmap_top pr + (pages + 1) * PAGE_SIZE\<rparr>) k);
             if ma_flags args AND ucast MAP_ANON \<noteq> 0 then mmap_anon args pages addr k else mmap_file se args addr k
           }
         }
       }
   }"

text \<open>
  After the range at position \<open>i\<close> was taken out, position \<open>i\<close> is read again: the range that
  followed it, or the same one when it was the last.
\<close>

definition syscall_munmap :: "u64 \<Rightarrow> u64 \<Rightarrow> 'a kern \<Rightarrow> (int \<times> 'a kern) option" where
  "syscall_munmap addr len k = do {
     pr \<leftarrow> CURRENT_PROC k;
     pm \<leftarrow> pagemaps (disk k) (pagemap pr);
     case find (\<lambda>i. mr_virt_addr (ranges pm ! i) = addr) [0..<length (ranges pm)] of
       None \<Rightarrow> Some (1, k)
     | Some i \<Rightarrow> do {
         let rest = take i (ranges pm) @ drop (Suc i) (ranges pm);
         let r = (if Suc i < length (ranges pm) then ranges pm ! Suc i else ranges pm ! i);
         let s = (disk k)\<lparr>pagemaps := (pagemaps (disk k))(pagemap pr \<mapsto> pm\<lparr>ranges := rest\<rparr>)\<rparr>;
         s \<leftarrow> page_loop len (\<lambda>j. vmm_unmap_page (pagemap pr) (addr + j)) s;
         s \<leftarrow> (if mr_flags r AND MAP_ANON \<noteq> 0 then do {
                 p \<leftarrow> pmm_free_pages (mr_phys_addr r) (mr_length r div PAGE_SIZE) (vm_pmm s);
                 Some (s\<lparr>vm_pmm := p\<rparr>)
               } else Some s);
         Some (0, k\<lparr>disk := s\<rparr>)
       }
   }"


section \<open>Files by name\<close>

definition syscall_stat :: "'a sys_env \<Rightarrow> cstring \<Rightarrow> 'a kern \<Rightarrow> (int \<times> stat_t option \<times> 'a kern) option" where
  "syscall_stat se path k = do {
     t \<leftarrow> CURRENT_THREAD k;
     (fp, k) \<leftarrow> vfs_open (sy_env se) (sy_vfs se) path k;
     if fp = 0 then Some (- ENOENT, None, k)
     else do {
       file \<leftarrow> files k fp;
       if vfs_check_can_read file (t_uid t) (t_gid t) \<noteq> 0 then Some (- EACCES, None, k)
       else do {
         (_, st) \<leftarrow> vfs_fstat (sy_env se) fp k;
         (_, k) \<leftarrow> vfs_close (sy_env se) fp k;
         Some (0, Some st, k)
       }
     }
   }"

definition syscall_fstat :: "'a sys_env \<Rightarrow> nat \<Rightarrow> 'a kern \<Rightarrow> (int \<times> stat_t option) option" where
  "syscall_fstat se fd k = do {
     t \<leftarrow> CURRENT_THREAD k;
     p \<leftarrow> get_fd fd k;
     if p = 0 then Some (- EBADF, None)
     else do {
       sf \<leftarrow> sfiles (disk k) p;
       file \<leftarrow> files k (sf_file sf);
       if vfs_check_can_read file (t_uid t) (t_gid t) \<noteq> 0 then Some (- EACCES, None)
       else do { (_, st) \<leftarrow> vfs_fstat (sy_env se) (sf_file sf) k; Some (0, Some st) }
     }
   }"

definition syscall_access :: "'a sys_env \<Rightarrow> cstring \<Rightarrow> u32 \<Rightarrow> 'a kern \<Rightarrow> (int \<times> 'a kern) option" where
  "syscall_access se path mode k = do {
     t \<leftarrow> CURRENT_THREAD k;
     (fp, k) \<leftarrow> vfs_open (sy_env se) (sy_vfs se) path k;
     if fp = 0 then Some (- ENOENT, k)
     else do {
       file \<leftarrow> files k fp;
       let denied = mode \<noteq> 0 \<and>
         (mode AND 4 \<noteq> 0 \<and> vfs_check_can_read file (t_uid t) (t_gid t) \<noteq> 0 \<or>
          mode AND 2 \<noteq> 0 \<and> vfs_check_can_write file (t_uid t) (t_gid t) \<noteq> 0 \<or>
          mode AND 1 \<noteq> 0 \<and> vfs_check_can_exec file (t_uid t) (t_gid t) \<noteq> 0);
       (_, k) \<leftarrow> vfs_close (sy_env se) fp k;
       Some (if denied then - EACCES else 0, k)
     }
   }"

definition syscall_remove :: "'a sys_env \<Rightarrow> cstring \<Rightarrow> 'a kern \<Rightarrow> (int \<times> 'a kern) option" where
  "syscall_remove se path k = do {
     t \<leftarrow> CURRENT_THREAD k;
     (fp, k) \<leftarrow> vfs_open (sy_env se) (sy_vfs se) path k;
     if fp = 0 then Some (- ENOENT, k)
     else do {
       file \<leftarrow> files k fp;
       if vfs_check_can_write file (t_uid t) (t_gid t) \<noteq> 0 then do {
         (_, k) \<leftarrow> vfs_close (sy_env se) fp k;
         Some (- EACCES, k)
       }
       else if f_mode file AND S_IFMT = S_IFDIR then vfs_rmdir (sy_env se) fp k
       else vfs_delete (sy_env se) fp k
     }
   }"


section \<open>Descriptors\<close>

definition syscall_fsync :: "nat \<Rightarrow> 'a kern \<Rightarrow> int option" where
  "syscall_fsync fd k = do {
     p \<leftarrow> get_fd fd k;
     if p = 0 then Some (- EBADF)
     else do { sf \<leftarrow> sfiles (disk k) p; file \<leftarrow> files k (sf_file sf); Some (if ISFIFO file then - EINVAL else 0) }
   }"

definition syscall_ioctl :: "'a sys_env \<Rightarrow> nat \<Rightarrow> u64 \<Rightarrow> u64 \<Rightarrow> 'a kern \<Rightarrow> (u64 \<times> 'a kern) option" where
  "syscall_ioctl se fd cmd arg k = do {
     p \<leftarrow> get_fd fd k;
     if p = 0 then Some (word_of_int (- EBADF), k)
     else do { sf \<leftarrow> sfiles (disk k) p; vfs_ioctl (sy_env se) (sf_file sf) cmd arg k }
   }"

text \<open>
  Both ends of the pipe share one file, whose reference count is 1. When only one slot is free the
  slot taken for reading keeps the address of the freed block.
\<close>

definition syscall_pipe :: "'a sys_env \<Rightarrow> 'a kern \<Rightarrow> (int \<times> (nat \<times> int) list \<times> 'a kern) option" where
  "syscall_pipe se k = do {
     t \<leftarrow> CURRENT_THREAD k;
     (fp, k) \<leftarrow> vfs_mkfifo (sy_env se) (sy_vfs se) (cstr ''unamed_fifo'') 0x1ff (t_uid t) (t_gid t) False k;
     if fp = 0 then Some (-1, [], k)
     else do {
       let (sfile_r, k) = alloc_sfile \<lparr>sf_file = fp, sf_flags = O_RDONLY\<rparr> k;
       let (sfile_w, k) = alloc_sfile \<lparr>sf_file = fp, sf_flags = O_WRONLY\<rparr> k;
       k \<leftarrow> upd_file fp (\<lambda>f. f\<lparr>f_offset := 0\<rparr>) k;
       pr \<leftarrow> CURRENT_PROC k;
       case free_fd 0 pr of
         None \<Rightarrow> do {
           (_, k) \<leftarrow> vfs_close (sy_env se) fp k;
           Some (- EMFILE, [], free_sfile sfile_w (free_sfile sfile_r k))
         }
       | Some i \<Rightarrow> do {
           k \<leftarrow> set_fd i sfile_r k;
           pr \<leftarrow> CURRENT_PROC k;
           case free_fd 0 pr of
             None \<Rightarrow> do {
               (_, k) \<leftarrow> vfs_close (sy_env se) fp k;
               Some (- EMFILE, [(0, 0)], free_sfile sfile_w (free_sfile sfile_r k))
             }
           | Some j \<Rightarrow> do {
               k \<leftarrow> set_fd j sfile_w k;
               Some (0, [(0, int i), (1, int j)], k)
             }
         }
     }
   }"

definition syscall_fcntl :: "int \<Rightarrow> int \<Rightarrow> int \<Rightarrow> 'a kern \<Rightarrow> (int \<times> 'a kern) option" where
  "syscall_fcntl fd cmd arg k =
     (if fd < 0 then None
      else do {
        p \<leftarrow> get_fd (nat fd) k;
        if p = 0 then Some (- EBADF, k)
        else if cmd \<noteq> 1 then Some (- EINVAL, k)
        else do {
          sf \<leftarrow> sfiles (disk k) p;
          let (new_file, k) = alloc_sfile sf k;
          k \<leftarrow> upd_file (sf_file sf) (\<lambda>f. f\<lparr>f_ref_count := f_ref_count f + 1\<rparr>) k;
          pr \<leftarrow> CURRENT_PROC k;
          if arg < 0 then Some (arg, k)
          else case free_fd (nat arg) pr of
              Some i \<Rightarrow> do { k \<leftarrow> set_fd i new_file k; Some (int i, k) }
            | None \<Rightarrow> Some (max arg (int FDS_COUNT), k)
        }
      })"


section \<open>Processes\<close>

definition syscall_execve ::
    "'a sys_env \<Rightarrow> cstring \<Rightarrow> cstring list option \<Rightarrow> cstring list option \<Rightarrow> 'a kern \<Rightarrow> ((int + registers_t) \<times> 'a kern) option" where
  "syscall_execve se path argv envp k = do {
     t \<leftarrow> CURRENT_THREAD k;
     (fp, k) \<leftarrow> vfs_open (sy_env se) (sy_vfs se) path k;
     if fp = 0 then Some (Inl (- ENOENT), k)
     else do {
       file \<leftarrow> files k fp;
       (_, k) \<leftarrow> vfs_close (sy_env se) fp k;
       if vfs_check_can_read file (t_uid t) (t_gid t) \<noteq> 0 \<or> vfs_check_can_exec file (t_uid t) (t_gid t) \<noteq> 0
       then Some (Inl (- EACCES), k)
       else do {
         (r, k) \<leftarrow> sched_run_program (sy_junk se) (sy_entry0 se) (sy_env se) (sy_vfs se) path argv envp
            (Some (cstr ''/dev/tty0'')) (Some (cstr ''/dev/tty0'')) (Some (cstr ''/dev/tty0'')) True k;
         Some (case r of Resume \<Rightarrow> Inl 0 | Run rs \<Rightarrow> Inr rs, k)
       }
     }
   }"

definition syscall_getpid :: "'a kern \<Rightarrow> u64 option" where
  "syscall_getpid k = map_option pid (CURRENT_PROC k)"

definition syscall_getppid :: "'a kern \<Rightarrow> u64 option" where
  "syscall_getppid k = do {
     pr \<leftarrow> CURRENT_PROC k;
     if p_parent pr = 0 then Some (- 1) else map_option pid (procs (disk k) (p_parent pr))
   }"

definition syscall_exit :: "int \<Rightarrow> 'a kern \<Rightarrow> 'a kern option" where
  "syscall_exit code k = do { s \<leftarrow> sched_exit code (disk k); Some (k\<lparr>disk := s\<rparr>) }"

definition syscall_fork :: "'a sys_env \<Rightarrow> registers_t \<Rightarrow> 'a kern \<Rightarrow> (u64 \<times> 'a kern) option" where
  "syscall_fork se rs k = do {
     s \<leftarrow> vmm_load_pagemap kernel_pagemap (disk k);
     (ret, k) \<leftarrow> sched_fork (sy_env se) rs (k\<lparr>disk := s\<rparr>);
     pr \<leftarrow> CURRENT_PROC k;
     s \<leftarrow> vmm_load_pagemap (pagemap pr) (disk k);
     Some (ret, k\<lparr>disk := s\<rparr>)
   }"

definition syscall_gettimeofday :: "'a sys_env \<Rightarrow> posix_time_t" where
  "syscall_gettimeofday se = rtc_mktime (env_time (sy_env se))"

definition syscall_waitpid :: "'a sys_env \<Rightarrow> int \<Rightarrow> u32 \<Rightarrow> 'a kern \<Rightarrow> (int \<times> 'a kern) option" where
  "syscall_waitpid se wpid options k = do {
     (r, s) \<leftarrow> sched_waitpid (sy_child0 se) (sy_event0 se) (sy_poll se) wpid options (disk k);
     Some (r, k\<lparr>disk := s\<rparr>)
   }"


section \<open>The handler\<close>

text \<open>
  A call returns a value and stores something for the caller, loads other registers, or spins.
\<close>

datatype syscall_result = Ret u64 user_out | Enter registers_t | Spin

definition sys_ret :: "int \<Rightarrow> user_out \<Rightarrow> 'a kern \<Rightarrow> syscall_result \<times> 'a kern" where
  "sys_ret r out k = (Ret (word_of_int r) out, k)"

definition sint32 :: "u64 \<Rightarrow> int" where
  "sint32 w = sint (ucast w :: u32)"

definition c_syscall_handler :: "'a sys_env \<Rightarrow> registers_t \<Rightarrow> 'a kern \<Rightarrow> (syscall_result \<times> 'a kern) option" where
  "c_syscall_handler se rs k =
     (let n = r_rdi rs; rsi = r_rsi rs; rdx = r_rdx rs; rcx = r_rcx rs in
      if n = 0 then map_option (\<lambda>(r, k). sys_ret r No_out k) (syscall_open se (u_str se rsi) (ucast rdx) (ucast rcx) k)
      else if n = 1 then map_option (\<lambda>(r, k). sys_ret r No_out k) (syscall_close se (unat rsi) k)
      else if n = 2 then map_option (\<lambda>(r, b, k). sys_ret r (Out_bytes rdx b) k) (syscall_read se (unat rsi) rcx k)
      else if n = 3 then map_option (\<lambda>(r, k). sys_ret r No_out k) (syscall_write se (unat rsi) rdx rcx k)
      else if n = 4 then map_option (\<lambda>(r, k). case r of Inl v \<Rightarrow> sys_ret v No_out k | Inr rs \<Rightarrow> (Enter rs, k))
                          (syscall_execve se (u_str se rsi) (u_argv se rdx) (u_argv se rcx) k)
      else if n = 5 then map_option (\<lambda>(r, k). (Ret r No_out, k)) (syscall_mmap se (u_mmap se rsi) k)
      else if n = 6 then map_option (\<lambda>(r, k). sys_ret r No_out k) (syscall_munmap rsi rdx k)
      else if n = 7 then map_option (\<lambda>(r, st, k). sys_ret r (case st of None \<Rightarrow> No_out | Some st \<Rightarrow> Out_stat rdx st) k)
                          (syscall_stat se (u_str se rsi) k)
      else if n = 8 then map_option (\<lambda>(r, st). sys_ret r (case st of None \<Rightarrow> No_out | Some st \<Rightarrow> Out_stat rdx st) k)
                          (syscall_fstat se (unat rsi) k)
      else if n = 9 then map_option (\<lambda>r. (Ret r No_out, k)) (syscall_getpid k)
      else if n = 15 then map_option (\<lambda>r. (Ret r No_out, k)) (syscall_getppid k)
      else if n = 10 then map_option (\<lambda>k. (Spin, k)) (syscall_exit (sint32 rsi) k)
      else if n = 11 then map_option (\<lambda>(r, k). (Ret (word_of_int (sint32 r)) No_out, k)) (syscall_fork se rs k)
      else if n = 12 then Some (Ret (r_rax rs) (Out_time rsi (syscall_gettimeofday se)), k)
      else if n = 13 then map_option (\<lambda>_. (Ret (r_rax rs) No_out, k)) (syscall_fsync (unat rsi) k)
      else if n = 14 then map_option (\<lambda>(r, k). (Ret r No_out, k)) (syscall_ioctl se (unat rsi) rdx rcx k)
      else if n = 16 then map_option (\<lambda>(r, k). (Ret r No_out, k)) (syscall_seek (unat rsi) rdx (sint32 rcx) k)
      else if n = 17 then map_option (\<lambda>(r, k). sys_ret r No_out k) (syscall_waitpid se (sint rsi) (ucast rcx) k)
      else if n = 18 then map_option (\<lambda>(r, k). sys_ret r No_out k) (syscall_access se (u_str se rsi) (ucast rdx) k)
      else if n = 19 then map_option (\<lambda>(r, p, k). sys_ret r (Out_fds rsi p) k) (syscall_pipe se k)
      else if n = 20 then map_option (\<lambda>(r, k). sys_ret r No_out k) (syscall_fcntl (sint32 rsi) (sint32 rdx) (sint32 rcx) k)
      else if n = 21 then map_option (\<lambda>(r, k). sys_ret r No_out k) (syscall_remove se (u_str se rsi) k)
      else Some (Ret (- 1) No_out, k))"

section \<open>Lemmas\<close>

lemma current_proc_cases:
  assumes "CURRENT_PROC k = Some pr"
  obtains t where "CURRENT_THREAD k = Some t" "procs (disk k) (t_parent t) = Some pr"
  using assms by (auto simp: CURRENT_PROC_def current_proc_ptr_def bind_eq_Some_conv)

lemma upd_current_proc_run:
  assumes "CURRENT_PROC k = Some pr"
  shows "\<exists>k'. upd_current_proc f k = Some k' \<and> CURRENT_PROC k' = Some (f pr) \<and> CURRENT_THREAD k' = CURRENT_THREAD k \<and>
    files k' = files k \<and> pipes k' = pipes k \<and> sfiles (disk k') = sfiles (disk k)"
proof -
  obtain t where t: "CURRENT_THREAD k = Some t" "procs (disk k) (t_parent t) = Some pr"
    using assms by (rule current_proc_cases)
  then show ?thesis
    by (auto simp: upd_current_proc_def current_proc_ptr_def upd_proc_def set_proc_def CURRENT_PROC_def CURRENT_THREAD_def)
qed

lemma set_fd_run:
  assumes "CURRENT_PROC k = Some pr"
  shows "\<exists>k'. set_fd i sf k = Some k' \<and> CURRENT_PROC k' = Some (pr\<lparr>fds := (fds pr)[i := sf]\<rparr>) \<and> CURRENT_THREAD k' = CURRENT_THREAD k \<and>
    files k' = files k \<and> pipes k' = pipes k \<and> sfiles (disk k') = sfiles (disk k)"
  unfolding set_fd_def using upd_current_proc_run [OF assms] .

lemma free_fd_Some:
  "free_fd i pr = Some j \<longleftrightarrow> i \<le> j \<and> j < FDS_COUNT \<and> fds pr ! j = 0 \<and> (\<forall>m. i \<le> m \<and> m < j \<longrightarrow> fds pr ! m \<noteq> 0)"
proof -
  have "find P [i..<n] = Some j \<longleftrightarrow> i \<le> j \<and> j < n \<and> P j \<and> (\<forall>m. i \<le> m \<and> m < j \<longrightarrow> \<not> P m)" for P n
  proof
    assume "find P [i..<n] = Some j"
    then obtain d where d: "d < n - i" "P (i + d)" "j = i + d" "\<forall>e<d. \<not> P (i + e)"
      by (auto simp: find_Some_iff)
    have "\<not> P m" if "i \<le> m" "m < j" for m
      using d(3,4) that by (metis add_diff_inverse_nat add_less_cancel_left linorder_not_less)
    with d show "i \<le> j \<and> j < n \<and> P j \<and> (\<forall>m. i \<le> m \<and> m < j \<longrightarrow> \<not> P m)" by auto
  next
    assume "i \<le> j \<and> j < n \<and> P j \<and> (\<forall>m. i \<le> m \<and> m < j \<longrightarrow> \<not> P m)"
    then show "find P [i..<n] = Some j"
      by (auto simp: find_Some_iff intro!: exI [of _ "j - i"])
  qed
  then show ?thesis by (simp add: free_fd_def)
qed

lemma alloc_sfile_run:
  "alloc_sfile sf k = (next_obj (disk k), k\<lparr>disk := (disk k)\<lparr>sfiles := (sfiles (disk k))(next_obj (disk k) \<mapsto> sf),
     next_obj := Suc (next_obj (disk k))\<rparr>\<rparr>)"
  by (simp add: alloc_sfile_def new_sfile_def)

lemma alloc_sfile_current [simp]:
  "CURRENT_THREAD (k\<lparr>disk := (disk k)\<lparr>sfiles := a, next_obj := b\<rparr>\<rparr>) = CURRENT_THREAD k"
  "CURRENT_PROC (k\<lparr>disk := (disk k)\<lparr>sfiles := a, next_obj := b\<rparr>\<rparr>) = CURRENT_PROC k"
  "CURRENT_THREAD (k\<lparr>disk := (disk k)\<lparr>sfiles := a\<rparr>\<rparr>) = CURRENT_THREAD k"
  "CURRENT_PROC (k\<lparr>disk := (disk k)\<lparr>sfiles := a\<rparr>\<rparr>) = CURRENT_PROC k"
  by (simp_all add: CURRENT_THREAD_def CURRENT_PROC_def current_proc_ptr_def)

lemma set_file_current [simp]:
  "CURRENT_THREAD (set_file fp f k) = CURRENT_THREAD k" "CURRENT_PROC (set_file fp f k) = CURRENT_PROC k"
  "disk (set_file fp f k) = disk k" "files (set_file fp f k) = (files k)(fp \<mapsto> f)"
  by (simp_all add: CURRENT_THREAD_def CURRENT_PROC_def current_proc_ptr_def set_file_def)


definition ex_fsops :: "sched_state fs_ops_t" where
  "ex_fsops = \<lparr>fs_name = cstr ''ex'', fso_mount = None, fso_open = (\<lambda>_ _ s. Some (1, s)), fso_mkdir = (\<lambda>_ _ _ _ _ s. Some (0, s)),
     fso_create = (\<lambda>_ _ _ _ _ s. Some (0, s)), fso_mkfifo = (\<lambda>_ _ _ _ _ s. Some (0, s)), fso_mknod = (\<lambda>_ _ _ _ _ _ s. Some (0, s))\<rparr>"

definition ex_senv :: "unit sys_env" where
  "ex_senv = \<lparr>sy_env = \<lparr>env_dev = (\<lambda>_. None), env_ioctl = (\<lambda>_ _ _ s. Some (0, s)), env_mmap = (\<lambda>_ _ s. Some (0, s)),
       env_fops = (\<lambda>_. None), env_fsops = (\<lambda>_. Some ex_fsops), env_addr = (\<lambda>_. 0), env_mem = (\<lambda>_. 0), env_kids = (\<lambda>_. []), env_time = ex_time\<rparr>,
     sy_vfs = \<lparr>vfs_mounts = [], registered_fses = [], root_mount = Some \<lparr>mi_path = cstr ''/'', mi_dev = 0, mi_fs = 1\<rparr>, dev_fs = (\<lambda>_. 0)\<rparr>,
     sy_junk = (\<lambda>_. 0), sy_entry0 = 0, sy_child0 = 0, sy_event0 = 0, sy_poll = (\<lambda>_ e. e), u_str = (\<lambda>_. []), u_argv = (\<lambda>_. None),
     u_mmap = (\<lambda>_. \<lparr>ma_addr = 0, ma_length = 0, ma_flags = 0, ma_prot = 0, ma_fd = -1, ma_offset = 0\<rparr>), u_mem = (\<lambda>_. 0)\<rparr>"

definition ex_kfile :: fs_file_t where
  "ex_kfile = (fresh_file (sy_env ex_senv) 0 0 0x81ff)\<lparr>f_length := 10, f_offset := 4\<rparr>"

definition ex_kern :: "sched_state kstate" where
  "ex_kern = \<lparr>files = [1 \<mapsto> ex_kfile], pipes = (\<lambda>_. None), fses = [1 \<mapsto> \<lparr>fs_ops = 1, fs_dev = 0, fs_private = FP_root 0\<rparr>], next_ptr = 5,
     disk = ex_sched\<rparr>"

lemma ex_kern_current:
  "CURRENT_THREAD ex_kern = Some (ex_thread (lock_held lock_init) 1)" "CURRENT_PROC ex_kern = Some ex_proc"
  by (simp_all add: CURRENT_THREAD_def CURRENT_PROC_def current_proc_ptr_def ex_kern_def ex_thread_def)

lemma ex_proc_fds [simp]: "fds ex_proc = replicate FDS_COUNT 0" "pagemap ex_proc = kernel_pagemap"
  by (simp_all add: ex_proc_def)

lemma ex_vfs_open: "vfs_open (sy_env ex_senv) (sy_vfs ex_senv) (cstr ''/'') ex_kern = Some (1, ex_kern)"
  by (simp add: vfs_open_def mount_of_def vfs_find_mount_def ex_senv_def ex_kern_def ex_fsops_def)


lemma clip_size_fits:
  assumes "f_offset file \<le> f_length file" and "unat sz + unat (f_offset file) < 2 ^ 64" and "\<not> ISDEV file" and "\<not> ISFIFO file"
  shows "unat (clip_size file sz) = min (unat sz) (unat (f_length file) - unat (f_offset file))"
proof -
  have sum: "unat (sz + f_offset file) = unat sz + unat (f_offset file)" using assms(2) by (simp add: unat_add_small)
  have diff: "unat (f_length file - f_offset file) = unat (f_length file) - unat (f_offset file)"
    using assms(1) by (simp add: unat_sub_if' word_le_nat_alt)
  show ?thesis using assms(3,4) sum diff by (auto simp: clip_size_def word_less_nat_alt)
qed


definition ex_open_kern :: "sched_state kstate" where
  "ex_open_kern = ex_kern\<lparr>disk := ex_sched\<lparr>procs := [10 \<mapsto> ex_proc\<lparr>fds := (replicate FDS_COUNT 0)[3 := 2]\<rparr>],
     sfiles := [2 \<mapsto> \<lparr>sf_file = 1, sf_flags = O_RDWR\<rparr>]\<rparr>\<rparr>"


lemma get_fd_current: "CURRENT_PROC k = Some pr \<Longrightarrow> i < length (fds pr) \<Longrightarrow> get_fd i k = Some (fds pr ! i)"
  by (simp add: get_fd_def)

text \<open>
  C34: The two descriptors of a pipe share one file that counts one reference: closing the reading
  end frees the file, and the writing end is left with a slot that names a freed file.
\<close>

theorem syscall_pipe_close_dangles:
  assumes "CURRENT_THREAD k = Some t" and "CURRENT_PROC k = Some pr" and "length (fds pr) = FDS_COUNT" and "next_obj (disk k) \<noteq> 0"
    and "i < j" and "j < FDS_COUNT" and "fds pr ! i = 0" and "fds pr ! j = 0" and "\<forall>m<j. m \<noteq> i \<longrightarrow> fds pr ! m \<noteq> 0"
  shows "\<exists>k1 k2 p fp. syscall_pipe se k = Some (0, [(0, int i), (1, int j)], k1) \<and> syscall_close se i k1 = Some (0, k2) \<and>
    get_fd j k2 = Some p \<and> p \<noteq> 0 \<and> sfiles (disk k2) p = Some \<lparr>sf_file = fp, sf_flags = O_WRONLY\<rparr> \<and> files k2 fp = None"
proof -
  define fp where "fp = next_ptr k + 1"
  obtain ka where ka: "vfs_mkfifo (sy_env se) (sy_vfs se) (cstr ''unamed_fifo'') 0x1ff (t_uid t) (t_gid t) False k = Some (fp, ka)"
    and dka: "disk ka = disk k" and ex: "\<exists>f. files ka fp = Some f \<and> f_mode f = S_IFIFO OR 0x1ff \<and> f_ref_count f = 1 \<and> f_fs f = 0"
    by (auto simp: vfs_mkfifo_def new_pipe_def new_file_def fresh_file_def fp_def)
  then obtain f where f: "files ka fp = Some f" "f_mode f = S_IFIFO OR 0x1ff" "f_ref_count f = 1" "f_fs f = 0" by blast
  define r where "r = next_obj (disk k)"
  define kb where "kb = set_file fp (f\<lparr>f_offset := 0\<rparr>) (ka\<lparr>disk := (disk k)\<lparr>
     sfiles := (sfiles (disk k))(r \<mapsto> \<lparr>sf_file = fp, sf_flags = O_RDONLY\<rparr>, Suc r \<mapsto> \<lparr>sf_file = fp, sf_flags = O_WRONLY\<rparr>), next_obj := Suc (Suc r)\<rparr>\<rparr>)"
  have cur: "CURRENT_PROC kb = Some pr"
    using assms(2) by (simp add: kb_def CURRENT_PROC_def current_proc_ptr_def CURRENT_THREAD_def)
  have free: "free_fd 0 pr = Some i" using assms(5-9) by (simp add: free_fd_Some)
  obtain kc where kc: "set_fd i r kb = Some kc" "CURRENT_PROC kc = Some (pr\<lparr>fds := (fds pr)[i := r]\<rparr>)"
    "files kc = files kb" "sfiles (disk kc) = sfiles (disk kb)"
    using set_fd_run [OF cur] by blast
  have free2: "free_fd 0 (pr\<lparr>fds := (fds pr)[i := r]\<rparr>) = Some j"
    using assms(3-9) by (auto simp: free_fd_Some nth_list_update r_def)
  obtain kd where kd: "set_fd j (Suc r) kc = Some kd" "CURRENT_PROC kd = Some (pr\<lparr>fds := (fds pr)[i := r, j := Suc r]\<rparr>)"
    "files kd = files kb" "sfiles (disk kd) = sfiles (disk kb)"
    using set_fd_run [OF kc(2), of j "Suc r"] kc(3,4) by auto
  have pipe: "syscall_pipe se k = Some (0, [(0, int i), (1, int j)], kd)"
  proof -
    define k1 where "k1 = ka\<lparr>disk := (disk k)\<lparr>sfiles := (sfiles (disk k))(r \<mapsto> \<lparr>sf_file = fp, sf_flags = O_RDONLY\<rparr>), next_obj := Suc r\<rparr>\<rparr>"
    define k2 where "k2 = k1\<lparr>disk := (disk k)\<lparr>sfiles := (sfiles (disk k))(r \<mapsto> \<lparr>sf_file = fp, sf_flags = O_RDONLY\<rparr>,
        Suc r \<mapsto> \<lparr>sf_file = fp, sf_flags = O_WRONLY\<rparr>), next_obj := Suc (Suc r)\<rparr>\<rparr>"
    have "alloc_sfile \<lparr>sf_file = fp, sf_flags = O_RDONLY\<rparr> ka = (r, k1)"
      "alloc_sfile \<lparr>sf_file = fp, sf_flags = O_WRONLY\<rparr> k1 = (Suc r, k2)"
      using dka by (simp_all add: alloc_sfile_run r_def k1_def k2_def)
    moreover have "upd_file fp (\<lambda>f. f\<lparr>f_offset := 0\<rparr>) k2 = Some kb"
      using f(1) by (simp add: upd_file_def k2_def k1_def kb_def)
    moreover have "fp \<noteq> 0" by (simp add: fp_def)
    ultimately show ?thesis using assms(1) ka cur free kc(1,2) free2 kd(1)
      unfolding syscall_pipe_def by (simp del: cstr_simps)
  qed
  define ke where "ke = free_file fp ((set_file fp (f\<lparr>f_offset := 0, f_ref_count := 0\<rparr>) kd)\<lparr>pipes := (pipes kd)(f_pipe f := None)\<rparr>)"
  have "files kd fp = Some (f\<lparr>f_offset := 0\<rparr>)" using kd(3) by (simp add: kb_def)
  then have close: "vfs_close (sy_env se) fp kd = Some (0, ke)"
    using f(2-4) by (simp add: vfs_close_def ISFIFO_def ke_def Let_def set_file_def)
  have slot: "get_fd i kd = Some r" "sfiles (disk kd) r = Some \<lparr>sf_file = fp, sf_flags = O_RDONLY\<rparr>"
    using assms(3,5,6) kd(2,4) by (simp_all add: get_fd_current kb_def)
  have cur': "CURRENT_PROC (free_sfile r ke) = Some (pr\<lparr>fds := (fds pr)[i := r, j := Suc r]\<rparr>)"
    using kd(2) by (simp add: free_sfile_def ke_def free_file_def set_file_def CURRENT_PROC_def current_proc_ptr_def CURRENT_THREAD_def)
  obtain kg where kg: "set_fd i 0 (free_sfile r ke) = Some kg" "CURRENT_PROC kg = Some (pr\<lparr>fds := (fds pr)[i := r, j := Suc r, i := 0]\<rparr>)"
    "files kg = files (free_sfile r ke)" "sfiles (disk kg) = sfiles (disk (free_sfile r ke))"
    using set_fd_run [OF cur', of i 0] by auto
  have "syscall_close se i kd = Some (0, kg)"
    using slot close kg(1) assms(4) by (simp add: syscall_close_def r_def)
  moreover have "get_fd j kg = Some (Suc r)" using kg(2) assms(3,5,6) by (simp add: get_fd_current)
  moreover have "sfiles (disk kg) (Suc r) = Some \<lparr>sf_file = fp, sf_flags = O_WRONLY\<rparr>" "files kg fp = None"
    using kg(3,4) kd(4) by (simp_all add: free_sfile_def ke_def free_file_def set_file_def kb_def)
  ultimately show ?thesis using pipe by blast
qed

theorem syscall_pipe_close_dangles_witness:
  "\<exists>k1 k2 p fp. syscall_pipe ex_senv ex_kern = Some (0, [(0, 0), (1, 1)], k1) \<and> syscall_close ex_senv 0 k1 = Some (0, k2) \<and>
    get_fd 1 k2 = Some p \<and> p \<noteq> 0 \<and> sfiles (disk k2) p = Some \<lparr>sf_file = fp, sf_flags = O_WRONLY\<rparr> \<and> files k2 fp = None"
proof -
  have "next_obj (disk ex_kern) \<noteq> 0" by (simp add: ex_kern_def ex_sched_def ex_vm_def vmm_state.defs)
  then show ?thesis
    using syscall_pipe_close_dangles [OF ex_kern_current, of 0 1 ex_senv] by simp
qed

lemma find_position:
  assumes "P (xs ! n)" and "n < length xs" and "\<forall>m<n. \<not> P (xs ! m)"
  shows "find (\<lambda>i. P (xs ! i)) [0..<length xs] = Some n"
  using assms by (auto simp: find_Some_iff intro!: exI [of _ n])

lemma map_ok_ranges:
  assumes "map_ok pg pml4 s" and "pagemaps s pg = Some pm"
  shows "map_ok pg pml4 (s\<lparr>pagemaps := (pagemaps s)(pg \<mapsto> pm\<lparr>ranges := rs\<rparr>)\<rparr>)"
  using assms by (auto simp: map_ok_def)


definition ex_anon :: "u64 \<Rightarrow> u64 \<Rightarrow> mmap_range_t" where
  "ex_anon phys virt = \<lparr>mr_file = 0, mr_phys_addr = phys, mr_virt_addr = virt, mr_offset = 0, mr_length = 0x1000,
     mr_flags = MAP_ANON, mr_prot = 0\<rparr>"

definition ex_map_kern :: "sched_state kstate" where
  "ex_map_kern = ex_kern\<lparr>disk := ex_sched\<lparr>pagemaps := (pagemaps ex_sched)(kernel_pagemap \<mapsto>
     \<lparr>pm_lock = lock_init, top_level = 0x1000, ranges = [ex_anon 0x5000 0x10000, ex_anon 0x6000 0x20000]\<rparr>)\<rparr>\<rparr>"


end
