(* ===== verification/Acpi.thy ===== *)
theory Acpi
  imports Bytes
begin

text \<open>
  The firmware tables, \<^verbatim>\<open>src/src/kernel/acpi/acpi.c\<close>, read from the memory where the firmware left
  them. Tables are addresses; 0 is the null pointer. \<^const>\<open>None\<close> is halting without a table the
  kernel needs, or walking over the interrupt controller table for ever.
\<close>

section \<open>Tables\<close>

definition load16 :: "mem \<Rightarrow> u64 \<Rightarrow> u16" where
  "load16 m p = get16 (get_bytes m p 2) 0"

definition load32 :: "mem \<Rightarrow> u64 \<Rightarrow> u32" where
  "load32 m p = get32 (get_bytes m p 4) 0"

text \<open>
  A table starts with its signature of 4 bytes and its length; the header has 36
  bytes (\<^verbatim>\<open>sdt_t\<close>).
\<close>

definition sdt_length :: "mem \<Rightarrow> u64 \<Rightarrow> u32" where
  "sdt_length m h = load32 m (h + 4)"

record acpi_state =
  rsdp :: u64
  rsdt :: u64
  xsdt :: u64
  mcfg :: u64
  madt :: u64
  fadt :: u64
  madt_lapics :: "u64 list"
  madt_ioapics :: "u64 list"
  madt_nmis :: "u64 list"
  madt_isos :: "u64 list"

definition acpi_do_checksum :: "mem \<Rightarrow> u64 \<Rightarrow> bool" where
  "acpi_do_checksum m th = (fold (\<lambda>i sum. sum + m (th + of_nat i)) [0..<unat (sdt_length m th)] (0 :: u8) = 0)"

definition sdt_entries :: "mem \<Rightarrow> acpi_state \<Rightarrow> u64" where
  "sdt_entries m a = (if xsdt a = 0 then (ucast (sdt_length m (rsdt a)) - 36) div 4 else (ucast (sdt_length m (xsdt a)) - 36) div 8)"

definition sdt_ptr :: "mem \<Rightarrow> acpi_state \<Rightarrow> nat \<Rightarrow> u64" where
  "sdt_ptr m a t =
     (if xsdt a = 0 then ucast (load32 m (rsdt a + 36 + 4 * of_nat t)) + PHYS_MEM_OFFSET
      else load64 m (xsdt a + 36 + 8 * of_nat t) + PHYS_MEM_OFFSET)"

text \<open>
  The loop of \<^verbatim>\<open>acpi_get_table\<close>; \<^verbatim>\<open>strncmp\<close> with a bound of 4 compares the four bytes of the
  signature.
\<close>

fun get_table_loop :: "mem \<Rightarrow> cstring \<Rightarrow> int \<Rightarrow> u64 list \<Rightarrow> int \<Rightarrow> u64" where
  "get_table_loop m signature index [] i = 0"
| "get_table_loop m signature index (h # hs) i =
     (if get_bytes m h 4 = signature then
        if acpi_do_checksum m h \<and> i = index then h else get_table_loop m signature index hs (i + 1)
      else get_table_loop m signature index hs i)"

definition acpi_get_table :: "mem \<Rightarrow> acpi_state \<Rightarrow> cstring \<Rightarrow> int \<Rightarrow> u64" where
  "acpi_get_table m a signature index =
     get_table_loop m signature index (map (sdt_ptr m a) [0..<unat (sdt_entries m a)]) 0"


section \<open>The interrupt controllers\<close>

definition madt_push :: "mem \<Rightarrow> u64 \<Rightarrow> acpi_state \<Rightarrow> acpi_state" where
  "madt_push m header a =
     (if m header = 0 then a\<lparr>madt_lapics := madt_lapics a @ [header]\<rparr>
      else if m header = 1 then a\<lparr>madt_ioapics := madt_ioapics a @ [header]\<rparr>
      else if m header = 2 then a\<lparr>madt_isos := madt_isos a @ [header]\<rparr>
      else if m header = 4 then a\<lparr>madt_nmis := madt_nmis a @ [header]\<rparr>
      else a)"

text \<open>The fixed part of the table has 44 bytes; the second byte of an entry is its length.\<close>

partial_function (option) madt_walk :: "mem \<Rightarrow> u64 \<Rightarrow> u64 \<Rightarrow> u64 \<Rightarrow> acpi_state \<Rightarrow> acpi_state option" where
  "madt_walk m entries len i a =
     (if i < len then
        let header = entries + i in madt_walk m entries len (i + ucast (m (header + 1))) (madt_push m header a)
      else Some a)"

definition acpi_gather_madt :: "mem \<Rightarrow> acpi_state \<Rightarrow> acpi_state option" where
  "acpi_gather_madt m a =
     (let t = acpi_get_table m a (cstr ''APIC'') 0; a = a\<lparr>madt := t\<rparr> in
      if t = 0 then None else madt_walk m (t + 44) (ucast (sdt_length m t) - 44) 0 a)"

definition init_acpi :: "mem \<Rightarrow> u64 \<Rightarrow> acpi_state \<Rightarrow> acpi_state option" where
  "init_acpi m rsdp_info a =
     (let a = a\<lparr>rsdp := rsdp_info\<rparr> in
      if load32 m (rsdp_info + 16) = 0 then None
      else let a = a\<lparr>rsdt := ucast (load32 m (rsdp_info + 16)) + PHYS_MEM_OFFSET\<rparr>;
               a = (if m (rsdp_info + 15) > 0 then a\<lparr>xsdt := load64 m (rsdp_info + 24) + PHYS_MEM_OFFSET\<rparr> else a);
               a = a\<lparr>fadt := acpi_get_table m a (cstr ''FACP'') 0\<rparr>
           in acpi_gather_madt m a)"


section \<open>Lemmas\<close>

lemma checksum_sum: "fold (\<lambda>i sum. sum + f i) xs s = s + (\<Sum>i\<leftarrow>xs. f i :: u8)"
  by (induction xs arbitrary: s) (simp_all add: algebra_simps)

lemma get_table_loop_index:
  assumes "i \<le> index"
  shows "get_table_loop m sig index hs i =
    (let ms = filter (\<lambda>h. get_bytes m h 4 = sig) hs; k = nat (index - i) in
     if k < length ms \<and> acpi_do_checksum m (ms ! k) then ms ! k else 0)"
  using assms
proof (induction hs arbitrary: i)
  case Nil
  show ?case by simp
next
  case (Cons h hs)
  have past: "get_table_loop m sig index hs j = 0" if "index < j" for hs j
    using that by (induction hs arbitrary: j) auto
  show ?case
  proof (cases "i = index")
    case True
    then show ?thesis using Cons.IH [of i] past [of "i + 1" hs] by (auto simp: Let_def)
  next
    case False
    then have k: "nat (index - i) = Suc (nat (index - (i + 1)))" using Cons.prems by simp
    then show ?thesis using Cons.IH [of i] Cons.IH [of "i + 1"] False Cons.prems by (auto simp: Let_def)
  qed
qed

text \<open>
  C38: Looking a table up by signature and index: among the tables the root table lists with that
  signature it is the one at the index, provided its bytes add up to zero; otherwise
  the result is the null pointer. A damaged copy still counts towards the index.
\<close>

theorem acpi_get_table_selects:
  assumes "0 \<le> index"
  shows "acpi_get_table m a sig index =
    (let ms = filter (\<lambda>h. get_bytes m h 4 = sig) (map (sdt_ptr m a) [0..<unat (sdt_entries m a)]) in
     if nat index < length ms \<and> (\<Sum>i\<leftarrow>[0..<unat (sdt_length m (ms ! nat index))]. m (ms ! nat index + of_nat i)) = 0
     then ms ! nat index else 0)"
  using get_table_loop_index [of 0 index m sig "map (sdt_ptr m a) [0..<unat (sdt_entries m a)]"] assms
  by (simp add: acpi_get_table_def acpi_do_checksum_def checksum_sum Let_def)

lemma get_bytes_map: "get_bytes m p n = map (\<lambda>i. m (p + of_nat i)) [0..<n]"
  by (rule nth_equalityI) auto

lemma get_bytes_part: "k + j \<le> n \<Longrightarrow> get_bytes m (p + of_nat k) j = take j (drop k (get_bytes m p n))"
  by (rule nth_equalityI) (auto simp: algebra_simps)

text \<open>A root table that lists one table, which follows it.\<close>

definition ex_root :: u64 where "ex_root = PHYS_MEM_OFFSET + 0x1000"
definition ex_madt :: u64 where "ex_madt = ex_root + 40"

definition ex_madt_bytes :: "u8 list" where
  "ex_madt_bytes = cstr ''APIC'' @ [52, 0, 0, 0] @ replicate 34 0 @ [252, 170] @ [0, 8, 0, 0, 1, 0, 0, 0]"

definition ex_tables :: "u8 list" where
  "ex_tables = replicate 4 0 @ [40, 0, 0, 0] @ replicate 28 0 @ [0x28, 0x10, 0, 0] @ ex_madt_bytes"

definition ex_acpi_mem :: mem where
  "ex_acpi_mem = put_bytes (\<lambda>_. 0) ex_root ex_tables"

definition ex_acpi :: acpi_state where
  "ex_acpi = \<lparr>rsdp = 0, rsdt = ex_root, xsdt = 0, mcfg = 0, madt = 0, fadt = 0, madt_lapics = [], madt_ioapics = [], madt_nmis = [], madt_isos = []\<rparr>"

lemma ex_tables_at: "k + j \<le> 92 \<Longrightarrow> get_bytes ex_acpi_mem (ex_root + of_nat k) j = take j (drop k ex_tables)"
proof -
  have "length ex_tables = 92" by (simp add: ex_tables_def ex_madt_bytes_def)
  then have "get_bytes ex_acpi_mem ex_root 92 = ex_tables" using get_put_bytes [of ex_tables] by (simp add: ex_acpi_mem_def)
  then show "k + j \<le> 92 \<Longrightarrow> ?thesis" using get_bytes_part [of k j 92 ex_acpi_mem ex_root] by simp
qed

lemma ex_madt_at: "get_bytes ex_acpi_mem ex_madt 52 = ex_madt_bytes"
  using ex_tables_at [of 40 52] by (simp add: ex_tables_def ex_madt_bytes_def ex_madt_def)

lemma ex_acpi_loads:
  "sdt_length ex_acpi_mem ex_root = 40" "sdt_length ex_acpi_mem ex_madt = 52" "sdt_ptr ex_acpi_mem ex_acpi 0 = ex_madt"
  using ex_tables_at [of 4 4] ex_tables_at [of 44 4] ex_tables_at [of 36 4]
  by (simp_all add: sdt_length_def sdt_ptr_def load32_def ex_acpi_def ex_madt_def ex_root_def ex_tables_def ex_madt_bytes_def
      get32_def get16_def byte_at_def add.assoc)

lemma ex_madt_found:
  "unat (sdt_entries ex_acpi_mem ex_acpi) = 1" "get_bytes ex_acpi_mem ex_madt 4 = cstr ''APIC''"
  "(\<Sum>i\<leftarrow>[0..<52]. ex_acpi_mem (ex_madt + of_nat i)) = 0"
proof -
  show "unat (sdt_entries ex_acpi_mem ex_acpi) = 1" by (simp add: sdt_entries_def ex_acpi_loads ex_acpi_def)
  show "get_bytes ex_acpi_mem ex_madt 4 = cstr ''APIC''"
    using arg_cong [OF ex_madt_at, of "take 4"] by (simp add: get_bytes_map ex_madt_bytes_def take_map)
  show "(\<Sum>i\<leftarrow>[0..<52]. ex_acpi_mem (ex_madt + of_nat i)) = 0"
    unfolding get_bytes_map [symmetric] ex_madt_at by (simp add: ex_madt_bytes_def cstr_def sum_list_replicate)
qed

lemma ex_get_table: "acpi_get_table ex_acpi_mem ex_acpi (cstr ''APIC'') 0 = ex_madt"
proof -
  have "acpi_do_checksum ex_acpi_mem ex_madt"
    unfolding acpi_do_checksum_def checksum_sum ex_acpi_loads using ex_madt_found(3) by simp
  then show ?thesis using ex_madt_found(1,2) by (simp add: acpi_get_table_def ex_acpi_loads)
qed

theorem acpi_get_table_selects_witness:
  "acpi_get_table ex_acpi_mem ex_acpi (cstr ''APIC'') 0 = ex_madt"
  using acpi_get_table_selects [of 0 ex_acpi_mem ex_acpi "cstr ''APIC''"] ex_madt_found by (simp add: ex_acpi_loads)

section \<open>The walk over the interrupt controller table\<close>

fun entry_offsets :: "nat \<Rightarrow> u8 list list \<Rightarrow> nat list" where
  "entry_offsets k [] = []"
| "entry_offsets k (e # es) = k # entry_offsets (k + length e) es"

definition madt_entries_ok :: "u8 list list \<Rightarrow> bool" where
  "madt_entries_ok es \<longleftrightarrow> (\<forall>e\<in>set es. 2 \<le> length e \<and> length e < 256 \<and> e ! 1 = of_nat (length e))"

lemma madt_walk_entries:
  assumes "madt_entries_ok es" and "k + length (concat es) = unat len" and "get_bytes m (entries + of_nat k) (length (concat es)) = concat es"
  shows "madt_walk m entries len (of_nat k) a = Some (fold (madt_push m) (map (\<lambda>k. entries + of_nat k) (entry_offsets k es)) a)"
  using assms
proof (induction es arbitrary: k a)
  case Nil
  then have "of_nat k = len" by simp
  then show ?case by (subst madt_walk.simps) simp
next
  case (Cons e es)
  have e: "2 \<le> length e" "length e < 256" "e ! 1 = of_nat (length e)" using Cons.prems(1) by (auto simp: madt_entries_ok_def)
  have es: "madt_entries_ok es" using Cons.prems(1) by (simp add: madt_entries_ok_def)
  have sum: "k + length e + length (concat es) = unat len" using Cons.prems(2) by simp
  have "k \<le> unat len" using sum by simp
  from le_less_trans [OF this unat_lt64] have k: "unat (of_nat k :: u64) = k" by (intro unat_of_nat_id) simp
  then have less: "(of_nat k :: u64) < len" using sum e(1) by (simp add: word_less_nat_alt)
  have bytes: "get_bytes m (entries + of_nat k) (length e + length (concat es)) = e @ concat es" using Cons.prems(3) by simp
  have "get_bytes m (entries + of_nat k + of_nat 1) 1 = take 1 (drop 1 (e @ concat es))"
    using get_bytes_part [of 1 1 "length e + length (concat es)" m "entries + of_nat k"] e(1) bytes by simp
  then have "m (entries + of_nat k + 1) = of_nat (length e)"
    using e by (cases e; cases "tl e") auto
  then have l: "ucast (m (entries + of_nat k + 1)) = (of_nat (length e) :: u64)"
    using e(2) by (simp add: word_unat_eq_iff unsigned_ucast_eq unsigned_of_nat take_bit_nat_eq_self)
  have rest: "get_bytes m (entries + of_nat (k + length e)) (length (concat es)) = concat es"
    using get_bytes_part [of "length e" "length (concat es)" "length e + length (concat es)" m "entries + of_nat k"] bytes
    by (simp add: algebra_simps)
  have "madt_walk m entries len (of_nat k) a = madt_walk m entries len (of_nat (k + length e)) (madt_push m (entries + of_nat k) a)"
    using less l by (subst madt_walk.simps) simp
  then show ?case using Cons.IH [OF es sum rest] by simp
qed

lemma fold_madt_push:
  "madt_lapics (fold (madt_push m) hs a) = madt_lapics a @ filter (\<lambda>h. m h = 0) hs"
  "madt_ioapics (fold (madt_push m) hs a) = madt_ioapics a @ filter (\<lambda>h. m h = 1) hs"
  "madt_isos (fold (madt_push m) hs a) = madt_isos a @ filter (\<lambda>h. m h = 2) hs"
  "madt_nmis (fold (madt_push m) hs a) = madt_nmis a @ filter (\<lambda>h. m h = 4) hs"
  by (induction hs arbitrary: a) (auto simp: madt_push_def)

text \<open>
  C39: Gathering the interrupt controllers ends on every well-formed table, whose entries hold their own
  length, and sorts the addresses of the entries by their kind, each kind in the order
  of the table. Without the table, or with an entry of length zero, the kernel never comes back.
\<close>

theorem acpi_gather_madt_sorts:
  assumes "acpi_get_table m a (cstr ''APIC'') 0 = t" and "t \<noteq> 0"
    and "madt_entries_ok es" and "get_bytes m (t + 44) (length (concat es)) = concat es"
    and "unat (sdt_length m t) = 44 + length (concat es)"
  defines "hs \<equiv> map (\<lambda>k. t + 44 + of_nat k) (entry_offsets 0 es)"
  shows "\<exists>a'. acpi_gather_madt m a = Some a' \<and>
    madt_lapics a' = madt_lapics a @ filter (\<lambda>h. m h = 0) hs \<and> madt_ioapics a' = madt_ioapics a @ filter (\<lambda>h. m h = 1) hs \<and>
    madt_isos a' = madt_isos a @ filter (\<lambda>h. m h = 2) hs \<and> madt_nmis a' = madt_nmis a @ filter (\<lambda>h. m h = 4) hs"
proof -
  have u: "unat (ucast (sdt_length m t) :: u64) = 44 + length (concat es)"
  proof -
    have "unat (ucast w :: u64) = unat w" for w :: u32
      by (simp add: unsigned_ucast_eq take_bit_nat_eq_self less_trans [OF unat_lt32])
    then show ?thesis using assms(5) by simp
  qed
  then have "0 + length (concat es) = unat (ucast (sdt_length m t) - 44 :: u64)"
    by (subst unat_sub_small) simp_all
  then have "madt_walk m (t + 44) (ucast (sdt_length m t) - 44) (of_nat 0) (a\<lparr>madt := t\<rparr>) = Some (fold (madt_push m) hs (a\<lparr>madt := t\<rparr>))"
    unfolding hs_def by (intro madt_walk_entries [OF assms(3)]) (use assms(4) in simp_all)
  then show ?thesis using assms(1,2) by (auto simp: acpi_gather_madt_def Let_def fold_madt_push)
qed

theorem acpi_gather_madt_sorts_witness:
  "\<exists>a'. acpi_gather_madt ex_acpi_mem ex_acpi = Some a' \<and> madt_lapics a' = [ex_madt + 44] \<and> madt_ioapics a' = []"
proof -
  define es :: "u8 list list" where "es = [[0, 8, 0, 0, 1, 0, 0, 0]]"
  have ok: "madt_entries_ok es" by (simp add: madt_entries_ok_def es_def)
  have bytes: "get_bytes ex_acpi_mem (ex_madt + 44) 8 = concat es"
    using ex_tables_at [of 84 8] by (simp add: ex_tables_def ex_madt_bytes_def ex_madt_def es_def add.assoc)
  then have id: "ex_acpi_mem (ex_madt + 44) = 0" using nth_get_bytes [of 0 8 ex_acpi_mem "ex_madt + 44"] by (simp add: es_def)
  have get: "acpi_get_table ex_acpi_mem ex_acpi (cstr ''APIC'') 0 = ex_madt" by (rule ex_get_table)
  have nz: "ex_madt \<noteq> 0" by (simp add: ex_madt_def ex_root_def)
  have len: "length (concat es) = 8" by (simp add: es_def)
  have sz: "unat (sdt_length ex_acpi_mem ex_madt) = 44 + length (concat es)" by (simp add: ex_acpi_loads len del: length_concat)
  from acpi_gather_madt_sorts [OF get nz ok bytes [folded len] sz]
  show ?thesis by (auto simp: es_def id ex_acpi_def)
qed

end
