(* ===== verification/Pci.thy ===== *)
theory Pci
  imports Acpi
begin

text \<open>
  The PCI bus, \<^verbatim>\<open>src/src/kernel/pci/enumerate.c\<close> and \<^verbatim>\<open>src/src/kernel/pci/utils.c\<close>: the configuration spaces of the
  functions are memory at the addresses the firmware table lists. What a write changes
  there is up to the device and a parameter. The messages printed on the way and
  the texts of \<^verbatim>\<open>pci_descriptors.c\<close> they use are left out.
\<close>

section \<open>Enumeration\<close>

record pci_header_t =
  vendor_id :: u16
  device_id :: u16
  pci_command :: u16
  pci_status :: u16
  revision_id :: u8
  prog_if :: u8
  pci_subclass :: u8
  pci_class :: u8
  cache_lsize :: u8
  latency_timer :: u8
  header_type :: u8
  pci_bist :: u8

record pci_device_t =
  pci_header :: pci_header_t
  pci_segment :: u16
  pci_bus :: u32
  pci_dev :: u8
  pci_function :: u8

record mcfg_entry_t =
  base_address :: u64
  seg_grp :: u16
  sbus :: u8
  ebus :: u8

definition header_at :: "mem \<Rightarrow> u64 \<Rightarrow> pci_header_t" where
  "header_at m p = \<lparr>vendor_id = load16 m p, device_id = load16 m (p + 2), pci_command = load16 m (p + 4), pci_status = load16 m (p + 6),
     revision_id = m (p + 8), prog_if = m (p + 9), pci_subclass = m (p + 10), pci_class = m (p + 11), cache_lsize = m (p + 12),
     latency_timer = m (p + 13), header_type = m (p + 14), pci_bist = m (p + 15)\<rparr>"

text \<open>The table: a header of 44 bytes, then entries of 16 bytes.\<close>

definition mcfg_entry_at :: "mem \<Rightarrow> u64 \<Rightarrow> mcfg_entry_t" where
  "mcfg_entry_at m p = \<lparr>base_address = load64 m p, seg_grp = load16 m (p + 8), sbus = m (p + 10), ebus = m (p + 11)\<rparr>"

definition mcfg_entries :: "mem \<Rightarrow> u64 \<Rightarrow> mcfg_entry_t list" where
  "mcfg_entries m tbl = map (\<lambda>t. mcfg_entry_at m (tbl + 44 + 16 * of_nat t)) [0..<unat ((ucast (sdt_length m tbl) - 44 :: u64) div 16)]"

definition pci_absent :: "mem \<Rightarrow> u64 \<Rightarrow> bool" where
  "pci_absent m p \<longleftrightarrow> device_id (header_at m p) = 0 \<or> device_id (header_at m p) = 0xffff"

definition pci_enumerate_fn :: "mem \<Rightarrow> u64 \<Rightarrow> u64 \<Rightarrow> u8 \<Rightarrow> u8 \<Rightarrow> pci_device_t list \<Rightarrow> pci_device_t list" where
  "pci_enumerate_fn m device_address bus device function devs =
     (let function_address = device_address + push_bit 12 (ucast function) in
      if pci_absent m function_address then devs
      else devs @ [\<lparr>pci_header = header_at m function_address, pci_segment = 0, pci_bus = ucast bus, pci_dev = device, pci_function = function\<rparr>])"

definition pci_enumerate_dev :: "mem \<Rightarrow> u64 \<Rightarrow> u64 \<Rightarrow> u8 \<Rightarrow> pci_device_t list \<Rightarrow> pci_device_t list" where
  "pci_enumerate_dev m bus_address bus device devs =
     (let device_address = bus_address + push_bit 15 (ucast device); h = header_at m device_address in
      if pci_absent m device_address then devs
      else if header_type h AND 0x7f \<noteq> 0 then devs
      else fold (\<lambda>f. pci_enumerate_fn m device_address bus device (of_nat f))
             [0..<if header_type h AND 0x80 \<noteq> 0 then 8 else 1] devs)"

definition pci_enumerate_bus :: "mem \<Rightarrow> u64 \<Rightarrow> u64 \<Rightarrow> pci_device_t list \<Rightarrow> pci_device_t list" where
  "pci_enumerate_bus m base bus devs =
     (let bus_address = base + push_bit 20 bus in
      if pci_absent m bus_address then devs
      else fold (\<lambda>d. pci_enumerate_dev m bus_address bus (of_nat d)) [0..<32] devs)"

definition pci_enumerate :: "mem \<Rightarrow> acpi_state \<Rightarrow> int \<times> acpi_state \<times> pci_device_t list" where
  "pci_enumerate m a =
     (let a = a\<lparr>mcfg := acpi_get_table m a (cstr ''MCFG'') 0\<rparr> in
      if mcfg a = 0 then (1, a, [])
      else (0, a, fold (\<lambda>e. fold (\<lambda>bus. pci_enumerate_bus m (base_address e + PHYS_MEM_OFFSET) (of_nat bus))
                       [unat (sbus e)..<unat (ebus e)]) (mcfg_entries m (mcfg a)) []))"


section \<open>Configuration space\<close>

definition get_entry :: "mcfg_entry_t list \<Rightarrow> u16 \<Rightarrow> u8 \<Rightarrow> mcfg_entry_t option" where
  "get_entry es segment bus = find (\<lambda>e. seg_grp e = segment \<and> sbus e \<le> bus \<and> ebus e \<ge> bus) es"

definition get_device_addr :: "mcfg_entry_t \<Rightarrow> u8 \<Rightarrow> u8 \<Rightarrow> u8 \<Rightarrow> u64" where
  "get_device_addr e bus device function = base_address e + PHYS_MEM_OFFSET +
     (push_bit 20 (ucast bus - ucast (sbus e)) OR push_bit 15 (ucast device) OR push_bit 12 (ucast function))"

text \<open>The bus number is cut to 8 bits; \<^const>\<open>None\<close> is the use of a null entry.\<close>

definition pci_addr :: "mcfg_entry_t list \<Rightarrow> pci_device_t \<Rightarrow> u16 \<Rightarrow> u64 option" where
  "pci_addr es dev offset =
     map_option (\<lambda>e. get_device_addr e (ucast (pci_bus dev)) (pci_dev dev) (pci_function dev) + ucast offset)
       (get_entry es (pci_segment dev) (ucast (pci_bus dev)))"

definition pci_read_8 :: "mcfg_entry_t list \<Rightarrow> pci_device_t \<Rightarrow> u16 \<Rightarrow> mem \<Rightarrow> u8 option" where
  "pci_read_8 es dev offset m = map_option m (pci_addr es dev offset)"

definition pci_read_16 :: "mcfg_entry_t list \<Rightarrow> pci_device_t \<Rightarrow> u16 \<Rightarrow> mem \<Rightarrow> u16 option" where
  "pci_read_16 es dev offset m = map_option (load16 m) (pci_addr es dev offset)"

definition pci_read_32 :: "mcfg_entry_t list \<Rightarrow> pci_device_t \<Rightarrow> u16 \<Rightarrow> mem \<Rightarrow> u32 option" where
  "pci_read_32 es dev offset m = map_option (load32 m) (pci_addr es dev offset)"

text \<open>A write of so many bytes: what the memory shows afterwards is the first argument.\<close>

definition pci_write_8 :: "(u64 \<Rightarrow> u8 list \<Rightarrow> mem \<Rightarrow> mem) \<Rightarrow> mcfg_entry_t list \<Rightarrow> pci_device_t \<Rightarrow> u16 \<Rightarrow> u8 \<Rightarrow> mem \<Rightarrow> mem option" where
  "pci_write_8 wr es dev offset data m = map_option (\<lambda>p. wr p [data] m) (pci_addr es dev offset)"

definition pci_write_16 :: "(u64 \<Rightarrow> u8 list \<Rightarrow> mem \<Rightarrow> mem) \<Rightarrow> mcfg_entry_t list \<Rightarrow> pci_device_t \<Rightarrow> u16 \<Rightarrow> u16 \<Rightarrow> mem \<Rightarrow> mem option" where
  "pci_write_16 wr es dev offset data m = map_option (\<lambda>p. wr p [ucast data, ucast (drop_bit 8 data)] m) (pci_addr es dev offset)"

definition pci_write_32 :: "(u64 \<Rightarrow> u8 list \<Rightarrow> mem \<Rightarrow> mem) \<Rightarrow> mcfg_entry_t list \<Rightarrow> pci_device_t \<Rightarrow> u16 \<Rightarrow> u32 \<Rightarrow> mem \<Rightarrow> mem option" where
  "pci_write_32 wr es dev offset data m =
     map_option (\<lambda>p. wr p [ucast data, ucast (drop_bit 8 data), ucast (drop_bit 16 data), ucast (drop_bit 24 data)] m) (pci_addr es dev offset)"

record pci_bar_t =
  bar_base :: u64
  bar_size :: u64
  bar_type :: u32

text \<open>
  The width code 3 leaves \<^verbatim>\<open>base\<close> uninitialised, the argument \<open>junk\<close>; the upper half of a 64-bit
  address is read at an offset computed from the value of the register.
\<close>

definition bar_base_of :: "u64 \<Rightarrow> mcfg_entry_t list \<Rightarrow> pci_device_t \<Rightarrow> u32 \<Rightarrow> mem \<Rightarrow> u64 option" where
  "bar_base_of junk es dev bar_val m =
     (if bar_val AND 1 \<noteq> 0 then Some (ucast (bar_val AND 0xfffffffc))
      else let bitness = drop_bit 1 bar_val AND 3 in
        if bitness = 1 then Some (ucast (bar_val AND 0xfff0))
        else if bitness = 0 then Some (ucast (bar_val AND 0xfffffff0))
        else if bitness = 2 then
          map_option (\<lambda>hi. push_bit 32 (ucast hi) OR ucast (bar_val AND 0xfffffff0)) (pci_read_32 es dev (ucast (0x10 + bar_val * 4 + 4)) m)
        else Some junk)"

definition pci_get_bar ::
    "(u64 \<Rightarrow> u8 list \<Rightarrow> mem \<Rightarrow> mem) \<Rightarrow> u64 \<Rightarrow> mcfg_entry_t list \<Rightarrow> pci_device_t \<Rightarrow> u8 \<Rightarrow> mem \<Rightarrow> (pci_bar_t \<times> mem) option" where
  "pci_get_bar wr junk es dev barno m = do {
     let reg = 0x10 + ucast barno * 4;
     bar_val \<leftarrow> pci_read_32 es dev reg m;
     base \<leftarrow> bar_base_of junk es dev bar_val m;
     m \<leftarrow> pci_write_32 wr es dev reg 0xffffffff m;
     sz \<leftarrow> pci_read_32 es dev reg m;
     let sz = (ucast sz :: u64) AND (if bar_val AND 1 \<noteq> 0 then 0xfffffffc else 0xfffffff0);
     m \<leftarrow> pci_write_32 wr es dev reg bar_val m;
     Some (\<lparr>bar_base = base, bar_size = NOT sz + 1, bar_type = bar_val AND 1\<rparr>, m)
   }"


section \<open>Lemmas\<close>

lemma fold_enumerate:
  assumes "\<And>x ds. set (f x ds) = set ds \<union> S x"
  shows "set (fold f xs ds) = set ds \<union> (\<Union>x\<in>set xs. S x)"
  by (induction xs arbitrary: ds) (auto simp: assms)

definition fn_devices :: "mem \<Rightarrow> u64 \<Rightarrow> u64 \<Rightarrow> u8 \<Rightarrow> u8 \<Rightarrow> pci_device_t set" where
  "fn_devices m da bus device function =
     (let p = da + push_bit 12 (ucast function) in if pci_absent m p then {}
      else {\<lparr>pci_header = header_at m p, pci_segment = 0, pci_bus = ucast bus, pci_dev = device, pci_function = function\<rparr>})"

definition dev_devices :: "mem \<Rightarrow> u64 \<Rightarrow> u64 \<Rightarrow> u8 \<Rightarrow> pci_device_t set" where
  "dev_devices m ba bus device =
     (let p = ba + push_bit 15 (ucast device) in if pci_absent m p \<or> header_type (header_at m p) AND 0x7f \<noteq> 0 then {}
      else \<Union>f\<in>{0..<if header_type (header_at m p) AND 0x80 \<noteq> 0 then 8 else 1}. fn_devices m p bus device (of_nat f))"

definition bus_devices :: "mem \<Rightarrow> u64 \<Rightarrow> u64 \<Rightarrow> pci_device_t set" where
  "bus_devices m base bus =
     (let p = base + push_bit 20 bus in if pci_absent m p then {} else \<Union>d\<in>{0..<32}. dev_devices m p bus (of_nat d))"

lemma set_enumerate_fn: "set (pci_enumerate_fn m da bus d f ds) = set ds \<union> fn_devices m da bus d f"
  by (simp add: pci_enumerate_fn_def fn_devices_def Let_def)

lemma set_enumerate_dev: "set (pci_enumerate_dev m ba bus d ds) = set ds \<union> dev_devices m ba bus d"
  by (simp add: pci_enumerate_dev_def dev_devices_def Let_def fold_enumerate [OF set_enumerate_fn])

lemma set_enumerate_bus: "set (pci_enumerate_bus m base bus ds) = set ds \<union> bus_devices m base bus"
  by (simp add: pci_enumerate_bus_def bus_devices_def Let_def fold_enumerate [OF set_enumerate_dev])

lemma bit_of_nat_small: "bit (of_nat d :: u64) n \<Longrightarrow> d < 2 ^ k \<Longrightarrow> n < k"
proof (rule ccontr)
  assume b: "bit (of_nat d :: u64) n" and d: "d < 2 ^ k" and n: "\<not> n < k"
  have "(2 :: nat) ^ k \<le> 2 ^ n" using n by (intro power_increasing) simp_all
  then have "d div 2 ^ n = 0" by (rule div_less [OF less_le_trans [OF d]])
  then show False using b by (simp add: bit_of_nat_iff bit_iff_odd [of d])
qed

lemma ucast_byte_nat: "n < 256 \<Longrightarrow> ucast (of_nat n :: u8) = (of_nat n :: u64)"
  by (simp add: word_unat_eq_iff unsigned_ucast_eq unsigned_of_nat take_bit_nat_eq_self)

text \<open>On a segment that starts at bus 0 the two ways to compute an address agree.\<close>

lemma function_address:
  assumes "sbus e = 0" and "b < 256" and "d < 32" and "f < 8"
  shows "base_address e + PHYS_MEM_OFFSET + push_bit 20 (of_nat b) + push_bit 15 (ucast (of_nat d :: u8)) + push_bit 12 (ucast (of_nat f :: u8)) =
    get_device_addr e (of_nat b) (of_nat d) (of_nat f)"
proof -
  have u: "ucast (of_nat b :: u8) = (of_nat b :: u64)" "ucast (of_nat d :: u8) = (of_nat d :: u64)" "ucast (of_nat f :: u8) = (of_nat f :: u64)"
    using assms(2-4) by (simp_all add: ucast_byte_nat)
  have fd: "push_bit 15 (of_nat d :: u64) + push_bit 12 (of_nat f) = push_bit 15 (of_nat d) OR push_bit 12 (of_nat f)"
  proof (rule disjunctive_add)
    fix n show "\<not> bit (push_bit 15 (of_nat d :: u64)) n \<or> \<not> bit (push_bit 12 (of_nat f :: u64)) n"
      using bit_of_nat_small [of f "n - 12" 3] assms(4) by (auto simp: bit_push_bit_iff)
  qed
  have bd: "push_bit 20 (of_nat b :: u64) + (push_bit 15 (of_nat d) OR push_bit 12 (of_nat f)) = push_bit 20 (of_nat b) OR (push_bit 15 (of_nat d) OR push_bit 12 (of_nat f))"
  proof (rule disjunctive_add)
    fix n show "\<not> bit (push_bit 20 (of_nat b :: u64)) n \<or> \<not> bit (push_bit 15 (of_nat d) OR push_bit 12 (of_nat f) :: u64) n"
      using bit_of_nat_small [of f "n - 12" 3] bit_of_nat_small [of d "n - 15" 5] assms(3,4) by (auto simp: bit_push_bit_iff bit_or_iff)
  qed
  show ?thesis
    unfolding get_device_addr_def assms(1) u using fd bd by (simp add: add.assoc or.assoc)
qed

lemma bus_devices_cases:
  assumes "x \<in> bus_devices m (base_address e + PHYS_MEM_OFFSET) (of_nat b)" and "sbus e = 0" and "b < 256"
  obtains d f where "d < 32" "f < 8" "x = \<lparr>pci_header = header_at m (get_device_addr e (of_nat b) (of_nat d) (of_nat f)), pci_segment = 0,
      pci_bus = of_nat b, pci_dev = of_nat d, pci_function = of_nat f\<rparr>"
    "\<not> pci_absent m (get_device_addr e (of_nat b) (of_nat d) (of_nat f))"
proof -
  from assms(1) obtain d where d: "d < 32" "x \<in> dev_devices m (base_address e + PHYS_MEM_OFFSET + push_bit 20 (of_nat b)) (of_nat b) (of_nat d)"
    by (auto simp: bus_devices_def Let_def split: if_splits)
  define p where "p = base_address e + PHYS_MEM_OFFSET + push_bit 20 (of_nat b) + push_bit 15 (ucast (of_nat d :: u8))"
  from d(2) obtain f where f: "f < 8" "x \<in> fn_devices m p (of_nat b) (of_nat d) (of_nat f)"
    by (fastforce simp: dev_devices_def Let_def p_def split: if_splits)
  have "ucast (of_nat b :: u64) = (of_nat b :: u32)"
    by (simp add: word_unat_eq_iff unsigned_ucast_eq unsigned_of_nat take_bit_take_bit)
  then show thesis
    using f(2) function_address [OF assms(2,3) d(1) f(1)] by (intro that [OF d(1) f(1)]) (auto simp: fn_devices_def p_def [symmetric] Let_def split: if_splits)
qed


text \<open>A root table, the table of one segment with a single bus, and the header of its only function, one after the other.\<close>

definition ex_pci_bytes :: "u8 list" where
  "ex_pci_bytes = replicate 4 0 @ [40, 0, 0, 0] @ replicate 28 0 @ [0x28, 0x10, 0, 0] @
     cstr ''MCFG'' @ [60, 0, 0, 0, 0, 50] @ replicate 34 0 @ [0x64, 0x10, 0, 0, 0, 0, 0, 0, 0, 0, 0, 1, 0, 0, 0, 0] @
     [0x86, 0x80, 0x34, 0x12, 0, 0, 0, 0, 0, 0, 6, 1, 0, 0, 0x80, 0]"

definition ex_pci_mem :: mem where
  "ex_pci_mem = put_bytes (\<lambda>_. 0) ex_root ex_pci_bytes"

lemma ex_pci_at: "k + j \<le> 116 \<Longrightarrow> get_bytes ex_pci_mem (ex_root + of_nat k) j = take j (drop k ex_pci_bytes)"
proof -
  have "length ex_pci_bytes = 116" by (simp add: ex_pci_bytes_def)
  then have "get_bytes ex_pci_mem ex_root 116 = ex_pci_bytes" using get_put_bytes [of ex_pci_bytes] by (simp add: ex_pci_mem_def)
  then show "k + j \<le> 116 \<Longrightarrow> ?thesis" using get_bytes_part [of k j 116 ex_pci_mem ex_root] by simp
qed

lemma ex_mcfg_entry: "mcfg_entries ex_pci_mem ex_madt = [\<lparr>base_address = 0x1064, seg_grp = 0, sbus = 0, ebus = 1\<rparr>]"
proof -
  have "sdt_length ex_pci_mem ex_madt = 60"
    using ex_pci_at [of 44 4] by (simp add: sdt_length_def load32_def ex_madt_def ex_pci_bytes_def get32_def get16_def byte_at_def add.assoc)
  moreover have "load64 ex_pci_mem (ex_madt + 44) = 0x1064"
    using ex_pci_at [of 84 8] by (simp add: load64_def ex_madt_def ex_pci_bytes_def add.assoc)
  moreover have "load16 ex_pci_mem (ex_madt + 52) = 0"
    using ex_pci_at [of 92 2] by (simp add: load16_def ex_madt_def ex_pci_bytes_def get16_def byte_at_def add.assoc)
  moreover have "ex_pci_mem (ex_madt + 54) = 0" "ex_pci_mem (ex_madt + 55) = 1"
    using ex_pci_at [of 94 1] ex_pci_at [of 95 1] by (simp_all add: ex_madt_def ex_pci_bytes_def add.assoc)
  ultimately show ?thesis by (simp add: mcfg_entries_def mcfg_entry_at_def add.assoc)
qed

lemma ex_pci_table: "acpi_get_table ex_pci_mem ex_acpi (cstr ''MCFG'') 0 = ex_madt"
proof -
  have len: "sdt_length ex_pci_mem ex_root = 40" "sdt_length ex_pci_mem ex_madt = 60" and ptr: "sdt_ptr ex_pci_mem ex_acpi 0 = ex_madt"
    using ex_pci_at [of 4 4] ex_pci_at [of 44 4] ex_pci_at [of 36 4]
    by (simp_all add: sdt_length_def sdt_ptr_def load32_def ex_acpi_def ex_madt_def ex_root_def ex_pci_bytes_def get32_def get16_def byte_at_def add.assoc)
  have "unat (sdt_entries ex_pci_mem ex_acpi) = 1" by (simp add: sdt_entries_def len ex_acpi_def)
  moreover have "get_bytes ex_pci_mem ex_madt 4 = cstr ''MCFG''"
    using ex_pci_at [of 40 4] by (simp add: ex_madt_def ex_pci_bytes_def)
  moreover have "(\<Sum>i\<leftarrow>[0..<60]. ex_pci_mem (ex_madt + of_nat i)) = 0"
    using ex_pci_at [of 40 60] unfolding get_bytes_map [symmetric] by (simp add: ex_madt_def ex_pci_bytes_def cstr_def sum_list_replicate)
  then have "acpi_do_checksum ex_pci_mem ex_madt" unfolding acpi_do_checksum_def checksum_sum len by simp
  ultimately show ?thesis by (simp add: acpi_get_table_def ptr)
qed


end
