(* ===== verification/Ahci.thy ===== *)
theory Ahci
  imports Pmm Device Pci
begin

text \<open>
  The driver of SATA disks, \<^verbatim>\<open>src/src/kernel/drivers/ahci.c\<close>. A port is its registers; the command
  lists and command tables are found by the physical addresses the code stores in the registers
  and headers. The controller is not part of the source: how it answers a write to a register and
  what it does between two accesses are the fields of \<open>hba_hw\<close>, and \<open>hba_spec\<close> is
  what the specification of the interface promises of them. \<^const>\<open>None\<close> is a wait that never
  ends, or a write beyond the page of a command table.
\<close>

section \<open>Registers and command structures\<close>

record hba_port_t =
  p_clb :: u32
  p_clbu :: u32
  p_fb :: u32
  p_fbu :: u32
  p_is :: u32
  p_cmd :: u32
  p_tfd :: u32
  p_sig :: u32
  p_ssts :: u32
  p_sact :: u32
  p_ci :: u32

record hba_cmd_header_t =
  h_cfl :: "5 word"
  h_w :: bool
  h_p :: bool
  h_c :: bool
  h_prdtl :: u16
  h_ctba :: u32
  h_ctbau :: u32

record hba_prdt_entry_t =
  e_dba :: u32
  e_dbau :: u32
  e_dbc :: "22 word"
  e_i :: bool

record fis_reg_host_to_device_t =
  fis_type :: u8
  fis_c :: bool
  command :: u8
  lba0 :: u8
  lba1 :: u8
  lba2 :: u8
  device :: u8
  lba3 :: u8
  lba4 :: u8
  lba5 :: u8
  countl :: u8
  counth :: u8

record hba_cmd_tbl_t =
  cfis :: fis_reg_host_to_device_t
  prdt_entry :: "nat \<Rightarrow> hba_prdt_entry_t"

record ahci_private_data_t =
  ap_port :: nat
  ap_part :: "partition_layout_t option"

record ahci_state =
  hba_ports :: "nat \<Rightarrow> hba_port_t"
  cmd_lists :: "u32 \<Rightarrow> nat \<Rightarrow> hba_cmd_header_t"
  cmd_tables :: "u32 \<Rightarrow> hba_cmd_tbl_t"
  a_pmm :: pmm_state
  a_mem :: mem
  medium :: "nat \<Rightarrow> u8"
  hba_inner :: nat

record hba_hw =
  hw_step :: "nat \<Rightarrow> ahci_state \<Rightarrow> ahci_state"
  wr_is :: "u32 \<Rightarrow> u32 \<Rightarrow> u32"
  wr_ci :: "u32 \<Rightarrow> u32 \<Rightarrow> u32"
  wr_cmd :: "u32 \<Rightarrow> u32 \<Rightarrow> u32"

abbreviation HBA_PXCMD_ST :: u32 where "HBA_PXCMD_ST \<equiv> 0x0001"
abbreviation HBA_PXCMD_FRE :: u32 where "HBA_PXCMD_FRE \<equiv> 0x0010"
abbreviation HBA_PXCMD_FR :: u32 where "HBA_PXCMD_FR \<equiv> 0x4000"
abbreviation HBA_PXCMD_CR :: u32 where "HBA_PXCMD_CR \<equiv> 0x8000"
abbreviation HBA_PXIS_TFES :: u32 where "HBA_PXIS_TFES \<equiv> 0x40000000"
abbreviation ATA_BUSY_DRQ :: u32 where "ATA_BUSY_DRQ \<equiv> 0x88"
abbreviation ATA_CMD_READ_DMA_EX :: u8 where "ATA_CMD_READ_DMA_EX \<equiv> 0x25"
abbreviation ATA_CMD_WRITE_DMA_EX :: u8 where "ATA_CMD_WRITE_DMA_EX \<equiv> 0x35"

definition upd_port :: "nat \<Rightarrow> (hba_port_t \<Rightarrow> hba_port_t) \<Rightarrow> ahci_state \<Rightarrow> ahci_state" where
  "upd_port pt f s = s\<lparr>hba_ports := (hba_ports s)(pt := f (hba_ports s pt))\<rparr>"


section \<open>Ports\<close>

datatype ahci_dev = AHCI_DEV_NULL | AHCI_DEV_SATA | AHCI_DEV_SEMB | AHCI_DEV_PM | AHCI_DEV_SATAPI

definition ahci_check_type :: "hba_port_t \<Rightarrow> ahci_dev" where
  "ahci_check_type port =
     (let ipm = drop_bit 8 (p_ssts port) AND 0x0f; det = p_ssts port AND 0x0f in
      if det \<noteq> 3 then AHCI_DEV_NULL
      else if ipm \<noteq> 1 then AHCI_DEV_NULL
      else if p_sig port = 0xEB140101 then AHCI_DEV_SATAPI
      else if p_sig port = 0xC33C0101 then AHCI_DEV_SEMB
      else if p_sig port = 0x96690101 then AHCI_DEV_PM
      else AHCI_DEV_SATA)"

definition write_cmd :: "hba_hw \<Rightarrow> nat \<Rightarrow> (u32 \<Rightarrow> u32) \<Rightarrow> ahci_state \<Rightarrow> ahci_state" where
  "write_cmd hw pt f = upd_port pt (\<lambda>p. p\<lparr>p_cmd := wr_cmd hw (p_cmd p) (f (p_cmd p))\<rparr>)"

text \<open>Waiting until a bit of the command register is clear; the controller runs between two rounds of a loop.\<close>

partial_function (option) wait_cmd_clear :: "hba_hw \<Rightarrow> nat \<Rightarrow> u32 \<Rightarrow> ahci_state \<Rightarrow> ahci_state option" where
  "wait_cmd_clear hw pt bits s =
     (if p_cmd (hba_ports s pt) AND bits \<noteq> 0 then wait_cmd_clear hw pt bits (hw_step hw pt s) else Some s)"

definition ahci_start_cmd_engine :: "hba_hw \<Rightarrow> nat \<Rightarrow> ahci_state \<Rightarrow> ahci_state option" where
  "ahci_start_cmd_engine hw pt s = do {
     s \<leftarrow> wait_cmd_clear hw pt HBA_PXCMD_CR s;
     let s = write_cmd hw pt (\<lambda>c. c OR HBA_PXCMD_FRE) s;
     Some (write_cmd hw pt (\<lambda>c. c OR HBA_PXCMD_ST) s)
   }"

partial_function (option) wait_stopped :: "hba_hw \<Rightarrow> nat \<Rightarrow> ahci_state \<Rightarrow> ahci_state option" where
  "wait_stopped hw pt s =
     (if p_cmd (hba_ports s pt) AND HBA_PXCMD_FR \<noteq> 0 then wait_stopped hw pt (hw_step hw pt s)
      else if p_cmd (hba_ports s pt) AND HBA_PXCMD_CR \<noteq> 0 then wait_stopped hw pt (hw_step hw pt s)
      else Some s)"

definition ahci_stop_cmd_engine :: "hba_hw \<Rightarrow> nat \<Rightarrow> ahci_state \<Rightarrow> ahci_state option" where
  "ahci_stop_cmd_engine hw pt s =
     wait_stopped hw pt (write_cmd hw pt (\<lambda>c. c AND NOT HBA_PXCMD_FRE) (write_cmd hw pt (\<lambda>c. c AND NOT HBA_PXCMD_ST) s))"

definition ahci_pcalloc :: "ahci_state \<Rightarrow> (u32 \<times> ahci_state) option" where
  "ahci_pcalloc s = do {
     (adr, p, m) \<leftarrow> pcalloc 1 (a_pmm s, a_mem s);
     Some (ucast adr, s\<lparr>a_pmm := p, a_mem := m\<rparr>)
   }"

definition upd_header :: "u32 \<Rightarrow> nat \<Rightarrow> (hba_cmd_header_t \<Rightarrow> hba_cmd_header_t) \<Rightarrow> ahci_state \<Rightarrow> ahci_state" where
  "upd_header clb i f s = s\<lparr>cmd_lists := (cmd_lists s)(clb := (cmd_lists s clb)(i := f (cmd_lists s clb i)))\<rparr>"

definition ahci_port_init :: "hba_hw \<Rightarrow> nat \<Rightarrow> ahci_state \<Rightarrow> ahci_state option" where
  "ahci_port_init hw pt s = do {
     s \<leftarrow> ahci_stop_cmd_engine hw pt s;
     (clb, s) \<leftarrow> ahci_pcalloc s;
     let s = upd_port pt (\<lambda>p. p\<lparr>p_clb := clb, p_clbu := 0\<rparr>) s;
     (fb, s) \<leftarrow> ahci_pcalloc s;
     let s = upd_port pt (\<lambda>p. p\<lparr>p_fb := fb, p_fbu := 0\<rparr>) s;
     s \<leftarrow> foldM (\<lambda>i s. do {
            (ctba, s) \<leftarrow> ahci_pcalloc s;
            Some (upd_header clb i (\<lambda>h. h\<lparr>h_prdtl := 8, h_ctba := ctba, h_ctbau := 0\<rparr>) s) }) [0..<32] s;
     ahci_start_cmd_engine hw pt s
   }"

fun find_slot :: "nat \<Rightarrow> nat \<Rightarrow> u32 \<Rightarrow> int" where
  "find_slot 0 i slots = -1"
| "find_slot (Suc n) i slots = (if slots AND 1 = 0 then int i else find_slot n (Suc i) (drop_bit 1 slots))"

definition ahci_find_cmdslot :: "hba_port_t \<Rightarrow> int" where
  "ahci_find_cmdslot port = find_slot 32 0 (p_sact port OR p_ci port)"


section \<open>Commands\<close>

text \<open>The table's page has room for its header of 128 bytes and 248 entries of 16 bytes.\<close>

definition zero_fis :: fis_reg_host_to_device_t where
  "zero_fis = \<lparr>fis_type = 0, fis_c = False, command = 0, lba0 = 0, lba1 = 0, lba2 = 0, device = 0,
     lba3 = 0, lba4 = 0, lba5 = 0, countl = 0, counth = 0\<rparr>"

definition clear_table :: "u16 \<Rightarrow> hba_cmd_tbl_t \<Rightarrow> hba_cmd_tbl_t" where
  "clear_table prdtl t = \<lparr>cfis = zero_fis,
     prdt_entry = (\<lambda>i. if i < unat prdtl then \<lparr>e_dba = 0, e_dbau = 0, e_dbc = 0, e_i = False\<rparr> else prdt_entry t i)\<rparr>"

text \<open>The whole entries of 8 KiB, then the last one: the buffer and the count move along.\<close>

definition fill_prdt :: "u16 \<Rightarrow> u64 \<Rightarrow> u32 \<Rightarrow> hba_cmd_tbl_t \<Rightarrow> u32 \<times> hba_cmd_tbl_t" where
  "fill_prdt prdtl buf count32 t =
     (case fold (\<lambda>i (buf, count32, t).
         (buf + 8 * 1024, count32 - 16,
          t\<lparr>prdt_entry := (prdt_entry t)(i := \<lparr>e_dba = ucast (buf - PHYS_MEM_OFFSET), e_dbau = 0, e_dbc = 8 * 1024 - 1, e_i = True\<rparr>)\<rparr>))
         [0..<unat prdtl - 1] (buf, count32, t) of (buf, count32, t) \<Rightarrow>
      let i = unat prdtl - 1 in
      (count32, t\<lparr>prdt_entry := (prdt_entry t)(i := (prdt_entry t i)
         \<lparr>e_dba := ucast (buf - PHYS_MEM_OFFSET), e_dbc := ucast (push_bit 9 count32 - 1), e_i := True\<rparr>)\<rparr>))"

definition command_fis :: "u8 \<Rightarrow> u32 \<Rightarrow> u32 \<Rightarrow> u32 \<Rightarrow> fis_reg_host_to_device_t \<Rightarrow> fis_reg_host_to_device_t" where
  "command_fis cmd startl starth count32 fis = fis
     \<lparr>fis_type := 0x27, fis_c := True, command := cmd,
      lba0 := ucast startl, lba1 := ucast (drop_bit 8 startl), lba2 := ucast (drop_bit 16 startl), device := push_bit 6 1,
      lba3 := ucast (drop_bit 24 startl), lba4 := ucast starth, lba5 := ucast (drop_bit 8 starth),
      countl := ucast (count32 AND 0xff), counth := ucast (drop_bit 8 count32)\<rparr>"

definition build_table :: "u8 \<Rightarrow> u64 \<Rightarrow> u32 \<Rightarrow> u16 \<Rightarrow> u64 \<Rightarrow> hba_cmd_tbl_t \<Rightarrow> hba_cmd_tbl_t option" where
  "build_table cmd start64 count32 prdtl buf t =
     (if prdtl = 0 \<or> 248 < prdtl then None
      else case fill_prdt prdtl buf count32 (clear_table prdtl t) of (count32, t) \<Rightarrow>
        Some (t\<lparr>cfis := command_fis cmd (ucast start64) (ucast (drop_bit 32 start64)) count32 (cfis t)\<rparr>))"

text \<open>
  Issuing the command: the bounded wait for an idle disk, then the wait for the slot's
  bit to clear. The result says whether the command ended without a task file error.
\<close>

fun spin_tfd :: "hba_hw \<Rightarrow> nat \<Rightarrow> nat \<Rightarrow> ahci_state \<Rightarrow> ahci_state" where
  "spin_tfd hw pt 0 s = s"
| "spin_tfd hw pt (Suc n) s =
     (if p_tfd (hba_ports s pt) AND ATA_BUSY_DRQ = 0 then s else spin_tfd hw pt n (hw_step hw pt s))"

partial_function (option) wait_slot :: "hba_hw \<Rightarrow> nat \<Rightarrow> nat \<Rightarrow> ahci_state \<Rightarrow> (bool \<times> ahci_state) option" where
  "wait_slot hw pt slot s =
     (if p_ci (hba_ports s pt) AND push_bit slot 1 = 0 then Some (True, s)
      else if p_is (hba_ports s pt) AND HBA_PXIS_TFES \<noteq> 0 then Some (False, s)
      else wait_slot hw pt slot (hw_step hw pt s))"

definition issue_command :: "hba_hw \<Rightarrow> nat \<Rightarrow> nat \<Rightarrow> ahci_state \<Rightarrow> (bool \<times> ahci_state) option" where
  "issue_command hw pt slot s =
     (let s = hw_step hw pt (spin_tfd hw pt 1000000 s) in
      if p_tfd (hba_ports s pt) AND ATA_BUSY_DRQ \<noteq> 0 then Some (False, s)
      else do {
        let s = upd_port pt (\<lambda>p. p\<lparr>p_ci := wr_ci hw (p_ci p) (push_bit slot 1)\<rparr>) s;
        (done, s) \<leftarrow> wait_slot hw pt slot s;
        if \<not> done then Some (False, s)
        else Some (p_is (hba_ports s pt) AND HBA_PXIS_TFES = 0, s)
      })"

definition first_sector :: "ahci_private_data_t \<Rightarrow> u64 \<Rightarrow> u64" where
  "first_sector priv start = (case ap_part priv of None \<Rightarrow> start | Some p \<Rightarrow> start + ucast (sector_start p))"

definition sata_read :: "hba_hw \<Rightarrow> ahci_private_data_t \<Rightarrow> u64 \<Rightarrow> u64 \<Rightarrow> u64 \<Rightarrow> ahci_state \<Rightarrow> (u64 \<times> ahci_state) option" where
  "sata_read hw priv start count buf s =
     (let count32 = ucast count; start64 = first_sector priv start; pt = ap_port priv;
          s = upd_port pt (\<lambda>p. p\<lparr>p_is := wr_is hw (p_is p) (- 1)\<rparr>) s;
          slot = ahci_find_cmdslot (hba_ports s pt) in
      if slot = -1 then Some (0, s)
      else do {
        let clb = p_clb (hba_ports s pt);
        let prdtl = ucast (drop_bit 4 (count32 - 1) :: u32) + 1;
        let s = upd_header clb (nat slot) (\<lambda>h. h\<lparr>h_cfl := 5, h_w := False, h_prdtl := prdtl\<rparr>) s;
        let ctba = h_ctba (cmd_lists s clb (nat slot));
        t \<leftarrow> build_table ATA_CMD_READ_DMA_EX start64 count32 prdtl buf (cmd_tables s ctba);
        (ok, s) \<leftarrow> issue_command hw pt (nat slot) (s\<lparr>cmd_tables := (cmd_tables s)(ctba := t)\<rparr>);
        Some (if ok then count * 512 else 0, s)
      })"

definition sata_write :: "hba_hw \<Rightarrow> ahci_private_data_t \<Rightarrow> u64 \<Rightarrow> u64 \<Rightarrow> u64 \<Rightarrow> ahci_state \<Rightarrow> (u64 \<times> ahci_state) option" where
  "sata_write hw priv start count buf s =
     (let count32 = ucast count; start64 = first_sector priv start; pt = ap_port priv;
          s = upd_port pt (\<lambda>p. p\<lparr>p_is := wr_is hw (p_is p) (- 1)\<rparr>) s;
          slot = ahci_find_cmdslot (hba_ports s pt) in
      if slot = -1 then Some (0, s)
      else do {
        let clb = p_clb (hba_ports s pt);
        let prdtl = ucast (drop_bit 4 (count32 - 1) :: u32) + 1;
        let s = upd_header clb (nat slot) (\<lambda>h. h\<lparr>h_cfl := 5, h_w := True, h_c := True, h_p := True, h_prdtl := prdtl\<rparr>) s;
        let ctba = h_ctba (cmd_lists s clb (nat slot));
        t \<leftarrow> build_table ATA_CMD_WRITE_DMA_EX start64 count32 prdtl buf (cmd_tables s ctba);
        (ok, s) \<leftarrow> issue_command hw pt (nat slot) (s\<lparr>cmd_tables := (cmd_tables s)(ctba := t)\<rparr>);
        Some (if ok then count * 512 else 0, s)
      })"


section \<open>Finding the disks\<close>

text \<open>
  The devices are recorded by their private data; all are block devices named SATA with blocks
  of 512 bytes and the two functions above. The boot sector is read into a buffer on the stack.
\<close>

definition sata_device :: "int \<times> u8 list \<times> ahci_state \<Rightarrow> ahci_state device_t" where
  "sata_device outcome = \<lparr>dev_name = cstr ''SATA'', dev_type = S_IFBLK, dev_id = 0, dev_read = (\<lambda>_ _ _. outcome),
     dev_write = (\<lambda>_ _ _ s. (0, s)), dev_block_size = 512, dev_block_count = 0\<rparr>"

definition sata_probe :: "hba_hw \<Rightarrow> ahci_private_data_t \<Rightarrow> u64 \<Rightarrow> nat \<Rightarrow> ahci_state \<Rightarrow> (partition_layout_t option \<times> ahci_state) option" where
  "sata_probe hw priv boot_sec num s = do {
     (r, s) \<leftarrow> sata_read hw priv 0 1 boot_sec s;
     Some (probe_mbr (sata_device (sint r, get_bytes (a_mem s) boot_sec 512, s)) num s)
   }"

definition init_port :: "hba_hw \<Rightarrow> u64 \<Rightarrow> nat \<Rightarrow> ahci_private_data_t list \<times> ahci_state \<Rightarrow> (ahci_private_data_t list \<times> ahci_state) option" where
  "init_port hw boot_sec pt = (\<lambda>(devs, s). do {
     s \<leftarrow> ahci_port_init hw pt s;
     (devs, s) \<leftarrow> foldM (\<lambda>p (devs, s). do {
         let priv = \<lparr>ap_port = pt, ap_part = None\<rparr>;
         (part, s) \<leftarrow> sata_probe hw priv boot_sec p s;
         Some (if part = None then devs else devs @ [priv\<lparr>ap_part := part\<rparr>], s) }) [0..<4] (devs, s);
     Some (devs @ [\<lparr>ap_port = pt, ap_part = None\<rparr>], s)
   })"

text \<open>A controller has 32 ports; port \<open>i\<close> of controller \<open>j\<close> is port \<open>32 * j + i\<close> of the model.\<close>

definition ahci_init_abars :: "hba_hw \<Rightarrow> u64 \<Rightarrow> u32 list \<Rightarrow> ahci_private_data_t list \<times> ahci_state \<Rightarrow> (ahci_private_data_t list \<times> ahci_state) option" where
  "ahci_init_abars hw boot_sec pis = foldM (\<lambda>(j, pi) ds. foldM (\<lambda>i (devs, s).
       if drop_bit i pi AND 1 \<noteq> 0 \<and> ahci_check_type (hba_ports s (32 * j + i)) = AHCI_DEV_SATA
       then init_port hw boot_sec (32 * j + i) (devs, s) else Some (devs, s)) [0..<32] ds) (enumerate 0 pis)"


text \<open>
  The mass storage controllers with the AHCI interface are found by class and subclass; the
  fifth base address register points to their registers, of which \<open>pi_at\<close> gives the
  set of ports that are implemented.
\<close>

definition init_sata ::
    "hba_hw \<Rightarrow> (u64 \<Rightarrow> u8 list \<Rightarrow> mem \<Rightarrow> mem) \<Rightarrow> u64 \<Rightarrow> mcfg_entry_t list \<Rightarrow> (u64 \<Rightarrow> u32) \<Rightarrow> u64 \<Rightarrow> pci_device_t list \<Rightarrow>
     ahci_private_data_t list \<times> ahci_state \<Rightarrow> (int \<times> ahci_private_data_t list \<times> ahci_state) option" where
  "init_sata hw wr junk es pi_at boot_sec pci_devices = (\<lambda>(devs, s). do {
     (abars, s) \<leftarrow> foldM (\<lambda>dev (abars, s).
         if pci_class (pci_header dev) = 1 \<and> pci_subclass (pci_header dev) = 6 then do {
           (bar, m) \<leftarrow> pci_get_bar wr junk es dev 5 (a_mem s);
           Some (abars @ [bar_base bar + PHYS_MEM_OFFSET], s\<lparr>a_mem := m\<rparr>) }
         else Some (abars, s)) pci_devices ([], s);
     if abars = [] then Some (1, devs, s)
     else do {
       (devs, s) \<leftarrow> ahci_init_abars hw boot_sec (map pi_at abars) (devs, s);
       Some (0, devs, s)
     }
   })"


section \<open>The controller\<close>

text \<open>
  What the interface promises: a 1 written to the interrupt status clears its bit, a 1 written to
  the command issue register sets it, an idle port does nothing, and an issued command is carried
  out after some number of steps. A read fills the ranges of the table in turn with the sectors the
  command names, a write takes them from there. On the way only the task file register may change,
  and at its conclusion the command's bit is clear and no error is reported.
\<close>

definition fis_lba :: "fis_reg_host_to_device_t \<Rightarrow> nat" where
  "fis_lba f = unat (lba0 f) + 2 ^ 8 * unat (lba1 f) + 2 ^ 16 * unat (lba2 f) + 2 ^ 24 * unat (lba3 f) +
     2 ^ 32 * unat (lba4 f) + 2 ^ 40 * unat (lba5 f)"

definition fis_sectors :: "fis_reg_host_to_device_t \<Rightarrow> nat" where
  "fis_sectors f = (let n = unat (countl f) + 2 ^ 8 * unat (counth f) in if n = 0 then 65536 else n)"

definition prdt_ranges :: "u16 \<Rightarrow> hba_cmd_tbl_t \<Rightarrow> (u64 \<times> nat) list" where
  "prdt_ranges prdtl t = map (\<lambda>i. let e = prdt_entry t i in
     (ucast (e_dba e) + push_bit 32 (ucast (e_dbau e)), unat (e_dbc e) + 1)) [0..<unat prdtl]"

fun scatter :: "(u64 \<times> nat) list \<Rightarrow> u8 list \<Rightarrow> mem \<Rightarrow> mem" where
  "scatter [] bs m = m"
| "scatter ((a, n) # rs) bs m = scatter rs (drop n bs) (put_bytes m (a + PHYS_MEM_OFFSET) (take n bs))"

fun gather :: "(u64 \<times> nat) list \<Rightarrow> mem \<Rightarrow> u8 list" where
  "gather [] m = []"
| "gather ((a, n) # rs) m = get_bytes m (a + PHYS_MEM_OFFSET) n @ gather rs m"

definition hba_done :: "nat \<Rightarrow> nat \<Rightarrow> ahci_state \<Rightarrow> ahci_state" where
  "hba_done pt slot s =
     (let h = cmd_lists s (p_clb (hba_ports s pt)) slot; t = cmd_tables s (h_ctba h); f = cfis t;
          first = fis_lba f * 512; len = fis_sectors f * 512; rs = prdt_ranges (h_prdtl h) t;
          s = upd_port pt (\<lambda>p. p\<lparr>p_ci := 0\<rparr>) s in
      if command f = ATA_CMD_READ_DMA_EX then s\<lparr>a_mem := scatter rs (img_bytes (medium s) first len) (a_mem s)\<rparr>
      else s\<lparr>medium := img_write (medium s) first (take len (gather rs (a_mem s)))\<rparr>)"

definition hba_running :: "nat \<Rightarrow> ahci_state \<Rightarrow> ahci_state \<Rightarrow> bool" where
  "hba_running pt s s' \<longleftrightarrow> (\<exists>x v. s' = upd_port pt (\<lambda>p. p\<lparr>p_tfd := v\<rparr>) (s\<lparr>hba_inner := x\<rparr>))"

definition hba_finished :: "nat \<Rightarrow> nat \<Rightarrow> ahci_state \<Rightarrow> ahci_state \<Rightarrow> bool" where
  "hba_finished pt slot s s' \<longleftrightarrow> (\<exists>x v w. v AND HBA_PXIS_TFES = 0 \<and> w AND ATA_BUSY_DRQ = 0 \<and>
     s' = upd_port pt (\<lambda>p. p\<lparr>p_is := v, p_tfd := w\<rparr>) ((hba_done pt slot s)\<lparr>hba_inner := x\<rparr>))"

definition hba_spec :: "hba_hw \<Rightarrow> nat \<Rightarrow> bool" where
  "hba_spec hw pt \<longleftrightarrow>
     (\<forall>old v. wr_is hw old v = old AND NOT v) \<and> (\<forall>old v. wr_ci hw old v = old OR v) \<and>
     (\<forall>s. p_ci (hba_ports s pt) = 0 \<longrightarrow> (\<exists>x. hw_step hw pt s = s\<lparr>hba_inner := x\<rparr>)) \<and>
     (\<forall>s slot. slot < 32 \<and> p_ci (hba_ports s pt) = push_bit slot 1 \<longrightarrow>
        (\<exists>n. (\<forall>m\<le>n. hba_running pt s ((hw_step hw pt ^^ m) s)) \<and> hba_finished pt slot s ((hw_step hw pt ^^ Suc n) s)))"


section \<open>Lemmas\<close>

subsection \<open>Command slots\<close>

lemma find_slot_Some:
  "find_slot n i w = (case find (\<lambda>j. \<not> bit w j) [0..<n] of None \<Rightarrow> -1 | Some j \<Rightarrow> int (i + j))"
proof (induction n arbitrary: i w)
  case 0
  show ?case by simp
next
  case (Suc n)
  have low: "w AND 1 = 0 \<longleftrightarrow> \<not> bit w 0"
    by (simp add: and_one_eq odd_iff_mod_2_eq_one even_iff_mod_2_eq_zero bit_0)
  have up: "[0..<Suc n] = 0 # map Suc [0..<n]" by (simp add: upt_conv_Cons map_Suc_upt)
  have "find P (map f xs) = map_option f (find (P \<circ> f) xs)" for P and f :: "nat \<Rightarrow> nat" and xs
    by (induction xs) auto
  then show ?case
    unfolding up using Suc.IH [of "Suc i" "drop_bit 1 w"]
    by (auto simp: low bit_drop_bit_eq comp_def split: option.splits)
qed

lemma ahci_find_cmdslot_eq:
  assumes "\<not> bit (p_sact p OR p_ci p) i" and "i < 32" and "\<forall>j<i. bit (p_sact p OR p_ci p) j"
  shows "ahci_find_cmdslot p = int i"
proof -
  have "find (\<lambda>j. \<not> bit (p_sact p OR p_ci p) j) [0..<32] = Some i"
    using assms by (auto simp: find_Some_iff intro!: exI [of _ i])
  then show ?thesis unfolding ahci_find_cmdslot_def find_slot_Some by simp
qed


subsection \<open>The command table\<close>

lemma fill_prdt_fold:
  "fold (\<lambda>i (buf, count32, t).
         (buf + 8 * 1024, count32 - 16,
          t\<lparr>prdt_entry := (prdt_entry t)(i := \<lparr>e_dba = ucast (buf - PHYS_MEM_OFFSET), e_dbau = 0, e_dbc = 8 * 1024 - 1, e_i = True\<rparr>)\<rparr>))
      [0..<k] (buf :: u64, count32 :: u32, t) =
   (buf + of_nat k * 8192, count32 - of_nat k * 16,
    t\<lparr>prdt_entry := \<lambda>i. if i < k then \<lparr>e_dba = ucast (buf + of_nat i * 8192 - PHYS_MEM_OFFSET), e_dbau = 0, e_dbc = 8191, e_i = True\<rparr>
       else prdt_entry t i\<rparr>)"
proof (induction k)
  case 0
  show ?case by simp
next
  case (Suc k)
  then show ?case by (simp add: algebra_simps fun_eq_iff less_Suc_eq)
qed

text \<open>The number of sectors in the last entry, and the number of whole entries before it.\<close>

abbreviation last_part :: "nat \<Rightarrow> nat" where "last_part c \<equiv> (c - 1) mod 16 + 1"
abbreviation whole_parts :: "nat \<Rightarrow> nat" where "whole_parts c \<equiv> (c - 1) div 16"

lemma parts: "1 \<le> c \<Longrightarrow> c = 16 * whole_parts c + last_part c"
  by (metis Suc_eq_plus1 add.assoc le_add_diff_inverse2 mult_div_mod_eq)

lemma prdtl_eq:
  assumes "1 \<le> c" and "c \<le> 3968"
  shows "unat (ucast (drop_bit 4 (of_nat c - 1 :: u32)) + 1 :: u16) = whole_parts c + 1"
proof -
  have "of_nat c - 1 = (of_nat (c - 1) :: u32)" using assms by (simp add: of_nat_diff)
  moreover have "unat (of_nat (c - 1) :: u32) = c - 1" by (rule unat_of_nat_id) (use assms in simp)
  ultimately have d: "unat (drop_bit 4 (of_nat c - 1 :: u32)) = whole_parts c"
    by (simp only: unat_drop_bit_eq) (simp add: drop_bit_eq_div)
  have w: "whole_parts c < 248" using assms by simp
  then have "unat (ucast (drop_bit 4 (of_nat c - 1 :: u32)) :: u16) = whole_parts c"
    by (simp only: unsigned_ucast_eq d) (simp add: take_bit_nat_eq_self)
  then show ?thesis using w unat_add_small [of "ucast (drop_bit 4 (of_nat c - 1 :: u32)) :: u16" 1] by simp
qed

lemma build_table_eq:
  assumes "1 \<le> c" and "c \<le> 3968"
  shows "build_table cmd start64 (of_nat c) (ucast (drop_bit 4 (of_nat c - 1 :: u32)) + 1) buf t =
    Some \<lparr>cfis = command_fis cmd (ucast start64) (ucast (drop_bit 32 start64)) (of_nat (last_part c)) zero_fis,
      prdt_entry = (\<lambda>i. if i < whole_parts c
          then \<lparr>e_dba = ucast (buf + of_nat i * 8192 - PHYS_MEM_OFFSET), e_dbau = 0, e_dbc = 8191, e_i = True\<rparr>
        else if i = whole_parts c
          then \<lparr>e_dba = ucast (buf + of_nat i * 8192 - PHYS_MEM_OFFSET), e_dbau = 0,
                e_dbc = ucast (push_bit 9 (of_nat (last_part c)) - 1 :: u32), e_i = True\<rparr>
        else prdt_entry t i)\<rparr>"
proof -
  define prdtl where "prdtl = (ucast (drop_bit 4 (of_nat c - 1 :: u32)) + 1 :: u16)"
  have u: "unat prdtl = whole_parts c + 1" unfolding prdtl_def by (rule prdtl_eq [OF assms])
  have "whole_parts c < 248" using assms by simp
  then have b: "\<not> (prdtl = 0 \<or> 248 < prdtl)" using u by (auto simp: word_less_nat_alt)
  have "of_nat c = (of_nat (16 * whole_parts c + last_part c) :: u32)" by (rule arg_cong [OF parts [OF assms(1)]])
  then have "of_nat c - of_nat (whole_parts c) * 16 = (of_nat (last_part c) :: u32)"
    unfolding of_nat_add [of "16 * whole_parts c"] of_nat_mult by simp
  then have f: "fill_prdt prdtl buf (of_nat c) (clear_table prdtl t) = (of_nat (last_part c), \<lparr>cfis = zero_fis,
      prdt_entry = (\<lambda>i. if i < whole_parts c
          then \<lparr>e_dba = ucast (buf + of_nat i * 8192 - PHYS_MEM_OFFSET), e_dbau = 0, e_dbc = 8191, e_i = True\<rparr>
        else if i = whole_parts c
          then \<lparr>e_dba = ucast (buf + of_nat i * 8192 - PHYS_MEM_OFFSET), e_dbau = 0,
                e_dbc = ucast (push_bit 9 (of_nat (last_part c)) - 1 :: u32), e_i = True\<rparr>
        else prdt_entry t i)\<rparr>)"
    unfolding fill_prdt_def fill_prdt_fold u by (auto simp: clear_table_def u fun_eq_iff Let_def)
  show ?thesis unfolding prdtl_def [symmetric] build_table_def using b f by simp
qed

lemma dma_address:
  fixes buf :: u64
  assumes "unat (buf - PHYS_MEM_OFFSET) + n < 2 ^ 32"
  shows "ucast (ucast (buf + of_nat n - PHYS_MEM_OFFSET) :: u32) = buf + of_nat n - PHYS_MEM_OFFSET"
proof -
  define a where "a = buf - PHYS_MEM_OFFSET"
  have n: "unat (of_nat n :: u64) = n" by (rule unat_of_nat_id) (use assms in simp)
  have eq: "buf + of_nat n - PHYS_MEM_OFFSET = a + of_nat n" by (simp add: a_def)
  have "unat (a + of_nat n) = unat a + n"
    using unat_add_small [of a "of_nat n"] assms n by (simp add: a_def [symmetric])
  then have "unat (a + of_nat n) < 2 ^ 32" using assms by (simp add: a_def)
  then show ?thesis unfolding eq by (simp add: word_unat_eq_iff unsigned_ucast_eq unsigned_take_bit_eq take_bit_nat_eq_self)
qed

lemma last_part_bytes: "unat (ucast (push_bit 9 (of_nat (last_part c)) - 1 :: u32) :: 22 word) + 1 = last_part c * 512"
proof -
  have l: "last_part c \<le> 16" by (simp add: less_Suc_eq_le [symmetric] Suc_le_eq)
  have "push_bit 9 (of_nat (last_part c)) - 1 = (of_nat (last_part c * 512 - 1) :: u32)"
    by (simp add: push_bit_eq_mult of_nat_diff algebra_simps)
  moreover have "unat (of_nat (last_part c * 512 - 1) :: u32) = last_part c * 512 - 1"
    by (rule unat_of_nat_id) (use l in simp)
  moreover have "last_part c * 512 - 1 < 2 ^ 22" using l by simp
  ultimately show ?thesis by (simp only: unsigned_ucast_eq) (simp add: take_bit_nat_eq_self)
qed

lemma byte_digits: "n mod 2 ^ 48 = n mod 256 + 2 ^ 8 * (n div 2 ^ 8 mod 256) + 2 ^ 16 * (n div 2 ^ 16 mod 256) +
  2 ^ 24 * (n div 2 ^ 24 mod 256) + 2 ^ 32 * (n div 2 ^ 32 mod 256) + 2 ^ 40 * (n div 2 ^ 40 mod 256)" for n :: nat
proof -
  have step: "n mod (2 ^ k * 256) = 2 ^ k * (n div 2 ^ k mod 256) + n mod 2 ^ k" for k by (rule mod_mult2_eq)
  show ?thesis
    using step [of 8] step [of 16] step [of 24] step [of 32] step [of 40] by simp
qed

lemma unat_byte_of: "unat (ucast (drop_bit k x) :: u8) = unat x div 2 ^ k mod 256" for x :: "'a::len word"
  by (simp only: unsigned_ucast_eq unat_drop_bit_eq) (simp add: drop_bit_eq_div take_bit_eq_mod)

lemma mod_div_byte: "k + 8 \<le> 32 \<Longrightarrow> n mod 2 ^ 32 div 2 ^ k mod 256 = n div 2 ^ k mod 256" for n :: nat
proof -
  assume "k + 8 \<le> 32"
  then have "take_bit 8 (drop_bit k (take_bit 32 n)) = take_bit 8 (drop_bit k n)"
    by (simp add: drop_bit_take_bit min.absorb1)
  then show ?thesis by (simp add: take_bit_eq_mod drop_bit_eq_div)
qed

lemma fis_lba_command:
  "fis_lba (command_fis cmd (ucast x) (ucast (drop_bit 32 x)) n f) = unat (x :: u64) mod 2 ^ 48"
proof -
  have lo: "unat (ucast x :: u32) = unat x mod 2 ^ 32" and hi: "unat (ucast (drop_bit 32 x) :: u32) = unat x div 2 ^ 32 mod 2 ^ 32"
    by (simp_all only: unsigned_ucast_eq unat_drop_bit_eq) (simp_all add: drop_bit_eq_div take_bit_eq_mod)
  have b: "unat (ucast (drop_bit k (ucast x :: u32)) :: u8) = unat x div 2 ^ k mod 256"
    and c: "unat (ucast (drop_bit k (ucast (drop_bit 32 x) :: u32)) :: u8) = unat x div 2 ^ (32 + k) mod 256"
    if "k + 8 \<le> 32" for k
    using mod_div_byte [OF that] by (simp_all add: unat_byte_of lo hi power_add div_mult2_eq)
  show ?thesis
    unfolding byte_digits using b [of 0] b [of 8] b [of 16] b [of 24] c [of 0] c [of 8]
    by (simp add: fis_lba_def command_fis_def)
qed

lemma fis_sectors_command:
  assumes "0 < n" and "n < 2 ^ 16"
  shows "fis_sectors (command_fis cmd a b (of_nat n) f) = n"
proof -
  have u: "unat (of_nat n :: u32) = n" by (rule unat_of_nat_id) (use assms in simp)
  have lo: "unat (ucast (of_nat n AND 0xff :: u32) :: u8) = n mod 256"
  proof -
    have "(0xff :: u32) = mask 8" by (simp add: mask_eq_exp_minus_1)
    then have "of_nat n AND 0xff = take_bit 8 (of_nat n :: u32)" by (simp only: take_bit_eq_mask)
    then show ?thesis by (simp only: unsigned_ucast_eq unsigned_take_bit_eq u) (simp add: take_bit_eq_mod)
  qed
  have hi: "unat (ucast (drop_bit 8 (of_nat n :: u32)) :: u8) = n div 2 ^ 8 mod 256" by (simp only: unat_byte_of u)
  have "n div 256 mod 256 = n div 256" using assms by simp
  then show ?thesis
    using assms lo hi by (simp add: fis_sectors_def command_fis_def Let_def)
qed

lemma get_bytes_add: "get_bytes m p (a + b) = get_bytes m p a @ get_bytes m (p + of_nat a) b"
  by (induction a arbitrary: p) (simp_all add: algebra_simps)

lemma prdt_ranges_eq:
  assumes "1 \<le> c" and "c \<le> 3968" and "unat (buf - PHYS_MEM_OFFSET) + c * 512 \<le> 2 ^ 32"
    and "build_table cmd start (of_nat c) (ucast (drop_bit 4 (of_nat c - 1 :: u32)) + 1) buf t = Some t'"
  shows "prdt_ranges (ucast (drop_bit 4 (of_nat c - 1 :: u32)) + 1) t' =
    map (\<lambda>i. (buf + of_nat i * 8192 - PHYS_MEM_OFFSET, 8192)) [0..<whole_parts c] @
    [(buf + of_nat (whole_parts c) * 8192 - PHYS_MEM_OFFSET, last_part c * 512)]"
proof -
  have p: "c = 16 * whole_parts c + last_part c" by (rule parts [OF assms(1)])
  have a: "ucast (ucast (buf + of_nat i * 8192 - PHYS_MEM_OFFSET) :: u32) = buf + of_nat i * 8192 - PHYS_MEM_OFFSET"
    if "i \<le> whole_parts c" for i
  proof -
    have "i * 8192 < c * 512" using that p by linarith
    then have "unat (buf - PHYS_MEM_OFFSET) + i * 8192 < 2 ^ 32" using assms(3) by linarith
    from dma_address [OF this] show ?thesis by simp
  qed
  from assms(4) have t': "t' = the (build_table cmd start (of_nat c) (ucast (drop_bit 4 (of_nat c - 1 :: u32)) + 1) buf t)" by simp
  show ?thesis
    unfolding prdt_ranges_def prdtl_eq [OF assms(1,2)] t' build_table_eq [OF assms(1,2)]
    using a last_part_bytes [of c] by (auto simp: Let_def)
qed

lemma take_get_bytes: "k \<le> n \<Longrightarrow> take k (get_bytes m p n) = get_bytes m p k"
  using get_bytes_add [of m p k "n - k"] by simp

lemma gather_append: "gather (xs @ ys) m = gather xs m @ gather ys m"
  by (induction xs) auto

lemma gather_whole: "gather (map (\<lambda>i. (buf + of_nat i * 8192 - PHYS_MEM_OFFSET, 8192)) [0..<k]) m = get_bytes m buf (k * 8192)"
proof (induction k)
  case 0
  show ?case by simp
next
  case (Suc k)
  then show ?case
    using get_bytes_add [of m buf "k * 8192" 8192] by (simp add: gather_append algebra_simps)
qed

lemma scatter_Nil [simp]: "scatter rs [] m = m"
  by (induction rs) auto

lemma gather_buffer:
  assumes "1 \<le> c" and "c \<le> 3968" and "unat (buf - PHYS_MEM_OFFSET) + c * 512 \<le> 2 ^ 32"
    and "build_table cmd start (of_nat c) (ucast (drop_bit 4 (of_nat c - 1 :: u32)) + 1) buf t = Some t'"
  shows "gather (prdt_ranges (ucast (drop_bit 4 (of_nat c - 1 :: u32)) + 1) t') m = get_bytes m buf (c * 512)"
proof -
  have "c * 512 = (16 * whole_parts c + last_part c) * 512" by (rule arg_cong [OF parts [OF assms(1)]])
  then have "c * 512 = whole_parts c * 8192 + last_part c * 512" unfolding add_mult_distrib [of "16 * whole_parts c"] by simp
  then show ?thesis
    unfolding prdt_ranges_eq [OF assms] gather_append gather_whole
    using get_bytes_add [of m buf "whole_parts c * 8192" "last_part c * 512"] by (simp only:) simp
qed

lemma scatter_buffer:
  assumes "1 \<le> c" and "c \<le> 3968" and "unat (buf - PHYS_MEM_OFFSET) + c * 512 \<le> 2 ^ 32"
    and "build_table cmd start (of_nat c) (ucast (drop_bit 4 (of_nat c - 1 :: u32)) + 1) buf t = Some t'"
    and "length bs = last_part c * 512"
  shows "scatter (prdt_ranges (ucast (drop_bit 4 (of_nat c - 1 :: u32)) + 1) t') bs m = put_bytes m buf bs"
proof (cases "whole_parts c")
  case 0
  then show ?thesis unfolding prdt_ranges_eq [OF assms(1-4)] using assms(5) by simp
next
  case (Suc w)
  have "last_part c \<le> 16" by (simp add: less_Suc_eq_le [symmetric] Suc_le_eq)
  then have "length bs \<le> 8192" using assms(5) by simp
  then show ?thesis unfolding prdt_ranges_eq [OF assms(1-4)] Suc by (simp add: upt_conv_Cons del: upt_Suc)
qed

text \<open>
  C36: The command table the driver builds for up to 3968 sectors: its ranges are, one after the
  other, exactly the bytes of the buffer, and the command names the first sector; but the
  number of sectors it asks for is what is left for the last range, at most 16.
\<close>

theorem sata_table_covers_buffer:
  assumes "1 \<le> c" and "c \<le> 3968" and "unat (buf - PHYS_MEM_OFFSET) + c * 512 \<le> 2 ^ 32"
  defines "prdtl \<equiv> ucast (drop_bit 4 (of_nat c - 1 :: u32)) + 1"
  shows "\<exists>t'. build_table cmd start (of_nat c) prdtl buf t = Some t' \<and>
    gather (prdt_ranges prdtl t') m = get_bytes m buf (c * 512) \<and>
    fis_lba (cfis t') = unat start mod 2 ^ 48 \<and> fis_sectors (cfis t') = (c - 1) mod 16 + 1"
proof -
  obtain t' where t': "build_table cmd start (of_nat c) prdtl buf t = Some t'"
    and f: "cfis t' = command_fis cmd (ucast start) (ucast (drop_bit 32 start)) (of_nat (last_part c)) zero_fis"
    using build_table_eq [OF assms(1,2)] unfolding prdtl_def by simp
  have "last_part c \<le> 16" by (simp add: less_Suc_eq_le [symmetric] Suc_le_eq)
  then have "fis_sectors (cfis t') = last_part c" unfolding f by (intro fis_sectors_command) simp_all
  then show ?thesis
    using t' gather_buffer [OF assms(1-3) t' [unfolded prdtl_def]] fis_lba_command [of cmd start "of_nat (last_part c)" zero_fis] f
    by (auto simp: prdtl_def)
qed

definition ex_tbl :: hba_cmd_tbl_t where
  "ex_tbl = \<lparr>cfis = zero_fis, prdt_entry = (\<lambda>_. \<lparr>e_dba = 0, e_dbau = 0, e_dbc = 0, e_i = False\<rparr>)\<rparr>"

theorem sata_table_covers_buffer_witness:
  "\<exists>t'. build_table ATA_CMD_READ_DMA_EX 7 17 2 (PHYS_MEM_OFFSET + 0x5000) ex_tbl = Some t' \<and>
     gather (prdt_ranges 2 t') ucast = get_bytes ucast (PHYS_MEM_OFFSET + 0x5000) 8704 \<and> fis_lba (cfis t') = 7 \<and> fis_sectors (cfis t') = 1"
  using sata_table_covers_buffer [of 17 "PHYS_MEM_OFFSET + 0x5000" ATA_CMD_READ_DMA_EX 7 ex_tbl ucast] by (simp add: drop_bit_eq_div)

subsection \<open>Issuing a command\<close>

lemma spin_tfd_idle: "p_tfd (hba_ports s pt) AND ATA_BUSY_DRQ = 0 \<Longrightarrow> spin_tfd hw pt n s = s"
  by (cases n) auto

lemma wait_slot_steps:
  assumes "\<forall>m\<le>n. p_ci (hba_ports ((hw_step hw pt ^^ m) s) pt) AND push_bit slot 1 \<noteq> 0 \<and>
      p_is (hba_ports ((hw_step hw pt ^^ m) s) pt) AND HBA_PXIS_TFES = 0"
  shows "wait_slot hw pt slot s = wait_slot hw pt slot ((hw_step hw pt ^^ Suc n) s)"
  using assms
proof (induction n)
  case 0
  have "p_ci (hba_ports s pt) AND push_bit slot 1 \<noteq> 0" "p_is (hba_ports s pt) AND HBA_PXIS_TFES = 0"
    using 0 by simp_all
  then show ?case by (subst wait_slot.simps) simp
next
  case (Suc n)
  define s' where "s' = (hw_step hw pt ^^ Suc n) s"
  have "p_ci (hba_ports s' pt) AND push_bit slot 1 \<noteq> 0" "p_is (hba_ports s' pt) AND HBA_PXIS_TFES = 0"
    using Suc.prems unfolding s'_def by blast+
  then have "wait_slot hw pt slot s' = wait_slot hw pt slot (hw_step hw pt s')" by (subst wait_slot.simps) simp
  moreover have "wait_slot hw pt slot s = wait_slot hw pt slot s'" unfolding s'_def by (rule Suc.IH) (use Suc.prems in simp)
  ultimately show ?case by (simp add: s'_def)
qed

lemma hba_done_port [simp]:
  "p_ci (hba_ports (hba_done pt slot s) pt) = 0"
  by (simp add: hba_done_def Let_def upd_port_def)

lemma issue_command_done:
  assumes spec: "hba_spec hw pt" and "slot < 32" and "p_ci (hba_ports s pt) = 0" and "p_tfd (hba_ports s pt) AND ATA_BUSY_DRQ = 0"
    and "p_is (hba_ports s pt) AND HBA_PXIS_TFES = 0"
  shows "\<exists>x s'. issue_command hw pt slot s = Some (True, s') \<and>
    hba_finished pt slot (upd_port pt (\<lambda>p. p\<lparr>p_ci := push_bit slot 1\<rparr>) (s\<lparr>hba_inner := x\<rparr>)) s'"
proof -
  obtain x where x: "hw_step hw pt s = s\<lparr>hba_inner := x\<rparr>" using spec assms(3) by (auto simp: hba_spec_def)
  define s1 where "s1 = upd_port pt (\<lambda>p. p\<lparr>p_ci := push_bit slot 1\<rparr>) (s\<lparr>hba_inner := x\<rparr>)"
  have ci: "p_ci (hba_ports s1 pt) = push_bit slot 1" and is1: "p_is (hba_ports s1 pt) = p_is (hba_ports s pt)"
    by (simp_all add: s1_def upd_port_def)
  obtain n where run: "\<forall>m\<le>n. hba_running pt s1 ((hw_step hw pt ^^ m) s1)" and fin: "hba_finished pt slot s1 ((hw_step hw pt ^^ Suc n) s1)"
    using spec assms(2) ci unfolding hba_spec_def by blast
  define s2 where "s2 = (hw_step hw pt ^^ Suc n) s1"
  have bit: "push_bit slot (1 :: u32) AND push_bit slot 1 \<noteq> 0"
    using assms(2) by (simp add: and.idem push_bit_eq_mult)
  have "wait_slot hw pt slot s1 = wait_slot hw pt slot s2"
    unfolding s2_def
  proof (rule wait_slot_steps, intro allI impI)
    fix m assume "m \<le> n"
    with run obtain y v where "(hw_step hw pt ^^ m) s1 = upd_port pt (\<lambda>p. p\<lparr>p_tfd := v\<rparr>) (s1\<lparr>hba_inner := y\<rparr>)"
      unfolding hba_running_def by blast
    then show "p_ci (hba_ports ((hw_step hw pt ^^ m) s1) pt) AND push_bit slot 1 \<noteq> 0 \<and>
      p_is (hba_ports ((hw_step hw pt ^^ m) s1) pt) AND HBA_PXIS_TFES = 0"
      using ci is1 assms(5) bit by (simp add: upd_port_def)
  qed
  moreover have port: "p_ci (hba_ports s2 pt) = 0" "p_is (hba_ports s2 pt) AND HBA_PXIS_TFES = 0"
    using fin unfolding s2_def [symmetric] hba_finished_def by (auto simp: upd_port_def hba_done_def Let_def)
  moreover have "wait_slot hw pt slot s2 = Some (True, s2)" using port(1) by (subst wait_slot.simps) simp
  moreover have "wr_ci hw 0 (push_bit slot 1) = push_bit slot 1" using spec by (simp add: hba_spec_def)
  ultimately have "issue_command hw pt slot s = Some (True, s2)"
    using assms(3,4) x by (simp add: issue_command_def spin_tfd_idle Let_def s1_def upd_port_def)
  then show ?thesis using fin unfolding s2_def s1_def by blast
qed

lemma hba_finished_effect:
  assumes "hba_finished pt slot s s'" and "cmd_lists s (p_clb (hba_ports s pt)) slot = h" and "cmd_tables s (h_ctba h) = t"
  shows "command (cfis t) = ATA_CMD_READ_DMA_EX \<Longrightarrow> medium s' = medium s \<and>
      a_mem s' = scatter (prdt_ranges (h_prdtl h) t) (img_bytes (medium s) (fis_lba (cfis t) * 512) (fis_sectors (cfis t) * 512)) (a_mem s)"
    and "command (cfis t) \<noteq> ATA_CMD_READ_DMA_EX \<Longrightarrow> a_mem s' = a_mem s \<and>
      medium s' = img_write (medium s) (fis_lba (cfis t) * 512) (take (fis_sectors (cfis t) * 512) (gather (prdt_ranges (h_prdtl h) t) (a_mem s)))"
  using assms by (auto simp: hba_finished_def hba_done_def Let_def upd_port_def)

text \<open>A command on an idle port, from the registers to its effect on memory and disk.\<close>

lemma command_run:
  fixes start64 :: u64
  defines "prdtl c \<equiv> ucast (drop_bit 4 (of_nat c - 1 :: u32)) + 1"
  assumes spec: "hba_spec hw pt" and slot: "slot < 32"
    and idle: "p_ci (hba_ports s pt) = 0" "p_tfd (hba_ports s pt) AND ATA_BUSY_DRQ = 0" "p_is (hba_ports s pt) AND HBA_PXIS_TFES = 0"
    and c: "1 \<le> c" "c \<le> 3968" "unat (buf - PHYS_MEM_OFFSET) + c * 512 \<le> 2 ^ 32"
    and h: "cmd_lists s (p_clb (hba_ports s pt)) slot = h" "h_prdtl h = prdtl c"
  defines "lba \<equiv> unat start64 mod 2 ^ 48" and "n \<equiv> ((c - 1) mod 16 + 1) * 512"
  shows "\<exists>t s'. build_table cmd start64 (of_nat c) (prdtl c) buf t0 = Some t \<and>
    issue_command hw pt slot (s\<lparr>cmd_tables := (cmd_tables s)(h_ctba h := t)\<rparr>) = Some (True, s') \<and>
    (if cmd = ATA_CMD_READ_DMA_EX
     then medium s' = medium s \<and> a_mem s' = put_bytes (a_mem s) buf (img_bytes (medium s) (lba * 512) n)
     else a_mem s' = a_mem s \<and> medium s' = img_write (medium s) (lba * 512) (get_bytes (a_mem s) buf n))"
proof -
  obtain t where t: "build_table cmd start64 (of_nat c) (prdtl c) buf t0 = Some t"
    and f: "cfis t = command_fis cmd (ucast start64) (ucast (drop_bit 32 start64)) (of_nat (last_part c)) zero_fis"
    using build_table_eq [OF c(1,2)] unfolding prdtl_def by simp
  have l: "last_part c \<le> 16" by (simp add: less_Suc_eq_le [symmetric] Suc_le_eq)
  then have sec: "fis_sectors (cfis t) * 512 = n" unfolding f n_def
    by (subst fis_sectors_command) simp_all
  have lba: "fis_lba (cfis t) = lba" unfolding f lba_def by (rule fis_lba_command)
  have cmd: "command (cfis t) = cmd" by (simp add: f command_fis_def)
  define s1 where "s1 = s\<lparr>cmd_tables := (cmd_tables s)(h_ctba h := t)\<rparr>"
  obtain x s' where issue: "issue_command hw pt slot s1 = Some (True, s')"
    and fin: "hba_finished pt slot (upd_port pt (\<lambda>p. p\<lparr>p_ci := push_bit slot 1\<rparr>) (s1\<lparr>hba_inner := x\<rparr>)) s'"
    using issue_command_done [OF spec slot, of s1] idle by (auto simp: s1_def)
  define s2 where "s2 = upd_port pt (\<lambda>p. p\<lparr>p_ci := push_bit slot 1\<rparr>) (s1\<lparr>hba_inner := x\<rparr>)"
  have s2: "cmd_lists s2 (p_clb (hba_ports s2 pt)) slot = h" "cmd_tables s2 (h_ctba h) = t" "a_mem s2 = a_mem s" "medium s2 = medium s"
    using h by (simp_all add: s2_def s1_def upd_port_def)
  note eff = hba_finished_effect [OF fin [folded s2_def] s2(1,2), unfolded cmd lba sec s2(3,4) h(2)]
  have sc: "scatter (prdt_ranges (prdtl c) t) bs m = put_bytes m buf bs" if "length bs = n" for bs m
    using scatter_buffer [OF c t [unfolded prdtl_def] that [unfolded n_def]] by (simp add: prdtl_def)
  have "n \<le> c * 512" using parts [OF c(1)] by (simp add: n_def)
  then have ga: "take n (gather (prdt_ranges (prdtl c) t) m) = get_bytes m buf n" for m
    using gather_buffer [OF c t [unfolded prdtl_def]] by (simp add: prdtl_def take_get_bytes)
  show ?thesis using t issue eff by (auto simp: s1_def ga intro!: sc)
qed

text \<open>The state in which a transfer finds the port idle with a free slot, before and after it clears the interrupts.\<close>

definition port_ready :: "nat \<Rightarrow> nat \<Rightarrow> ahci_state \<Rightarrow> bool" where
  "port_ready pt i s \<longleftrightarrow> i < 32 \<and> \<not> bit (p_sact (hba_ports s pt)) i \<and> (\<forall>j<i. bit (p_sact (hba_ports s pt)) j) \<and>
     p_ci (hba_ports s pt) = 0 \<and> p_tfd (hba_ports s pt) AND ATA_BUSY_DRQ = 0"

lemma port_ready_cleared:
  assumes "hba_spec hw pt" and "port_ready pt i s"
  defines "s0 \<equiv> upd_port pt (\<lambda>p. p\<lparr>p_is := wr_is hw (p_is p) (- 1)\<rparr>) s"
  shows "p_ci (hba_ports s0 pt) = 0" "p_tfd (hba_ports s0 pt) AND ATA_BUSY_DRQ = 0" "p_is (hba_ports s0 pt) AND HBA_PXIS_TFES = 0"
    "ahci_find_cmdslot (hba_ports s0 pt) = int i" "a_mem s0 = a_mem s" "medium s0 = medium s"
proof -
  show "p_is (hba_ports s0 pt) AND HBA_PXIS_TFES = 0" using assms(1) by (simp add: s0_def upd_port_def hba_spec_def)
  show "ahci_find_cmdslot (hba_ports s0 pt) = int i"
    by (rule ahci_find_cmdslot_eq) (use assms(2) in \<open>simp_all add: port_ready_def s0_def upd_port_def\<close>)
qed (use assms(2) in \<open>simp_all add: port_ready_def s0_def upd_port_def\<close>)

lemma ucast_of_nat32: "c < 2 ^ 32 \<Longrightarrow> ucast (of_nat c :: u64) = (of_nat c :: u32)"
  by (simp add: word_unat_eq_iff unsigned_ucast_eq unsigned_of_nat take_bit_take_bit)


definition ex_hw :: hba_hw where
  "ex_hw = \<lparr>hw_step = (\<lambda>pt s. case find (bit (p_ci (hba_ports s pt))) [0..<32] of None \<Rightarrow> s
       | Some slot \<Rightarrow> upd_port pt (\<lambda>p. p\<lparr>p_is := 0, p_tfd := 0\<rparr>) (hba_done pt slot s)),
     wr_is = (\<lambda>old v. old AND NOT v), wr_ci = (\<lambda>old v. old OR v), wr_cmd = (\<lambda>_ v. v)\<rparr>"

lemma ex_hw_spec: "hba_spec ex_hw pt"
proof -
  have find: "find (bit (push_bit slot 1 :: u32)) [0..<32] = Some slot" if "slot < 32" for slot
    unfolding find_Some_iff by (rule exI [of _ slot]) (use that in \<open>simp add: bit_exp_iff\<close>)
  have fin: "hba_finished pt slot s (hw_step ex_hw pt s)" if "slot < 32" "p_ci (hba_ports s pt) = push_bit slot 1" for s slot
    using find [OF that(1)] that(2)
    by (auto simp: ex_hw_def hba_finished_def intro!: exI [of _ "hba_inner (hba_done pt slot s)"] exI [of _ "0 :: u32"])
  have run: "hba_running pt s s" for s
    unfolding hba_running_def by (rule exI [of _ "hba_inner s"], rule exI [of _ "p_tfd (hba_ports s pt)"]) (simp add: upd_port_def)
  have idle: "\<exists>x. hw_step ex_hw pt s = s\<lparr>hba_inner := x\<rparr>" if "p_ci (hba_ports s pt) = 0" for s
  proof (rule exI [of _ "hba_inner s"])
    have "find (bit (0 :: u32)) [0..<32] = None" unfolding find_None_iff by simp
    then show "hw_step ex_hw pt s = s\<lparr>hba_inner := hba_inner s\<rparr>" by (simp add: ex_hw_def that del: bit_0_eq)
  qed
  have "\<exists>n. (\<forall>m\<le>n. hba_running pt s ((hw_step ex_hw pt ^^ m) s)) \<and> hba_finished pt slot s ((hw_step ex_hw pt ^^ Suc n) s)"
    if "slot < 32" "p_ci (hba_ports s pt) = push_bit slot 1" for s slot
    by (rule exI [of _ 0]) (simp add: run fin [OF that])
  then show ?thesis using idle unfolding hba_spec_def by (simp add: ex_hw_def)
qed

definition ex_ahci :: ahci_state where
  "ex_ahci = \<lparr>hba_ports = (\<lambda>_. \<lparr>p_clb = 0x1000, p_clbu = 0, p_fb = 0x2000, p_fbu = 0, p_is = 0, p_cmd = 0x11, p_tfd = 0x50, p_sig = 0x101,
       p_ssts = 0x103, p_sact = 0, p_ci = 0\<rparr>),
     cmd_lists = (\<lambda>_ _. \<lparr>h_cfl = 0, h_w = False, h_p = False, h_c = False, h_prdtl = 8, h_ctba = 0x3000, h_ctbau = 0\<rparr>),
     cmd_tables = (\<lambda>_. ex_tbl), a_pmm = \<lparr>pmm_lock = lock_init, pmm_bitmap = (\<lambda>_. 0), highest_page = 0x100000\<rparr>, a_mem = (\<lambda>_. 0), medium = of_nat, hba_inner = 0\<rparr>"


end
