(* ===== verification/Liballoc.thy ===== *)
theory Liballoc
  imports Pmm "HOL-Library.Multiset"
begin

text \<open>
  The heap, \<^verbatim>\<open>src/src/kernel/mm/liballoc.c\<close>, of which \<^verbatim>\<open>src/src/libc/src/sys/liballoc.c\<close> is a copy, and the hooks of
  \<^verbatim>\<open>src/src/kernel/mm/kheap.c\<close>. A major block is a run of pages with a header of 40 bytes; the allocations in it are
  minor blocks with a header of 40 bytes each. The two doubly linked lists of headers are lists, the blocks in
  the order of their links, each with its address; the root is the first major block. The magic numbers of
  headers, which \<^verbatim>\<open>free\<close> reads through any pointer, are a map. Where pages come from, and the lock, are
  the fields of \<open>page_ops\<close>. \<^const>\<open>None\<close> is waiting for ever or following a pointer to no block.
\<close>

section \<open>Blocks\<close>

record liballoc_minor =
  mn_addr :: u64
  mn_size :: u32
  mn_req :: u32

record liballoc_major =
  mj_addr :: u64
  mj_pages :: u32
  mj_size :: u32
  mj_usage :: u32
  mj_minors :: "liballoc_minor list"

record 'p page_ops =
  op_lock :: "'p \<Rightarrow> 'p option"
  op_unlock :: "'p \<Rightarrow> 'p"
  op_alloc :: "u32 \<Rightarrow> 'p \<times> mem \<Rightarrow> (u64 \<times> 'p \<times> mem) option"
  op_free :: "u64 \<Rightarrow> u32 \<Rightarrow> 'p \<Rightarrow> 'p option"

record 'p heap =
  l_majors :: "liballoc_major list"
  l_bestBet :: u64
  l_allocated :: u64
  l_inuse :: u64
  l_warningCount :: int
  l_errorCount :: int
  l_possibleOverruns :: int
  h_magic :: "u64 \<Rightarrow> u32"
  h_mem :: mem
  h_pages :: 'p

abbreviation LIBALLOC_MAGIC :: u32 where "LIBALLOC_MAGIC \<equiv> 0xc001c0de"
abbreviation LIBALLOC_DEAD :: u32 where "LIBALLOC_DEAD \<equiv> 0xdeaddead"
abbreviation HDR :: u64 where "HDR \<equiv> 40"

text \<open>The result of \<open>ALIGN\<close> is the pointer for the caller and the byte stored 16 bytes before it.\<close>

definition ALIGN :: "u64 \<Rightarrow> u64 \<times> u8" where
  "ALIGN p = (let p = p + 16; diff = p AND 15 in
     if diff \<noteq> 0 then (p + (16 - diff), ucast (16 - diff + 16)) else (p, ucast (diff + 16)))"

definition UNALIGN :: "mem \<Rightarrow> u64 \<Rightarrow> u64" where
  "UNALIGN m p = (let diff = scast (m (p - 16)) :: u64 in if diff < 32 then p - diff else p)"

definition lock_heap :: "'p page_ops \<Rightarrow> 'p heap \<Rightarrow> 'p heap option" where
  "lock_heap ops h = map_option (\<lambda>p. h\<lparr>h_pages := p\<rparr>) (op_lock ops (h_pages h))"

definition unlock_heap :: "'p page_ops \<Rightarrow> 'p heap \<Rightarrow> 'p heap" where
  "unlock_heap ops h = h\<lparr>h_pages := op_unlock ops (h_pages h)\<rparr>"


section \<open>Allocation\<close>

text \<open>A new major block; the result is \<^const>\<open>None\<close> inside when the pages are refused.\<close>

definition page_need :: "u32 \<Rightarrow> u32" where
  "page_need sz = (let st = sz + 40 + 40;
      st = (if st mod 4096 = 0 then st div 4096 else st div 4096 + 1) in if st < 16 then 16 else st)"

definition allocate_new_page :: "'p page_ops \<Rightarrow> u32 \<Rightarrow> 'p heap \<Rightarrow> (liballoc_major option \<times> 'p heap) option" where
  "allocate_new_page ops sz h = do {
     let st = page_need sz;
     (adr, p, m) \<leftarrow> op_alloc ops st (h_pages h, h_mem h);
     let h = h\<lparr>h_pages := p, h_mem := m\<rparr>;
     if adr = 0 then Some (None, h\<lparr>l_warningCount := l_warningCount h + 1\<rparr>)
     else Some (Some \<lparr>mj_addr = adr, mj_pages = st, mj_size = st * 4096, mj_usage = 40, mj_minors = []\<rparr>,
                h\<lparr>l_allocated := l_allocated h + ucast (st * 4096)\<rparr>)
   }"

text \<open>The cases 2 to 4 of \<^verbatim>\<open>malloc\<close>: room for a minor block inside a major block, and the new list of minor blocks.\<close>

definition new_minor :: "u64 \<Rightarrow> u64 \<Rightarrow> u64 \<Rightarrow> liballoc_minor" where
  "new_minor adr sz req = \<lparr>mn_addr = adr, mn_size = ucast sz, mn_req = ucast req\<rparr>"

definition after_minor :: "liballoc_minor \<Rightarrow> u64" where
  "after_minor m = mn_addr m + HDR + ucast (mn_size m)"

fun gap_walk :: "u64 \<Rightarrow> u64 \<Rightarrow> u64 \<Rightarrow> liballoc_minor list \<Rightarrow> (liballoc_minor list \<times> u64) option" where
  "gap_walk limit sz req [] = None"
| "gap_walk limit sz req [m] =
     (if limit - mn_addr m - HDR - ucast (mn_size m) \<ge> sz + HDR
      then Some ([m, new_minor (after_minor m) sz req], after_minor m) else None)"
| "gap_walk limit sz req (m # n # ms) =
     (if mn_addr n - mn_addr m - HDR - ucast (mn_size m) \<ge> sz + HDR
      then Some (m # new_minor (after_minor m) sz req # n # ms, after_minor m)
      else map_option (\<lambda>(l, a). (m # l, a)) (gap_walk limit sz req (n # ms)))"

definition place_minor :: "u64 \<Rightarrow> u64 \<Rightarrow> liballoc_major \<Rightarrow> (liballoc_minor list \<times> u64) option" where
  "place_minor sz req maj =
     (let start = mj_addr maj + HDR in
      case mj_minors maj of
        [] \<Rightarrow> Some ([new_minor start sz req], start)
      | m # ms \<Rightarrow>
          if mn_addr m - mj_addr maj - HDR \<ge> sz + HDR then Some (new_minor start sz req # m # ms, start)
          else gap_walk (mj_addr maj + ucast (mj_size maj)) sz req (m # ms))"

definition mj_free :: "liballoc_major \<Rightarrow> u64" where
  "mj_free maj = ucast (mj_size maj - mj_usage maj)"

text \<open>
  The walk over the major blocks. It keeps the block with the most room, \<open>bet\<close>, and gives the major
  block, its new minor blocks and the place found; or whether the last block was passed over
  in case 5, with enough room but not in one piece, and not in case 1.
\<close>

datatype walk_result = Found u64 "liballoc_minor list" u64 | Exhausted bool

fun major_walk :: "u64 \<Rightarrow> u64 \<Rightarrow> liballoc_major list \<Rightarrow> u64 \<Rightarrow> u64 \<Rightarrow> bool \<Rightarrow> walk_result \<times> u64 \<times> u64" where
  "major_walk sz req [] bet best full = (Exhausted full, bet, best)"
| "major_walk sz req (maj # majs) bet best full =
     (let diff = mj_free maj;
          (bet, best) = (if best < diff then (mj_addr maj, diff) else (bet, best)) in
      if diff < sz + HDR then major_walk sz req majs bet best False
      else case place_minor sz req maj of
             Some (minors, adr) \<Rightarrow> (Found (mj_addr maj) minors adr, bet, best)
           | None \<Rightarrow> major_walk sz req majs bet best True)"

definition upd_major :: "u64 \<Rightarrow> (liballoc_major \<Rightarrow> liballoc_major) \<Rightarrow> 'p heap \<Rightarrow> 'p heap" where
  "upd_major adr f h = h\<lparr>l_majors := map (\<lambda>M. if mj_addr M = adr then f M else M) (l_majors h)\<rparr>"

definition install_minor :: "'p page_ops \<Rightarrow> u64 \<Rightarrow> u64 \<Rightarrow> liballoc_minor list \<Rightarrow> u64 \<Rightarrow> 'p heap \<Rightarrow> u64 \<times> 'p heap" where
  "install_minor ops sz maj minors adr h =
     (let h = upd_major maj (\<lambda>M. M\<lparr>mj_minors := minors, mj_usage := mj_usage M + ucast (sz + HDR)\<rparr>) h;
          (p, b) = ALIGN (adr + HDR);
          h = h\<lparr>h_magic := (h_magic h)(adr := LIBALLOC_MAGIC), l_inuse := l_inuse h + sz, h_mem := (h_mem h)(p - 16 := b)\<rparr>
      in (p, unlock_heap ops h))"

text \<open>The new block at the last place of the list; after case 5 the walk looks at it once more from the start.\<close>

definition malloc_grow :: "'p page_ops \<Rightarrow> u64 \<Rightarrow> u64 \<Rightarrow> bool \<Rightarrow> u64 \<Rightarrow> 'p heap \<Rightarrow> (u64 \<times> 'p heap) option" where
  "malloc_grow ops sz req full best h = do {
     (r, h) \<leftarrow> allocate_new_page ops (ucast sz) h;
     case r of None \<Rightarrow> Some (0, unlock_heap ops h)
     | Some maj \<Rightarrow> do {
         let h = h\<lparr>l_majors := l_majors h @ [maj], l_bestBet := (if full \<and> best < mj_free maj then mj_addr maj else l_bestBet h)\<rparr>;
         let start = mj_addr maj + HDR;
         if full \<and> mj_free maj < sz + HDR then do {
           (r, h) \<leftarrow> allocate_new_page ops (ucast sz) h;
           case r of None \<Rightarrow> Some (0, unlock_heap ops h)
           | Some maj \<Rightarrow> Some (install_minor ops sz (mj_addr maj) [new_minor (mj_addr maj + HDR) sz req] (mj_addr maj + HDR)
               (h\<lparr>l_majors := l_majors h @ [maj]\<rparr>))
         } else Some (install_minor ops sz (mj_addr maj) [new_minor start sz req] start h)
       }
   }"

definition malloc_walk :: "'p page_ops \<Rightarrow> u64 \<Rightarrow> u64 \<Rightarrow> 'p heap \<Rightarrow> (u64 \<times> 'p heap) option" where
  "malloc_walk ops sz req h = do {
     (start, started, best) \<leftarrow>
       (if l_bestBet h = 0 then Some (l_majors h, False, 0)
        else case find (\<lambda>M. mj_addr M = l_bestBet h) (l_majors h) of
          None \<Rightarrow> None
        | Some B \<Rightarrow> Some (if mj_free B > sz + HDR then (dropWhile (\<lambda>M. mj_addr M \<noteq> l_bestBet h) (l_majors h), True, mj_free B)
                          else (l_majors h, False, mj_free B)));
     let (r, bet, best) = major_walk sz req start (l_bestBet h) best False;
     let (r, bet, best) = (case r of Exhausted _ \<Rightarrow> if started then major_walk sz req (l_majors h) bet best False else (r, bet, best)
                           | _ \<Rightarrow> (r, bet, best));
     let h = h\<lparr>l_bestBet := bet\<rparr>;
     case r of Found maj minors adr \<Rightarrow> Some (install_minor ops sz maj minors adr h)
     | Exhausted full \<Rightarrow> malloc_grow ops sz req full best h
   }"

definition malloc_sized :: "'p page_ops \<Rightarrow> u64 \<Rightarrow> u64 \<Rightarrow> 'p heap \<Rightarrow> (u64 \<times> 'p heap) option" where
  "malloc_sized ops sz req h =
     (if l_majors h = [] then do {
        (r, h) \<leftarrow> allocate_new_page ops (ucast sz) h;
        case r of None \<Rightarrow> Some (0, unlock_heap ops h)
        | Some maj \<Rightarrow> malloc_walk ops sz req (h\<lparr>l_majors := [maj]\<rparr>) }
      else malloc_walk ops sz req h)"

definition liballoc_malloc :: "'p page_ops \<Rightarrow> u64 \<Rightarrow> 'p heap \<Rightarrow> (u64 \<times> 'p heap) option" where
  "liballoc_malloc ops req h = do {
     let sz = req + 32;
     h \<leftarrow> lock_heap ops h;
     if sz = 0 then do {
       h \<leftarrow> lock_heap ops (unlock_heap ops (h\<lparr>l_warningCount := l_warningCount h + 1\<rparr>));
       malloc_sized ops 33 1 h }
     else malloc_sized ops sz req h
   }"


section \<open>Release\<close>

definition bad_magic :: "u32 \<Rightarrow> 'p heap \<Rightarrow> 'p heap" where
  "bad_magic magic h =
     (let h = h\<lparr>l_errorCount := l_errorCount h + 1\<rparr> in
      if magic AND 0xffffff = LIBALLOC_MAGIC AND 0xffffff \<or> magic AND 0xffff = LIBALLOC_MAGIC AND 0xffff \<or> magic AND 0xff = LIBALLOC_MAGIC AND 0xff
      then h\<lparr>l_possibleOverruns := l_possibleOverruns h + 1\<rparr> else h)"

definition minor_at :: "u64 \<Rightarrow> 'p heap \<Rightarrow> (liballoc_major \<times> liballoc_minor) option" where
  "minor_at adr h = find (\<lambda>(M, m). mn_addr m = adr) (concat (map (\<lambda>M. map (\<lambda>m. (M, m)) (mj_minors M)) (l_majors h)))"

definition free_minor :: "'p page_ops \<Rightarrow> liballoc_major \<Rightarrow> liballoc_minor \<Rightarrow> 'p heap \<Rightarrow> 'p heap option" where
  "free_minor ops maj m h =
     (let maj' = maj\<lparr>mj_minors := filter (\<lambda>n. mn_addr n \<noteq> mn_addr m) (mj_minors maj), mj_usage := mj_usage maj - (mn_size m + 40)\<rparr>;
          h = h\<lparr>l_inuse := l_inuse h - ucast (mn_size m), h_magic := (h_magic h)(mn_addr m := LIBALLOC_DEAD)\<rparr> in
      if mj_minors maj' = [] then
        map_option (\<lambda>p. h\<lparr>l_majors := filter (\<lambda>M. mj_addr M \<noteq> mj_addr maj) (l_majors h),
            l_bestBet := (if l_bestBet h = mj_addr maj then 0 else l_bestBet h),
            l_allocated := l_allocated h - ucast (mj_size maj), h_pages := p\<rparr>)
          (op_free ops (mj_addr maj) (mj_pages maj) (h_pages h))
      else
        let h = upd_major (mj_addr maj) (\<lambda>_. maj') h in
        if l_bestBet h = 0 then Some h
        else case find (\<lambda>M. mj_addr M = l_bestBet h) (l_majors h) of
          None \<Rightarrow> None
        | Some B \<Rightarrow> Some (if sint (mj_size maj' - mj_usage maj') > sint (mj_size B - mj_usage B)
                          then h\<lparr>l_bestBet := mj_addr maj\<rparr> else h))"

definition liballoc_free :: "'p page_ops \<Rightarrow> u64 \<Rightarrow> 'p heap \<Rightarrow> 'p heap option" where
  "liballoc_free ops ptr h =
     (if ptr = 0 then Some (h\<lparr>l_warningCount := l_warningCount h + 1\<rparr>)
      else do {
        let adr = UNALIGN (h_mem h) ptr - HDR;
        h \<leftarrow> lock_heap ops h;
        if h_magic h adr \<noteq> LIBALLOC_MAGIC then Some (unlock_heap ops (bad_magic (h_magic h adr) h))
        else do {
          (maj, m) \<leftarrow> minor_at adr h;
          h \<leftarrow> free_minor ops maj m h;
          Some (unlock_heap ops h)
        }
      })"


section \<open>Clearing and resizing\<close>

text \<open>
  The index of \<^verbatim>\<open>liballoc_memset\<close> has 32 bits: a longer block is filled for ever.
\<close>

definition liballoc_memset :: "mem \<Rightarrow> u64 \<Rightarrow> u8 \<Rightarrow> u64 \<Rightarrow> mem option" where
  "liballoc_memset m s c n =
     (if n < 2 ^ 32 then Some (fold (\<lambda>i m. m(s + of_nat i := c)) [0..<unat n] m) else None)"

fun liballoc_memcpy :: "mem \<Rightarrow> u64 \<Rightarrow> u64 \<Rightarrow> nat \<Rightarrow> mem" where
  "liballoc_memcpy m s1 s2 n =
     (if n \<ge> 4 then liballoc_memcpy (put_bytes m s1 (get_bytes m s2 4)) (s1 + 4) (s2 + 4) (n - 4)
      else if n > 0 then liballoc_memcpy (m(s1 := m s2)) (s1 + 1) (s2 + 1) (n - 1)
      else m)"

declare liballoc_memcpy.simps [simp del]

text \<open>The product is cut to an \<^verbatim>\<open>int\<close> and extended again with its sign.\<close>

definition liballoc_calloc :: "'p page_ops \<Rightarrow> u64 \<Rightarrow> u64 \<Rightarrow> 'p heap \<Rightarrow> (u64 \<times> 'p heap) option" where
  "liballoc_calloc ops nobj sz h = do {
     let real_size = (ucast (nobj * sz) :: u32);
     (p, h) \<leftarrow> liballoc_malloc ops (scast real_size) h;
     m \<leftarrow> liballoc_memset (h_mem h) p 0 (scast real_size);
     Some (p, h\<lparr>h_mem := m\<rparr>)
   }"

definition liballoc_realloc :: "'p page_ops \<Rightarrow> u64 \<Rightarrow> u64 \<Rightarrow> 'p heap \<Rightarrow> (u64 \<times> 'p heap) option" where
  "liballoc_realloc ops p sz h =
     (if sz = 0 then do { h \<leftarrow> liballoc_free ops p h; Some (0, h) }
      else if p = 0 then liballoc_malloc ops sz h
      else do {
        let adr = UNALIGN (h_mem h) p - HDR;
        h \<leftarrow> lock_heap ops h;
        if h_magic h adr \<noteq> LIBALLOC_MAGIC then Some (0, unlock_heap ops (bad_magic (h_magic h adr) h))
        else do {
          (maj, m) \<leftarrow> minor_at adr h;
          if ucast (mn_req m) \<ge> sz then
            Some (p, unlock_heap ops (upd_major (mj_addr maj) (\<lambda>M. M\<lparr>mj_minors :=
              map (\<lambda>n. if mn_addr n = adr then n\<lparr>mn_req := ucast sz\<rparr> else n) (mj_minors M)\<rparr>) h))
          else do {
            (ptr, h) \<leftarrow> liballoc_malloc ops sz (unlock_heap ops h);
            let h = h\<lparr>h_mem := liballoc_memcpy (h_mem h) ptr p (unat (mn_req m))\<rparr>;
            h \<leftarrow> liballoc_free ops p h;
            Some (ptr, h)
          }
        }
      })"


section \<open>The kernel heap\<close>

text \<open>
  The pages of the kernel come from the physical allocator and are reached through the direct map; the state is
  that of the allocator and the heap lock. A null address is never seen: the offset is
  added to it.
\<close>

definition liballoc_alloc_pages :: "u32 \<Rightarrow> (pmm_state \<times> lock_t) \<times> mem \<Rightarrow> (u64 \<times> (pmm_state \<times> lock_t) \<times> mem) option" where
  "liballoc_alloc_pages sz = (\<lambda>((s, l), m).
     map_option (\<lambda>(adr, s, m). (adr + PHYS_MEM_OFFSET, (s, l), m)) (pcalloc (scast sz) (s, m)))"

definition liballoc_free_pages :: "u64 \<Rightarrow> u32 \<Rightarrow> pmm_state \<times> lock_t \<Rightarrow> (pmm_state \<times> lock_t) option" where
  "liballoc_free_pages ptr pages = (\<lambda>(s, l). map_option (\<lambda>s. (s, l)) (pmm_free_pages (ptr - PHYS_MEM_OFFSET) (ucast pages) s))"

definition liballoc_lock :: "pmm_state \<times> lock_t \<Rightarrow> (pmm_state \<times> lock_t) option" where
  "liballoc_lock = (\<lambda>(s, l). map_option (\<lambda>(_, l). (s, l)) (LOCK l))"

definition liballoc_unlock :: "pmm_state \<times> lock_t \<Rightarrow> pmm_state \<times> lock_t" where
  "liballoc_unlock = (\<lambda>(s, l). (s, UNLOCK l))"

definition kheap_ops :: "(pmm_state \<times> lock_t) page_ops" where
  "kheap_ops = \<lparr>op_lock = liballoc_lock, op_unlock = liballoc_unlock, op_alloc = liballoc_alloc_pages, op_free = liballoc_free_pages\<rparr>"

type_synonym kheap = "(pmm_state \<times> lock_t) heap"

definition kmalloc :: "u64 \<Rightarrow> kheap \<Rightarrow> (u64 \<times> kheap) option" where
  "kmalloc sz = liballoc_malloc kheap_ops sz"

definition kfree :: "u64 \<Rightarrow> kheap \<Rightarrow> kheap option" where
  "kfree ptr = liballoc_free kheap_ops ptr"

definition krealloc :: "u64 \<Rightarrow> u64 \<Rightarrow> kheap \<Rightarrow> (u64 \<times> kheap) option" where
  "krealloc ptr sz = liballoc_realloc kheap_ops ptr sz"

definition kcalloc :: "u64 \<Rightarrow> kheap \<Rightarrow> (u64 \<times> kheap) option" where
  "kcalloc sz = liballoc_calloc kheap_ops sz 1"

section \<open>The invariant\<close>

text \<open>
  Inside a major block the minor blocks lie one behind the other between the header and the limit;
  the usage counts their headers and bytes.
\<close>

definition minor_end :: "liballoc_minor \<Rightarrow> nat" where
  "minor_end m = unat (mn_addr m) + 40 + unat (mn_size m)"

fun minors_ok :: "nat \<Rightarrow> nat \<Rightarrow> liballoc_minor list \<Rightarrow> bool" where
  "minors_ok lo hi [] \<longleftrightarrow> lo \<le> hi"
| "minors_ok lo hi (m # ms) \<longleftrightarrow> lo \<le> unat (mn_addr m) \<and> unat (mn_req m) + 32 \<le> unat (mn_size m) \<and> minors_ok (minor_end m) hi ms"

definition minors_size :: "liballoc_minor list \<Rightarrow> nat" where
  "minors_size ms = (\<Sum>m\<leftarrow>ms. unat (mn_size m) + 40)"

definition major_end :: "liballoc_major \<Rightarrow> nat" where
  "major_end M = unat (mj_addr M) + unat (mj_size M)"

definition major_ok :: "liballoc_major \<Rightarrow> bool" where
  "major_ok M \<longleftrightarrow> mj_addr M \<noteq> 0 \<and> major_end M < 2 ^ 64 \<and> unat (mj_size M) = 4096 * unat (mj_pages M) \<and>
     minors_ok (unat (mj_addr M) + 40) (major_end M) (mj_minors M) \<and> unat (mj_usage M) = 40 + minors_size (mj_minors M)"

definition majors_apart :: "liballoc_major list \<Rightarrow> bool" where
  "majors_apart Ms \<longleftrightarrow> distinct (map mj_addr Ms) \<and>
     (\<forall>M\<in>set Ms. \<forall>N\<in>set Ms. mj_addr M \<noteq> mj_addr N \<longrightarrow> major_end M \<le> unat (mj_addr N) \<or> major_end N \<le> unat (mj_addr M))"

definition live :: "'p heap \<Rightarrow> liballoc_minor list" where
  "live h = concat (map mj_minors (l_majors h))"

definition heap_ok :: "'p heap \<Rightarrow> bool" where
  "heap_ok h \<longleftrightarrow> (\<forall>M\<in>set (l_majors h). major_ok M) \<and> majors_apart (l_majors h) \<and>
     (l_bestBet h = 0 \<or> l_bestBet h \<in> mj_addr ` set (l_majors h)) \<and> (\<forall>m\<in>set (live h). h_magic h (mn_addr m) = LIBALLOC_MAGIC)"


section \<open>Lemmas\<close>

subsection \<open>Minor blocks\<close>

lemma minors_ok_le: "minors_ok lo hi ms \<Longrightarrow> lo + minors_size ms \<le> hi"
  by (induction ms arbitrary: lo) (fastforce simp: minors_size_def minor_end_def)+

lemma minors_ok_mem: "minors_ok lo hi ms \<Longrightarrow> m \<in> set ms \<Longrightarrow> lo \<le> unat (mn_addr m) \<and> minor_end m \<le> hi \<and> unat (mn_req m) + 32 \<le> unat (mn_size m)"
  by (induction ms arbitrary: lo) (fastforce simp: minor_end_def dest: minors_ok_le)+

lemma minors_ok_apart:
  "minors_ok lo hi ms \<Longrightarrow> m \<in> set ms \<Longrightarrow> n \<in> set ms \<Longrightarrow> m \<noteq> n \<Longrightarrow> minor_end m \<le> unat (mn_addr n) \<or> minor_end n \<le> unat (mn_addr m)"
  by (induction ms arbitrary: lo) (auto dest: minors_ok_mem)

lemma minors_ok_distinct: "minors_ok lo hi ms \<Longrightarrow> distinct (map mn_addr ms)"
proof (induction ms arbitrary: lo)
  case Nil
  show ?case by simp
next
  case (Cons m ms)
  then have "mn_addr n \<noteq> mn_addr m" if "n \<in> set ms" for n
    using minors_ok_mem [of "minor_end m" hi ms n] that by (auto simp: minor_end_def)
  then have "mn_addr m \<notin> mn_addr ` set ms" by force
  then show ?case using Cons.IH [of "minor_end m"] Cons.prems by simp
qed

lemma minors_ok_mono: "minors_ok lo hi ms \<Longrightarrow> lo' \<le> lo \<Longrightarrow> minors_ok lo' hi ms"
  by (cases ms) auto

lemma unat_ucast32: "unat (ucast (w :: u32) :: u64) = unat w"
  by (simp add: unsigned_ucast_eq take_bit_nat_eq_self less_trans [OF unat_lt32])

lemma unat_ucast64: "unat (w :: u64) < 2 ^ 32 \<Longrightarrow> unat (ucast w :: u32) = unat w"
  by (simp add: unsigned_ucast_eq take_bit_nat_eq_self)

lemma unat_after_minor: "minor_end m < 2 ^ 64 \<Longrightarrow> unat (after_minor m) = minor_end m"
proof -
  assume e: "minor_end m < 2 ^ 64"
  then have a: "unat (mn_addr m + HDR) = unat (mn_addr m) + 40" by (subst unat_add_small) (simp_all add: minor_end_def)
  then show ?thesis using e unfolding after_minor_def by (subst unat_add_small) (simp_all add: unat_ucast32 minor_end_def)
qed

text \<open>The free space behind a minor block, up to the next one or the limit.\<close>

lemma gap_size:
  assumes "minor_end m \<le> unat (x :: u64)"
  shows "unat (x - mn_addr m - HDR - ucast (mn_size m)) = unat x - minor_end m"
proof -
  have "unat (after_minor m) = minor_end m" using le_less_trans [OF assms unat_lt64] by (intro unat_after_minor) simp
  moreover have "x - mn_addr m - HDR - ucast (mn_size m) = x - after_minor m" by (simp add: after_minor_def)
  ultimately show ?thesis using assms by (simp only: unat_sub_small)
qed

lemma new_minor_simps:
  assumes "unat sz < 2 ^ 31" and "unat req + 32 \<le> unat sz"
  shows "mn_addr (new_minor a sz req) = a" "unat (mn_size (new_minor a sz req)) = unat sz" "unat (mn_req (new_minor a sz req)) = unat req"
    "minor_end (new_minor a sz req) = unat a + 40 + unat sz"
  using assms by (simp_all add: new_minor_def minor_end_def unat_ucast64)

lemma need_eq: "unat (sz :: u64) < 2 ^ 31 \<Longrightarrow> unat (sz + HDR) = unat sz + 40"
  by (simp add: unat_add_small)

lemma gap_walk_ok:
  assumes "gap_walk limit sz req ms = Some (ms', a)" and "minors_ok lo (unat limit) ms" and "unat sz < 2 ^ 31" and "unat req + 32 \<le> unat sz"
  shows "minors_ok lo (unat limit) ms' \<and> mset ms' = add_mset (new_minor a sz req) (mset ms)"
  using assms
proof (induction limit sz req ms arbitrary: lo ms' a rule: gap_walk.induct [case_names nil one more])
  case (nil limit sz req)
  then show ?case by simp
next
  case (one limit sz req m)
  note new = new_minor_simps [OF one.prems(3,4)] and need = need_eq [OF one.prems(3)]
  have e: "minor_end m \<le> unat limit" using one.prems(2) by simp
  then have af: "unat (after_minor m) = minor_end m" using le_less_trans [OF e unat_lt64] by (intro unat_after_minor) simp
  from one.prems(1) have r: "sz + HDR \<le> limit - mn_addr m - HDR - ucast (mn_size m)" "ms' = [m, new_minor (after_minor m) sz req]" "a = after_minor m"
    by (auto split: if_splits)
  then show ?case using one.prems(2,4) new af e gap_size [OF e] need by (simp add: word_le_nat_alt)
next
  case (more limit sz req m n ms)
  note new = new_minor_simps [OF more.prems(3,4)] and need = need_eq [OF more.prems(3)]
  have e: "minor_end m \<le> unat (mn_addr n)" using more.prems(2) by simp
  then have af: "unat (after_minor m) = minor_end m" using le_less_trans [OF e unat_lt64] by (intro unat_after_minor) simp
  show ?case
  proof (cases "sz + HDR \<le> mn_addr n - mn_addr m - HDR - ucast (mn_size m)")
    case True
    then show ?thesis using more.prems new af e gap_size [OF e] need by (auto simp: word_le_nat_alt)
  next
    case False
    then obtain l where "gap_walk limit sz req (n # ms) = Some (l, a)" "ms' = m # l" using more.prems(1) by auto
    then show ?thesis using more.IH [OF False _ _ more.prems(3,4), of l a "minor_end m"] more.prems(2) by auto
  qed
qed

lemma place_minor_ok:
  assumes "place_minor sz req M = Some (ms', a)" and "major_ok M" and "sz + HDR \<le> mj_free M" and "unat sz < 2 ^ 31" and "unat req + 32 \<le> unat sz"
  shows "minors_ok (unat (mj_addr M) + 40) (major_end M) ms' \<and> mset ms' = add_mset (new_minor a sz req) (mset (mj_minors M))"
proof -
  note new = new_minor_simps [OF assms(4,5)] and need = need_eq [OF assms(4)]
  have ok: "minors_ok (unat (mj_addr M) + 40) (major_end M) (mj_minors M)" "major_end M < 2 ^ 64" "unat (mj_usage M) = 40 + minors_size (mj_minors M)"
    using assms(2) by (simp_all add: major_ok_def)
  have le: "40 + minors_size (mj_minors M) \<le> unat (mj_size M)" using minors_ok_le [OF ok(1)] by (simp add: major_end_def)
  have free: "unat (mj_free M) = unat (mj_size M) - unat (mj_usage M)"
    unfolding mj_free_def unat_ucast32 using le ok(3) by (intro unat_sub_small) simp
  have start: "unat (mj_addr M + HDR) = unat (mj_addr M) + 40"
    using ok(2) le by (intro unat_add_small [THEN trans]) (simp_all add: major_end_def)
  have lim: "unat (mj_addr M + ucast (mj_size M)) = major_end M"
    using ok(2) by (subst unat_add_small) (simp_all add: major_end_def unat_ucast32)
  show ?thesis
  proof (cases "mj_minors M")
    case Nil
    then show ?thesis using assms(1,3,5) new need free start ok(3) le
      by (auto simp: place_minor_def Let_def minors_size_def word_le_nat_alt major_end_def)
  next
    case (Cons m ms)
    have m: "unat (mj_addr M) + 40 \<le> unat (mn_addr m)" using ok(1) Cons by simp
    have "mn_addr m - mj_addr M - HDR = mn_addr m - (mj_addr M + HDR)" by simp
    then have gap: "unat (mn_addr m - mj_addr M - HDR) = unat (mn_addr m) - (unat (mj_addr M) + 40)"
      using m start by (simp only: unat_sub_small)
    show ?thesis
    proof (cases "sz + HDR \<le> mn_addr m - mj_addr M - HDR")
      case True
      then show ?thesis using assms(1,5) Cons new need gap start ok(1) m by (auto simp: place_minor_def Let_def word_le_nat_alt)
    next
      case False
      then have "gap_walk (mj_addr M + ucast (mj_size M)) sz req (mj_minors M) = Some (ms', a)"
        using assms(1) Cons by (simp add: place_minor_def Let_def)
      from gap_walk_ok [OF this, unfolded lim, OF ok(1) assms(4,5)] show ?thesis .
    qed
  qed
qed

subsection \<open>Alignment\<close>

lemma and_15: "unat ((p :: u64) AND 15) = unat p mod 16"
proof -
  have "(15 :: u64) = mask 4" by (simp add: mask_eq_exp_minus_1)
  then have "p AND 15 = take_bit 4 p" by (simp only: take_bit_eq_mask)
  then show ?thesis by (simp only: unsigned_take_bit_eq) (simp add: take_bit_eq_mod)
qed

lemma ALIGN_run:
  obtains k where "k < 16" "ALIGN q = (q + of_nat (16 + k), of_nat (16 + k))" "unat q + 32 < 2 ^ 64 \<Longrightarrow> unat (q + of_nat (16 + k)) mod 16 = 0"
    "unat q + 32 < 2 ^ 64 \<Longrightarrow> unat (q + of_nat (16 + k)) = unat q + 16 + k"
proof -
  define d where "d = (q + 16) AND 15"
  define k where "k = (if d = 0 then 0 else 16 - unat d)"
  have d: "unat d < 16" by (simp add: d_def and_15)
  have dk: "16 - d = of_nat k" if "d \<noteq> 0"
    using that d by (simp add: k_def of_nat_diff)
  have k: "k < 16" using d by (auto simp: k_def unat_gt_0)
  have b: "ucast (of_nat n :: u64) = (of_nat n :: u8)" for n
    by (simp add: word_unat_eq_iff unsigned_ucast_eq unsigned_of_nat take_bit_take_bit)
  have eq: "ALIGN q = (q + of_nat (16 + k), of_nat (16 + k))"
  proof (cases "d = 0")
    case True
    then show ?thesis unfolding ALIGN_def Let_def d_def [symmetric] by (simp add: k_def)
  next
    case False
    have "16 - d + 16 = of_nat (16 + k)" unfolding dk [OF False] by simp
    then have u: "ucast (16 - d + 16) = (of_nat (16 + k) :: u8)" using b by (simp only:)
    have "ALIGN q = (q + 16 + (16 - d), ucast (16 - d + 16))"
      unfolding ALIGN_def Let_def d_def [symmetric] by (rule if_P [OF False])
    then show ?thesis unfolding u unfolding dk [OF False] by (simp add: algebra_simps)
  qed
  have small: "unat (of_nat (16 + k) :: u64) = 16 + k" by (rule unat_of_nat_id) (use k in simp)
  have sum: "unat (q + of_nat (16 + k)) = unat q + 16 + k" if "unat q + 32 < 2 ^ 64"
    using that k small unat_add_small [of q "of_nat (16 + k)"] by simp
  have md: "unat (q + of_nat (16 + k)) mod 16 = 0" if h: "unat q + 32 < 2 ^ 64"
  proof -
    have "unat (q + 16) = unat q + 16" using h by (simp add: unat_add_small)
    then have r: "unat d = unat q mod 16" by (simp add: d_def and_15)
    have "(unat q + k) mod 16 = 0"
    proof (cases "d = 0")
      case True
      then show ?thesis using r by (simp add: k_def)
    next
      case False
      then have "unat q mod 16 + k = 16" using r d by (simp add: k_def)
      then show ?thesis by (metis mod_add_left_eq mod_self)
    qed
    then show ?thesis unfolding sum [OF h] by presburger
  qed
  show thesis by (rule that [OF k eq md sum])
qed

lemma UNALIGN_back:
  assumes "k < 16" and "m (p - 16) = of_nat (16 + k)"
  shows "UNALIGN m p = p - of_nat (16 + k)"
proof -
  have "scast (of_nat (16 + k) :: u8) = (of_nat (16 + k) :: u64)"
  proof -
    have "k \<in> set [0..<16]" using assms(1) by simp
    then show ?thesis by (simp add: upt_rec) (elim disjE; simp)
  qed
  moreover have "(of_nat (16 + k) :: u64) < 32"
    using assms(1) unat_of_nat_id [of "16 + k", where ?'a = 64] by (simp add: word_less_nat_alt)
  ultimately show ?thesis unfolding UNALIGN_def assms(2) Let_def by simp
qed


subsection \<open>The walk over the major blocks\<close>

lemma major_walk_cases:
  "major_walk sz req majs bet best full = (r, bet', best') \<Longrightarrow>
    (bet' = bet \<or> bet' \<in> mj_addr ` set majs) \<and>
    (\<forall>a ms' x. r = Found a ms' x \<longrightarrow> (\<exists>M\<in>set majs. mj_addr M = a \<and> sz + HDR \<le> mj_free M \<and> place_minor sz req M = Some (ms', x)))"
proof (induction majs arbitrary: bet best full)
  case Nil
  then show ?case by auto
next
  case (Cons M majs)
  obtain bet1 best1 where b: "(if best < mj_free M then (mj_addr M, mj_free M) else (bet, best)) = (bet1, best1)" by fastforce
  then have bet1: "bet1 = bet \<or> bet1 = mj_addr M" by (auto split: if_splits)
  show ?case
  proof (cases "mj_free M < sz + HDR \<or> place_minor sz req M = None")
    case True
    then obtain full' where "major_walk sz req majs bet1 best1 full' = (r, bet', best')"
      using Cons.prems b by (auto simp: Let_def split: if_splits)
    from Cons.IH [OF this] show ?thesis using bet1 by auto
  next
    case False
    then obtain ms x where "place_minor sz req M = Some (ms, x)" by auto
    then show ?thesis using Cons.prems b bet1 False by (auto simp: Let_def)
  qed
qed

subsection \<open>Live blocks lie apart\<close>

lemma major_ok_mem:
  "major_ok M \<Longrightarrow> m \<in> set (mj_minors M) \<Longrightarrow>
    unat (mj_addr M) + 40 \<le> unat (mn_addr m) \<and> minor_end m \<le> major_end M \<and> unat (mn_req m) + 32 \<le> unat (mn_size m)"
  using minors_ok_mem by (auto simp: major_ok_def)

lemma live_mem: "m \<in> set (live h) \<longleftrightarrow> (\<exists>M\<in>set (l_majors h). m \<in> set (mj_minors M))"
  by (auto simp: live_def)

lemma majors_minors_apart:
  assumes "\<forall>M\<in>set Ms. major_ok M" and "majors_apart Ms" and "M \<in> set Ms" and "N \<in> set Ms" and "m \<in> set (mj_minors M)" and "n \<in> set (mj_minors N)" and "m \<noteq> n"
  shows "minor_end m \<le> unat (mn_addr n) \<or> minor_end n \<le> unat (mn_addr m)"
proof (cases "mj_addr M = mj_addr N")
  case True
  then have "M = N" using assms(2-4) by (auto simp: majors_apart_def distinct_map inj_on_def)
  then show ?thesis using assms minors_ok_apart by (metis major_ok_def)
next
  case False
  then have "major_end M \<le> unat (mj_addr N) \<or> major_end N \<le> unat (mj_addr M)" using assms(2-4) by (simp add: majors_apart_def)
  then show ?thesis using major_ok_mem [of M m] major_ok_mem [of N n] assms by fastforce
qed

lemma live_apart:
  "heap_ok h \<Longrightarrow> m \<in> set (live h) \<Longrightarrow> n \<in> set (live h) \<Longrightarrow> m \<noteq> n \<Longrightarrow> minor_end m \<le> unat (mn_addr n) \<or> minor_end n \<le> unat (mn_addr m)"
  using majors_minors_apart unfolding heap_ok_def live_mem by blast

lemma majors_distinct:
  "\<forall>M\<in>set Ms. major_ok M \<Longrightarrow> majors_apart Ms \<Longrightarrow> distinct (map mn_addr (concat (map mj_minors Ms)))"
proof (induction Ms)
  case Nil
  show ?case by simp
next
  case (Cons M Ms)
  have rest: "\<forall>M\<in>set Ms. major_ok M" "majors_apart Ms" using Cons.prems by (auto simp: majors_apart_def)
  have own: "distinct (map mn_addr (mj_minors M))" using Cons.prems(1) minors_ok_distinct by (auto simp: major_ok_def)
  have "mn_addr m \<noteq> mn_addr n" if "m \<in> set (mj_minors M)" "N \<in> set Ms" "n \<in> set (mj_minors N)" for m N n
  proof -
    have "mj_addr M \<noteq> mj_addr N" using Cons.prems(2) that(2) by (auto simp: majors_apart_def)
    then have "major_end M \<le> unat (mj_addr N) \<or> major_end N \<le> unat (mj_addr M)" using Cons.prems(2) that(2) by (simp add: majors_apart_def)
    then show ?thesis using major_ok_mem [of M m] major_ok_mem [of N n] Cons.prems(1) that by (fastforce simp: minor_end_def)
  qed
  then show ?case using own Cons.IH [OF rest] by auto
qed

lemma live_distinct: "heap_ok h \<Longrightarrow> distinct (map mn_addr (live h))"
  unfolding heap_ok_def live_def using majors_distinct by blast

lemma upd_split:
  assumes "distinct (map mj_addr (xs @ M # ys))"
  shows "map (\<lambda>N. if mj_addr N = mj_addr M then f N else N) (xs @ M # ys) = xs @ f M # ys"
proof -
  have "mj_addr N \<noteq> mj_addr M" if "N \<in> set xs \<union> set ys" for N
  proof -
    have "mj_addr N \<in> mj_addr ` (set xs \<union> set ys)" using that by blast
    moreover have "mj_addr M \<notin> mj_addr ` (set xs \<union> set ys)" using assms by auto
    ultimately show ?thesis by metis
  qed
  then show ?thesis by (auto intro!: map_idI)
qed

lemma minors_size_mset: "mset ms' = add_mset m (mset ms) \<Longrightarrow> minors_size ms' = minors_size ms + unat (mn_size m) + 40"
proof -
  have "minors_size xs = (\<Sum>m\<in>#mset xs. unat (mn_size m) + 40)" for xs
    by (simp add: minors_size_def sum_mset_sum_list flip: mset_map)
  then show "mset ms' = add_mset m (mset ms) \<Longrightarrow> ?thesis" by simp
qed

text \<open>Changing the minor blocks of one major block.\<close>

lemma heap_ok_upd:
  assumes ok: "heap_ok h" and M: "l_majors h = xs @ M # ys" and M': "major_ok M'" "mj_addr M' = mj_addr M" "mj_size M' = mj_size M"
    and magic: "\<forall>m\<in>set (mj_minors M'). g (mn_addr m) = LIBALLOC_MAGIC" "\<forall>m\<in>set (concat (map mj_minors (xs @ ys))). g (mn_addr m) = LIBALLOC_MAGIC"
    and bet: "b = 0 \<or> b \<in> mj_addr ` set (l_majors h)"
  shows "heap_ok (h\<lparr>l_majors := xs @ M' # ys, h_magic := g, l_bestBet := b\<rparr>)"
proof -
  have "majors_apart (xs @ M' # ys)"
    using ok M M'(2,3) unfolding heap_ok_def majors_apart_def by (simp add: major_end_def)
  moreover have "\<forall>N\<in>set (xs @ M' # ys). major_ok N" using ok M M'(1) by (auto simp: heap_ok_def)
  moreover have "b = 0 \<or> b \<in> mj_addr ` set (xs @ M' # ys)" using bet M M'(2) by auto
  ultimately show ?thesis using magic by (auto simp: heap_ok_def live_def)
qed

subsection \<open>A new minor block\<close>

text \<open>The pointer handed out for a minor block, and what an allocation achieves.\<close>

definition user_ptr :: "mem \<Rightarrow> liballoc_minor \<Rightarrow> u64 \<Rightarrow> bool" where
  "user_ptr mm m p \<longleftrightarrow> (\<exists>k<16. p = mn_addr m + HDR + of_nat (16 + k) \<and> unat p = unat (mn_addr m) + 56 + k \<and> mm (p - 16) = of_nat (16 + k)) \<and>
     unat p mod 16 = 0"

definition malloc_post :: "u64 \<Rightarrow> 'p heap \<Rightarrow> u64 \<Rightarrow> 'p heap \<Rightarrow> bool" where
  "malloc_post req h p h' \<longleftrightarrow> heap_ok h' \<and>
     (\<exists>m. mset (live h') = add_mset m (mset (live h)) \<and> unat (mn_req m) = unat req \<and> user_ptr (h_mem h') m p) \<and>
     (\<forall>m\<in>set (live h). \<forall>x. unat (mn_addr m) \<le> unat x \<and> unat x < minor_end m \<longrightarrow> h_mem h' x = h_mem h x)"

lemma install_minor_ok:
  assumes ok: "heap_ok h" and M: "M \<in> set (l_majors h)"
    and place: "minors_ok (unat (mj_addr M) + 40) (major_end M) ms'" "mset ms' = add_mset (new_minor a sz req) (mset (mj_minors M))"
    and sz: "unat sz < 2 ^ 31" "unat req + 32 \<le> unat sz"
  shows "\<exists>p h'. install_minor ops sz (mj_addr M) ms' a h = (p, h') \<and> malloc_post req h p h'"
proof -
  define n where "n = new_minor a sz req"
  note new = new_minor_simps [OF sz, of a, folded n_def]
  have mok: "major_ok M" using ok M by (simp add: heap_ok_def)
  obtain xs ys where xy: "l_majors h = xs @ M # ys" using split_list [OF M] by blast
  have "distinct (map mj_addr (l_majors h))" using ok unfolding heap_ok_def majors_apart_def by blast
  then have dist: "distinct (map mj_addr (xs @ M # ys))" unfolding xy .
  define M' where "M' = M\<lparr>mj_minors := ms', mj_usage := mj_usage M + ucast (sz + HDR)\<rparr>"
  have ln: "n \<in> set ms'" using place(2) unfolding n_def by (metis set_mset_mset union_single_eq_member set_mset_add_mset_insert insertI1)
  have size': "minors_size ms' = minors_size (mj_minors M) + unat sz + 40" using minors_size_mset [OF place(2)] new(2) by (simp add: n_def)
  have le: "40 + minors_size ms' \<le> unat (mj_size M)" using minors_ok_le [OF place(1)] by (simp add: major_end_def)
  have "unat (ucast (sz + HDR) :: u32) = unat sz + 40" using sz(1) need_eq [OF sz(1)] by (simp add: unat_ucast64)
  moreover have "unat (mj_usage M) = 40 + minors_size (mj_minors M)" using mok by (simp add: major_ok_def)
  moreover have "40 + minors_size ms' < 2 ^ 32" using le_less_trans [OF le unat_lt32] by simp
  ultimately have use: "unat (mj_usage M') = 40 + minors_size ms'"
    using size' unat_add_small [of "mj_usage M" "ucast (sz + HDR)"] by (simp add: M'_def)
  have mok': "major_ok M'" using mok place(1) use by (simp add: major_ok_def M'_def major_end_def)
  have lo: "unat (mj_addr M) + 40 \<le> unat a" and hi: "unat a + 40 + unat sz \<le> major_end M"
    using minors_ok_mem [OF place(1) ln] new by simp_all
  have top: "unat a + 40 + unat sz < 2 ^ 64" using hi mok by (simp add: major_ok_def)
  have q: "unat (a + HDR) = unat a + 40" using top by (simp add: unat_add_small)
  then have "unat (a + HDR) + 32 < 2 ^ 64" using top sz(2) by simp
  then obtain k where k: "k < 16" "ALIGN (a + HDR) = (a + HDR + of_nat (16 + k), of_nat (16 + k))"
    "unat (a + HDR + of_nat (16 + k)) mod 16 = 0" "unat (a + HDR + of_nat (16 + k)) = unat a + 40 + 16 + k"
    using ALIGN_run [of "a + HDR"] unfolding q by metis
  define p where "p = a + HDR + of_nat (16 + k)"
  define g where "g = (h_magic h)(a := LIBALLOC_MAGIC)"
  define h1 where "h1 = h\<lparr>l_majors := xs @ M' # ys, h_magic := g, l_bestBet := l_bestBet h\<rparr>"
  define h' where "h' = unlock_heap ops (h1\<lparr>l_inuse := l_inuse h + sz, h_mem := (h_mem h)(p - 16 := of_nat (16 + k))\<rparr>)"
  have inst: "install_minor ops sz (mj_addr M) ms' a h = (p, h')"
    unfolding install_minor_def upd_major_def xy upd_split [OF dist] k(2) by (simp add: Let_def h'_def h1_def g_def M'_def p_def unlock_heap_def)
  have ok1: "heap_ok h1"
    unfolding h1_def
  proof (rule heap_ok_upd [OF ok xy mok'])
    show "mj_addr M' = mj_addr M" "mj_size M' = mj_size M" by (simp_all add: M'_def)
    have "set ms' = insert n (set (mj_minors M))" using arg_cong [OF place(2), of set_mset] by (simp add: n_def)
    then show "\<forall>m\<in>set (mj_minors M'). g (mn_addr m) = LIBALLOC_MAGIC"
      using ok xy new(1) by (auto simp: heap_ok_def live_def M'_def g_def)
    show "\<forall>m\<in>set (concat (map mj_minors (xs @ ys))). g (mn_addr m) = LIBALLOC_MAGIC"
      using ok xy by (auto simp: heap_ok_def live_def g_def)
    show "l_bestBet h = 0 \<or> l_bestBet h \<in> mj_addr ` set (l_majors h)" using ok by (simp add: heap_ok_def)
  qed
  have ok': "heap_ok h'" using ok1 by (simp add: h'_def unlock_heap_def heap_ok_def live_def)
  have lv: "mset (live h') = add_mset n (mset (live h))"
    using place(2) by (simp add: h'_def h1_def unlock_heap_def live_def xy M'_def n_def)
  have ptr: "user_ptr (h_mem h') n p"
    unfolding user_ptr_def new(1) using k(1,3,4) by (auto simp: p_def h'_def unlock_heap_def intro!: exI [of _ k])
  have "h_mem h' x = h_mem h x" if "m \<in> set (live h)" "unat (mn_addr m) \<le> unat x" "unat x < minor_end m" for m x
  proof -
    have "mset (map mn_addr (live h')) = mset (mn_addr n # map mn_addr (live h))" using lv by simp
    then have "distinct (mn_addr n # map mn_addr (live h))" using live_distinct [OF ok'] mset_eq_imp_distinct_iff by blast
    then have ne: "m \<noteq> n" using that(1) by auto
    have mem: "m \<in> set (live h')" "n \<in> set (live h')" using arg_cong [OF lv, of set_mset] that(1) by auto
    have "unat (p - 16) = unat a + 40 + k"
      using k(4) by (subst unat_sub_small) (simp_all add: p_def)
    then have "x \<noteq> p - 16" using live_apart [OF ok' mem ne] that(2,3) new(4) sz(2) k(1) new(1) by auto
    then show ?thesis by (simp add: h'_def unlock_heap_def)
  qed
  then show ?thesis using inst ok' lv ptr new(3) unfolding malloc_post_def by blast
qed

end
