(* ===== verification/Spec2Isabelle.thy ===== *)
theory Spec2Isabelle
  imports Lock Memory Pmm CString Vec Rtc Pipe Event Bytes Device Vfs Tmpfs FatTable Fat32 Vmm Elf Apic Sched Syscall Acpi Pci Ahci Liballoc
begin

text \<open>
  Verification of MandelbrotOS, an x86-64 kernel in C with a small libc
  (\<^verbatim>\<open>src/src/kernel\<close>, \<^verbatim>\<open>src/src/libc\<close>).

  \<^bold>\<open>Parts.\<close> The kernel boots from stivale2, builds a physical page allocator from
  the memory map, page tables and a kernel heap on top of it, and then a virtual
  file system with tmpfs, devfs and FAT32 back ends, block devices on AHCI disks, a
  priority scheduler, events and pipes, and a system call table that user programs
  reach through the libc.
\<close>

end
